(* ===== verification/Prelude.thy ===== *)
theory Prelude
  imports Main "HOL-Library.Char_ord" "HOL-Library.List_Lexorder"
    "HOL-Library.Code_Target_Numeral"
begin

text \<open>
  Shared vocabulary of the development: the shape of a fallible Go call, decimal numerals as
  package \<open>fmt\<close> and package \<open>strconv\<close> write and read them, and the collections of facts the
  component theories feed to the simplifier.

  A Go \<open>string\<close> is a sequence of bytes and is modelled by HOL's \<open>string\<close> (a list of 8-bit
  characters), so \<open>length\<close> is Go's \<open>len\<close> and the lexicographic order is byte order.
  A call that returns \<open>(T, error)\<close> is a value of type \<open>error + 'a\<close>: \<open>Inl\<close> the error.
\<close>

named_theorems go_string_simps \<open>evaluation and algebra of the string functions\<close>
named_theorems go_numeral_simps \<open>facts about decimal numerals\<close>

section \<open>Error returns\<close>

definition bind_res :: "'e + 'a \<Rightarrow> ('a \<Rightarrow> 'e + 'b) \<Rightarrow> 'e + 'b" where
  "bind_res r k = (case r of Inl e \<Rightarrow> Inl e | Inr a \<Rightarrow> k a)"

lemma bind_res_simps [simp]:
  "bind_res (Inl e) k = Inl e"
  "bind_res (Inr a) k = k a"
  by (simp_all add: bind_res_def)

lemma bind_res_Inr_iff:
  "bind_res r k = Inr b \<longleftrightarrow> (\<exists>a. r = Inr a \<and> k a = Inr b)"
  by (cases r) auto

section \<open>Decimal numerals\<close>

definition digit_char :: "nat \<Rightarrow> char" where
  "digit_char d = char_of (48 + d)"

definition is_digit_char :: "char \<Rightarrow> bool" where
  "is_digit_char c \<longleftrightarrow> 48 \<le> (of_char c :: nat) \<and> (of_char c :: nat) \<le> 57"

definition digit_val :: "char \<Rightarrow> nat" where
  "digit_val c = of_char c - 48"

lemma of_char_digit_char [simp]: "d < 10 \<Longrightarrow> (of_char (digit_char d) :: nat) = 48 + d"
  by (simp add: digit_char_def)

lemma digit_char_0 [simp]: "digit_char 0 = CHR ''0''"
  by code_simp

lemma digit_char_is_digit [simp, go_numeral_simps]: "d < 10 \<Longrightarrow> is_digit_char (digit_char d)"
  by (simp add: is_digit_char_def)

lemma digit_val_digit_char [simp, go_numeral_simps]: "d < 10 \<Longrightarrow> digit_val (digit_char d) = d"
  by (simp add: digit_val_def)

lemma digit_val_less: "is_digit_char c \<Longrightarrow> digit_val c < 10"
  by (auto simp: is_digit_char_def digit_val_def)

lemma digit_char_digit_val: "is_digit_char c \<Longrightarrow> digit_char (digit_val c) = c"
  by (simp add: is_digit_char_def digit_val_def digit_char_def)

lemma digit_char_inject: "d < 10 \<Longrightarrow> e < 10 \<Longrightarrow> digit_char d = digit_char e \<longleftrightarrow> d = e"
  by (metis digit_val_digit_char)

lemma digit_char_less: "d < 10 \<Longrightarrow> e < 10 \<Longrightarrow> digit_char d < digit_char e \<longleftrightarrow> d < e"
  by (simp add: less_char_def)

lemma digit_less_iff:
  "is_digit_char c \<Longrightarrow> is_digit_char c' \<Longrightarrow> c < c' \<longleftrightarrow> digit_val c < digit_val c'"
  by (metis digit_char_digit_val digit_char_less digit_val_less)

text \<open>\<open>fmt_nat\<close> is the verb \<open>%d\<close> on an unsigned value, \<open>fmt_06d\<close> the verb \<open>%06d\<close>.\<close>

fun fmt_nat :: "nat \<Rightarrow> string" where
  "fmt_nat n = (if n < 10 then [digit_char n] else fmt_nat (n div 10) @ [digit_char (n mod 10)])"

declare fmt_nat.simps [simp del]

definition pad_zeros :: "nat \<Rightarrow> string \<Rightarrow> string" where
  "pad_zeros w s = replicate (w - length s) (CHR ''0'') @ s"

definition fmt_06d :: "nat \<Rightarrow> string" where
  "fmt_06d n = pad_zeros 6 (fmt_nat n)"

definition dec_val :: "string \<Rightarrow> nat" where
  "dec_val s = foldl (\<lambda>acc c. 10 * acc + digit_val c) 0 s"

lemma zero_digit [simp]: "is_digit_char (CHR ''0'')" "digit_val (CHR ''0'') = 0"
  by (simp_all add: is_digit_char_def digit_val_def)

lemma dec_val_snoc [simp]: "dec_val (s @ [c]) = 10 * dec_val s + digit_val c"
  by (simp add: dec_val_def)

lemma dec_val_Nil [simp]: "dec_val [] = 0"
  by (simp add: dec_val_def)

lemma dec_val_append: "dec_val (s @ t) = dec_val s * 10 ^ length t + dec_val t"
  by (induction t rule: rev_induct) (simp_all add: append_assoc [symmetric] algebra_simps
    del: append_assoc)

lemma dec_val_Cons: "dec_val (c # s) = digit_val c * 10 ^ length s + dec_val s"
  using dec_val_append [of "[c]" s] by (simp add: dec_val_def)

lemma dec_val_replicate_zero [simp]: "dec_val (replicate k (CHR ''0'')) = 0"
  by (induction k) (simp_all add: dec_val_Cons)

lemma dec_val_pad [simp, go_numeral_simps]: "dec_val (pad_zeros w s) = dec_val s"
  by (simp add: pad_zeros_def dec_val_append)

lemma dec_val_fmt [simp, go_numeral_simps]: "dec_val (fmt_nat n) = n"
proof (induction n rule: fmt_nat.induct)
  case (1 n)
  then show ?case
    by (subst fmt_nat.simps) (auto simp: dec_val_def)
qed

lemma fmt_nat_digits [simp, go_numeral_simps]: "\<forall>c\<in>set (fmt_nat n). is_digit_char c"
proof (induction n rule: fmt_nat.induct)
  case (1 n)
  then show ?case
    by (subst fmt_nat.simps) auto
qed

lemma fmt_nat_nonempty [simp, go_numeral_simps]: "fmt_nat n \<noteq> []"
  by (subst fmt_nat.simps) auto

lemma fmt_nat_inject [simp, go_numeral_simps]: "fmt_nat m = fmt_nat n \<longleftrightarrow> m = n"
  by (metis dec_val_fmt)

lemma length_fmt_nat_bound: "n < 10 ^ k \<Longrightarrow> 0 < k \<Longrightarrow> length (fmt_nat n) \<le> k"
proof (induction k arbitrary: n)
  case (Suc k)
  show ?case
  proof (cases "n < 10")
    case True
    then show ?thesis by (simp add: fmt_nat.simps [of n])
  next
    case False
    then have "0 < k" using Suc.prems by (cases k) auto
    moreover have "n div 10 < 10 ^ k" using Suc.prems by auto
    ultimately have "length (fmt_nat (n div 10)) \<le> k" using Suc.IH by blast
    with False show ?thesis by (simp add: fmt_nat.simps [of n])
  qed
qed simp

lemma dec_val_bound: "\<forall>c\<in>set s. is_digit_char c \<Longrightarrow> dec_val s < 10 ^ length s"
proof (induction s rule: rev_induct)
  case (snoc c s)
  then have "dec_val s < 10 ^ length s" "digit_val c < 10"
    by (auto simp: digit_val_less)
  then show ?case by simp
qed simp

lemma length_fmt_nat_lower:
  assumes "10 ^ k \<le> n"
  shows "k < length (fmt_nat n)"
proof (rule ccontr)
  assume "\<not> k < length (fmt_nat n)"
  then have "(10::nat) ^ length (fmt_nat n) \<le> 10 ^ k" by (intro power_increasing) auto
  moreover have "n < 10 ^ length (fmt_nat n)"
    using dec_val_bound [OF fmt_nat_digits, of n] by simp
  ultimately show False using assms by linarith
qed

lemma pad_zeros_digits [simp]:
  "(\<forall>c\<in>set (pad_zeros w s). is_digit_char c) \<longleftrightarrow> (\<forall>c\<in>set s. is_digit_char c)"
  by (auto simp: pad_zeros_def)

lemma length_pad_zeros [simp]: "length (pad_zeros w s) = max w (length s)"
  by (simp add: pad_zeros_def)

lemma fmt_06d_digits [simp, go_numeral_simps]: "\<forall>c\<in>set (fmt_06d n). is_digit_char c"
  by (simp add: fmt_06d_def)

lemma dec_val_fmt_06d [simp, go_numeral_simps]: "dec_val (fmt_06d n) = n"
  by (simp add: fmt_06d_def)

lemma fmt_06d_inject [simp, go_numeral_simps]: "fmt_06d m = fmt_06d n \<longleftrightarrow> m = n"
  by (metis dec_val_fmt_06d)

lemma length_fmt_06d: "n < 1000000 \<Longrightarrow> length (fmt_06d n) = 6"
  using length_fmt_nat_bound [of n 6] by (simp add: fmt_06d_def)

text \<open>Numerals of equal width compare as text the way their values compare.\<close>

lemma dec_text_order:
  assumes "length s = length t" "\<forall>c\<in>set s. is_digit_char c" "\<forall>c\<in>set t. is_digit_char c"
  shows "s < t \<longleftrightarrow> dec_val s < dec_val t"
  using assms
proof (induction s t rule: list_induct2)
  case Nil
  then show ?case by simp
next
  case (Cons c s d t)
  have s: "dec_val s < 10 ^ length t" and t: "dec_val t < 10 ^ length t"
    using Cons.prems Cons.hyps dec_val_bound [of s] dec_val_bound [of t] by auto
  show ?case
  proof (cases "digit_val c" "digit_val d" rule: linorder_cases)
    case less
    then have "(digit_val c + 1) * 10 ^ length t \<le> digit_val d * 10 ^ length t"
      by (intro mult_le_mono1) simp
    with less Cons s show ?thesis
      by (simp add: dec_val_Cons digit_less_iff)
  next
    case equal
    then have "c = d" using Cons.prems by (metis digit_char_digit_val list.set_intros(1))
    with Cons show ?thesis by (simp add: dec_val_Cons)
  next
    case greater
    then have "(digit_val d + 1) * 10 ^ length t \<le> digit_val c * 10 ^ length t"
      by (intro mult_le_mono1) simp
    moreover have "\<not> c < d" "c \<noteq> d"
      using greater Cons.prems by (auto simp: digit_less_iff)
    ultimately show ?thesis
      using Cons t by (simp add: dec_val_Cons)
  qed
qed

text \<open>
  \<open>strconv.ParseUint(s, 10, 64)\<close> and \<open>strconv.Atoi\<close> on a 64-bit platform: digits only (the
  underscores of Go literals need base 0), an optional sign for \<open>Atoi\<close>, and a range error.
\<close>

definition parse_uint64 :: "string \<Rightarrow> nat option" where
  "parse_uint64 s =
     (if s = [] \<or> \<not> list_all is_digit_char s then None
      else if dec_val s < 2 ^ 64 then Some (dec_val s) else None)"

definition atoi :: "string \<Rightarrow> int option" where
  "atoi s =
     (let neg = (s \<noteq> [] \<and> hd s = CHR ''-'');
          ds = (if s \<noteq> [] \<and> hd s \<in> {CHR ''-'', CHR ''+''} then tl s else s);
          v = int (dec_val ds)
      in if ds = [] \<or> \<not> list_all is_digit_char ds then None
         else if neg then (if v \<le> 2 ^ 63 then Some (- v) else None)
         else (if v < 2 ^ 63 then Some v else None))"

lemma parse_uint64_fmt_nat [simp]: "n < 2 ^ 64 \<Longrightarrow> parse_uint64 (fmt_nat n) = Some n"
  by (simp add: parse_uint64_def list_all_iff)

lemma fmt_nat_leading_digit: "0 < n \<Longrightarrow> hd (fmt_nat n) \<noteq> CHR ''0''"
proof (induction n rule: fmt_nat.induct)
  case (1 n)
  show ?case
  proof (cases "n < 10")
    case True
    then show ?thesis using 1 by (subst fmt_nat.simps) (auto dest: arg_cong [where f = digit_val])
  next
    case False
    then show ?thesis using 1 by (subst fmt_nat.simps) (simp add: hd_append)
  qed
qed

end
