(* ===== verification/Refinement.thy ===== *)
theory Refinement
  imports Prelude
begin

text \<open>
  Sequences of operations on a component's state, and the two contracts the components are proved
  against: a simulation of an abstract state machine (same outputs, states kept related) and an
  inductive invariant. An operation may carry a precondition on the state it is issued in, for
  example that the clock does not go back.
\<close>

fun run :: "('op \<Rightarrow> 's \<Rightarrow> 'o \<times> 's) \<Rightarrow> 'op list \<Rightarrow> 's \<Rightarrow> 'o list \<times> 's" where
  "run step [] s = ([], s)"
| "run step (e # es) s =
     (case step e s of (out, s1) \<Rightarrow> case run step es s1 of (outs, s2) \<Rightarrow> (out # outs, s2))"

lemma run_Cons [simp]:
  "run step (e # es) s =
     (fst (step e s) # fst (run step es (snd (step e s))), snd (run step es (snd (step e s))))"
  by (simp split: prod.split)

declare run.simps(2) [simp del]

fun enabled :: "('op \<Rightarrow> 's \<Rightarrow> bool) \<Rightarrow> ('op \<Rightarrow> 's \<Rightarrow> 'o \<times> 's) \<Rightarrow> 'op list \<Rightarrow> 's \<Rightarrow> bool" where
  "enabled pre step [] s \<longleftrightarrow> True"
| "enabled pre step (e # es) s \<longleftrightarrow> pre e s \<and> enabled pre step es (snd (step e s))"

lemma run_length [simp]: "length (fst (run step es s)) = length es"
  by (induction es arbitrary: s) auto

lemma run_append:
  "run step (es @ fs) s =
     (fst (run step es s) @ fst (run step fs (snd (run step es s))), snd (run step fs (snd (run step es s))))"
  by (induction es arbitrary: s) auto

lemma enabled_append:
  "enabled pre step (es @ fs) s \<longleftrightarrow>
     enabled pre step es s \<and> enabled pre step fs (snd (run step es s))"
  by (induction es arbitrary: s) auto

lemma enabled_True [simp]: "enabled (\<lambda>_ _. True) step es s"
  by (induction es arbitrary: s) auto

locale simulation =
  fixes cstep :: "'op \<Rightarrow> 'c \<Rightarrow> 'o \<times> 'c"
    and astep :: "'op \<Rightarrow> 'a \<Rightarrow> 'o \<times> 'a"
    and rel :: "'c \<Rightarrow> 'a \<Rightarrow> bool"
    and pre :: "'op \<Rightarrow> 'a \<Rightarrow> bool"
  assumes step_out: "rel c a \<Longrightarrow> pre e a \<Longrightarrow> fst (cstep e c) = fst (astep e a)"
    and step_rel: "rel c a \<Longrightarrow> pre e a \<Longrightarrow> rel (snd (cstep e c)) (snd (astep e a))"
begin

lemma run_rel:
  "rel c a \<Longrightarrow> enabled pre astep es a \<Longrightarrow> rel (snd (run cstep es c)) (snd (run astep es a))"
  by (induction es arbitrary: c a) (auto simp: step_rel)

lemma run_out:
  "rel c a \<Longrightarrow> enabled pre astep es a \<Longrightarrow> fst (run cstep es c) = fst (run astep es a)"
  by (induction es arbitrary: c a) (auto simp: step_out step_rel)

end

locale step_invariant =
  fixes step :: "'op \<Rightarrow> 's \<Rightarrow> 'o \<times> 's"
    and inv :: "'s \<Rightarrow> bool"
    and pre :: "'op \<Rightarrow> 's \<Rightarrow> bool"
  assumes step_inv: "inv s \<Longrightarrow> pre e s \<Longrightarrow> inv (snd (step e s))"
begin

lemma run_inv: "inv s \<Longrightarrow> enabled pre step es s \<Longrightarrow> inv (snd (run step es s))"
  by (induction es arbitrary: s) (auto simp: step_inv)

end

text \<open>
  Refinement of a partial step function: a concrete step that happens is either the abstract event
  that the mediator names for it, or changes nothing of the abstract state. \<open>attempt\<close> runs a list of
  steps and stops at the first that is not possible.
\<close>

fun attempt :: "('op \<Rightarrow> 's \<Rightarrow> 's option) \<Rightarrow> 'op list \<Rightarrow> 's \<Rightarrow> 's option" where
  "attempt step [] s = Some s"
| "attempt step (e # es) s = Option.bind (step e s) (attempt step es)"

lemma attempt_append:
  "attempt step (es @ fs) s = Option.bind (attempt step es s) (attempt step fs)"
  by (induction es arbitrary: s) (auto simp: bind_eq_Some_conv split: bind_splits)

fun mediate :: "('op \<Rightarrow> 's \<Rightarrow> 's option) \<Rightarrow> ('op \<Rightarrow> 's \<Rightarrow> 'e option) \<Rightarrow> 'op list \<Rightarrow> 's \<Rightarrow> 'e list" where
  "mediate step med [] s = []"
| "mediate step med (e # es) s =
     (case med e s of None \<Rightarrow> [] | Some a \<Rightarrow> [a]) @
     (case step e s of None \<Rightarrow> [] | Some s' \<Rightarrow> mediate step med es s')"

locale partial_invariant =
  fixes step :: "'op \<Rightarrow> 's \<Rightarrow> 's option"
    and inv :: "'s \<Rightarrow> bool"
  assumes keeps: "inv s \<Longrightarrow> step e s = Some s' \<Longrightarrow> inv s'"
begin

lemma attempt_inv: "inv s \<Longrightarrow> attempt step es s = Some s' \<Longrightarrow> inv s'"
  by (induction es arbitrary: s) (auto simp: bind_eq_Some_conv intro: keeps)

end

locale forward_simulation = partial_invariant cstep inv
  for cstep :: "'op \<Rightarrow> 'c \<Rightarrow> 'c option" and inv :: "'c \<Rightarrow> bool" +
  fixes astep :: "'e \<Rightarrow> 'a \<Rightarrow> 'a option"
    and lift :: "'c \<Rightarrow> 'a"
    and med :: "'op \<Rightarrow> 'c \<Rightarrow> 'e option"
  assumes sim: "inv c \<Longrightarrow> cstep e c = Some c' \<Longrightarrow>
    (case med e c of None \<Rightarrow> lift c' = lift c | Some a \<Rightarrow> astep a (lift c) = Some (lift c'))"
begin

lemma attempt_sim:
  "inv c \<Longrightarrow> attempt cstep es c = Some c' \<Longrightarrow>
     attempt astep (mediate cstep med es c) (lift c) = Some (lift c')"
proof (induction es arbitrary: c)
  case (Cons e es)
  then obtain c1 where c1: "cstep e c = Some c1" "attempt cstep es c1 = Some c'"
    by (auto simp: bind_eq_Some_conv)
  have "attempt astep (mediate cstep med es c1) (lift c1) = Some (lift c')"
    by (rule Cons.IH [OF keeps [OF Cons.prems(1) c1(1)] c1(2)])
  then show ?case
    using sim [OF Cons.prems(1) c1(1)] c1(1) by (auto split: option.splits)
qed simp

end

end
