(* ===== verification/Go_Strings.thy ===== *)
theory Go_Strings
  imports Prelude
begin

text \<open>
  The functions of Go's package \<open>strings\<close> that the server calls, on byte strings: prefixes and
  suffixes, splitting at a one-byte separator, joining, trimming, \<open>Fields\<close>. White space is
  Unicode's \<open>White_Space\<close> property, read in the UTF-8 encoding: a first byte of a multi-byte
  encoding never occurs inside another encoding, so scanning for the encodings byte by byte is
  what decoding rune by rune gives.
\<close>

section \<open>Prefixes, suffixes, substrings\<close>

definition has_prefix :: "string \<Rightarrow> string \<Rightarrow> bool" where
  "has_prefix s p \<longleftrightarrow> take (length p) s = p"

definition has_suffix :: "string \<Rightarrow> string \<Rightarrow> bool" where
  "has_suffix s p \<longleftrightarrow> has_prefix (rev s) (rev p)"

definition trim_prefix :: "string \<Rightarrow> string \<Rightarrow> string" where
  "trim_prefix s p = (if has_prefix s p then drop (length p) s else s)"

definition trim_suffix :: "string \<Rightarrow> string \<Rightarrow> string" where
  "trim_suffix s p = (if has_suffix s p then take (length s - length p) s else s)"

fun contains_sub :: "string \<Rightarrow> string \<Rightarrow> bool" where
  "contains_sub [] p = (p = [])"
| "contains_sub (c # s) p = (has_prefix (c # s) p \<or> contains_sub s p)"

lemma has_prefix_iff [go_string_simps]: "has_prefix s p \<longleftrightarrow> (\<exists>t. s = p @ t)"
  by (metis append_eq_conv_conj append_take_drop_id has_prefix_def)

lemma has_prefix_append [simp]: "has_prefix (p @ t) p"
  by (simp add: has_prefix_def)

lemma has_prefix_Cons [simp]: "has_prefix (c # s) (d # p) \<longleftrightarrow> c = d \<and> has_prefix s p"
  by (auto simp: has_prefix_def)

lemma has_prefix_Nil [simp]: "has_prefix s []" "has_prefix [] p \<longleftrightarrow> p = []"
  by (auto simp: has_prefix_def)

lemma trim_prefix_append [simp]: "trim_prefix (p @ t) p = t"
  by (simp add: trim_prefix_def)

lemma has_suffix_iff [go_string_simps]: "has_suffix s p \<longleftrightarrow> (\<exists>t. s = t @ p)"
  unfolding has_suffix_def has_prefix_iff
  by (metis rev_append rev_rev_ident)

lemma trim_suffix_append [simp]: "trim_suffix (t @ p) p = t"
  by (auto simp: trim_suffix_def has_suffix_iff)

lemma contains_sub_iff: "contains_sub s p \<longleftrightarrow> (\<exists>u v. s = u @ p @ v)"
proof (induction s)
  case (Cons c s)
  have "(\<exists>u v. c # s = u @ p @ v) \<longleftrightarrow> (\<exists>v. c # s = p @ v) \<or> (\<exists>u v. s = u @ p @ v)"
    by (metis Cons_eq_append_conv append_Cons append_Nil)
  then show ?case using Cons by (simp add: has_prefix_iff)
qed auto

lemma contains_sub_char [simp]: "contains_sub s [c] \<longleftrightarrow> c \<in> set s"
  by (induction s) auto

section \<open>Split and Join\<close>

text \<open>\<open>strings.Split(s, c)\<close>: never an empty slice for a non-empty separator.\<close>

fun split_on :: "char \<Rightarrow> string \<Rightarrow> string list" where
  "split_on c [] = [[]]"
| "split_on c (x # xs) =
     (if x = c then [] # split_on c xs
      else (case split_on c xs of [] \<Rightarrow> [[x]] | p # ps \<Rightarrow> (x # p) # ps))"

text \<open>\<open>strings.SplitN(s, c, n)\<close> for \<open>n > 0\<close>: at most \<open>n\<close> parts, the last one unsplit.\<close>

fun split_n :: "char \<Rightarrow> nat \<Rightarrow> string \<Rightarrow> string list" where
  "split_n c 0 s = []"
| "split_n c (Suc 0) s = [s]"
| "split_n c (Suc (Suc n)) s =
     (if c \<in> set s
      then takeWhile (\<lambda>x. x \<noteq> c) s # split_n c (Suc n) (tl (dropWhile (\<lambda>x. x \<noteq> c) s))
      else [s])"

fun join :: "string \<Rightarrow> string list \<Rightarrow> string" where
  "join sep [] = []"
| "join sep [p] = p"
| "join sep (p # q # ps) = p @ sep @ join sep (q # ps)"

lemma split_on_nonempty [simp]: "split_on c s \<noteq> []"
  by (induction s) (auto split: list.splits)

lemma split_on_no_sep: "p \<in> set (split_on c s) \<Longrightarrow> c \<notin> set p"
  by (induction s arbitrary: p) (auto split: if_splits list.splits)

lemma split_on_chars: "p \<in> set (split_on c s) \<Longrightarrow> x \<in> set p \<Longrightarrow> x \<in> set s"
  by (induction s arbitrary: p) (fastforce split: if_splits list.splits)+

lemma split_on_id: "c \<notin> set s \<Longrightarrow> split_on c s = [s]"
  by (induction s) auto

lemma join_split_on [simp, go_string_simps]: "join [c] (split_on c s) = s"
proof (induction s)
  case (Cons x s)
  obtain p ps where "split_on c s = p # ps"
    using split_on_nonempty by (meson list.exhaust)
  with Cons show ?case
    by (cases ps) auto
qed simp

lemma split_on_append: "c \<notin> set p \<Longrightarrow> split_on c (p @ c # s) = p # split_on c s"
  by (induction p) auto

lemma split_on_join:
  "ps \<noteq> [] \<Longrightarrow> \<forall>p\<in>set ps. c \<notin> set p \<Longrightarrow> split_on c (join [c] ps) = ps"
  by (induction "[c]" ps rule: join.induct) (auto simp: split_on_append split_on_id)

lemma join_split_n: "0 < n \<Longrightarrow> join [c] (split_n c n s) = s"
proof (induction c n s rule: split_n.induct)
  case (3 c n s)
  show ?case
  proof (cases "c \<in> set s")
    case True
    then obtain u v where s: "s = u @ c # v" and u: "c \<notin> set u"
      by (meson split_list_first)
    have tw: "takeWhile (\<lambda>x. x \<noteq> c) s = u" "dropWhile (\<lambda>x. x \<noteq> c) s = c # v"
      unfolding s using u by (subst takeWhile_append2 dropWhile_append2; auto)+
    have IH: "join [c] (split_n c (Suc n) v) = v" using 3 True tw by simp
    obtain q qs where "split_n c (Suc n) v = q # qs"
      by (cases n; cases "c \<in> set v") auto
    with IH tw True s show ?thesis by simp
  qed simp
qed auto

section \<open>Trimming\<close>

definition space_runes :: "string list" where
  "space_runes =
     map (\<lambda>b. [char_of (b :: nat)]) [9, 10, 11, 12, 13, 32] @
     map (map (\<lambda>b. char_of (b :: nat)))
       [[0xC2, 0x85], [0xC2, 0xA0], [0xE1, 0x9A, 0x80],
        [0xE2, 0x80, 0x80], [0xE2, 0x80, 0x81], [0xE2, 0x80, 0x82], [0xE2, 0x80, 0x83],
        [0xE2, 0x80, 0x84], [0xE2, 0x80, 0x85], [0xE2, 0x80, 0x86], [0xE2, 0x80, 0x87],
        [0xE2, 0x80, 0x88], [0xE2, 0x80, 0x89], [0xE2, 0x80, 0x8A], [0xE2, 0x80, 0xA8],
        [0xE2, 0x80, 0xA9], [0xE2, 0x80, 0xAF], [0xE2, 0x81, 0x9F], [0xE3, 0x80, 0x80]]"

text \<open>Strip any of the given non-empty tokens from the front, as long as one is there.\<close>

function strip_front :: "string list \<Rightarrow> string \<Rightarrow> string" where
  "strip_front ps s =
     (case find (\<lambda>p. p \<noteq> [] \<and> has_prefix s p) ps of
        None \<Rightarrow> s
      | Some p \<Rightarrow> strip_front ps (drop (length p) s))"
  by pat_completeness auto
termination
proof (relation "measure (\<lambda>(ps, s). length s)")
  fix ps :: "string list" and s p :: string
  assume "find (\<lambda>p. p \<noteq> [] \<and> has_prefix s p) ps = Some p"
  then have "p \<noteq> []" "has_prefix s p" by (auto simp: find_Some_iff)
  then show "((ps, drop (length p) s), (ps, s)) \<in> measure (\<lambda>(ps, s). length s)"
    by (auto simp: has_prefix_iff)
qed simp

declare strip_front.simps [simp del]

definition trim_space :: "string \<Rightarrow> string" where
  "trim_space s = rev (strip_front (map rev space_runes) (rev (strip_front space_runes s)))"

definition trim_left :: "string \<Rightarrow> string \<Rightarrow> string" where
  "trim_left s cutset = dropWhile (\<lambda>c. c \<in> set cutset) s"

definition trim_cut :: "string \<Rightarrow> string \<Rightarrow> string" where
  "trim_cut s cutset = rev (trim_left (rev (trim_left s cutset)) cutset)"

lemma strip_front_suffix: "\<exists>u. s = u @ strip_front ps s"
proof (induction ps s rule: strip_front.induct)
  case (1 ps s)
  show ?case
  proof (cases "find (\<lambda>p. p \<noteq> [] \<and> has_prefix s p) ps")
    case None
    then show ?thesis by (simp add: strip_front.simps [of ps s])
  next
    case (Some p)
    then have "has_prefix s p" by (auto simp: find_Some_iff)
    then have "s = p @ drop (length p) s" by (auto simp: has_prefix_iff)
    moreover obtain u where "drop (length p) s = u @ strip_front ps (drop (length p) s)"
      using "1.IH" [OF Some] by blast
    ultimately have "s = (p @ u) @ strip_front ps s"
      using Some by (simp add: strip_front.simps [of ps s])
    then show ?thesis by blast
  qed
qed

lemma strip_front_done: "p \<in> set ps \<Longrightarrow> p \<noteq> [] \<Longrightarrow> \<not> has_prefix (strip_front ps s) p"
proof (induction ps s rule: strip_front.induct)
  case (1 ps s)
  show ?case
  proof (cases "find (\<lambda>p. p \<noteq> [] \<and> has_prefix s p) ps")
    case None
    moreover from this have "strip_front ps s = s" by (subst strip_front.simps) simp
    ultimately show ?thesis using "1.prems" by (auto simp: find_None_iff)
  next
    case (Some q)
    then show ?thesis using "1.IH" [OF Some] "1.prems"
      by (simp add: strip_front.simps [of ps s])
  qed
qed

lemma strip_front_id:
  "(\<And>p. p \<in> set ps \<Longrightarrow> p \<noteq> [] \<Longrightarrow> \<not> has_prefix s p) \<Longrightarrow> strip_front ps s = s"
  by (subst strip_front.simps) (auto split: option.splits simp: find_Some_iff)

text \<open>What \<open>TrimSpace\<close> returns is an inner segment of its argument.\<close>

lemma trim_space_segment: "\<exists>u v. s = u @ trim_space s @ v"
proof -
  obtain u where u: "s = u @ strip_front space_runes s" using strip_front_suffix by blast
  obtain v where v: "rev (strip_front space_runes s) =
      v @ strip_front (map rev space_runes) (rev (strip_front space_runes s))"
    using strip_front_suffix by blast
  have "strip_front space_runes s = trim_space s @ rev v"
    unfolding trim_space_def by (metis rev_append rev_rev_ident v)
  with u show ?thesis by metis
qed

lemma set_trim_space: "set (trim_space s) \<subseteq> set s"
  using trim_space_segment [of s] by (metis Un_iff set_append subsetI)

lemma space_runes_nonempty: "p \<in> set space_runes \<Longrightarrow> p \<noteq> []"
  by (auto simp: space_runes_def)

lemma trim_space_no_trailing: "p \<in> set space_runes \<Longrightarrow> \<not> has_suffix (trim_space s) p"
  unfolding trim_space_def has_suffix_def rev_rev_ident
  by (rule strip_front_done) (auto dest: space_runes_nonempty)

lemma trim_space_no_leading:
  assumes p: "p \<in> set space_runes"
  shows "\<not> has_prefix (trim_space s) p"
proof
  assume "has_prefix (trim_space s) p"
  moreover obtain v where "strip_front space_runes s = trim_space s @ v"
    unfolding trim_space_def
    by (metis strip_front_suffix rev_append rev_rev_ident)
  ultimately have "has_prefix (strip_front space_runes s) p"
    by (auto simp: has_prefix_iff)
  with p show False
    using strip_front_done space_runes_nonempty by blast
qed

lemma trim_space_idem [simp, go_string_simps]: "trim_space (trim_space s) = trim_space s"
proof -
  have "strip_front space_runes (trim_space s) = trim_space s"
    by (intro strip_front_id) (simp add: trim_space_no_leading)
  moreover have "strip_front (map rev space_runes) (rev (trim_space s)) = rev (trim_space s)"
    by (intro strip_front_id) (use trim_space_no_trailing in \<open>auto simp: has_suffix_def\<close>)
  ultimately show ?thesis
    by (subst trim_space_def) simp
qed

lemma trim_space_Nil [simp]: "trim_space [] = []"
  using trim_space_segment [of "[]"] by simp

lemma trim_space_id:
  assumes "\<And>p. p \<in> set space_runes \<Longrightarrow> \<not> has_prefix s p \<and> \<not> has_suffix s p"
  shows "trim_space s = s"
  unfolding trim_space_def
  using assms by (subst strip_front_id; (subst strip_front_id)?) (auto simp: has_suffix_def)

text \<open>A text without space at its ends, and how such texts compose.\<close>

definition trimmed :: "string \<Rightarrow> bool" where
  "trimmed s \<longleftrightarrow> (\<forall>p\<in>set space_runes. \<not> has_prefix s p \<and> \<not> has_suffix s p)"

lemma trimmed_iff: "trimmed s \<longleftrightarrow> trim_space s = s"
  using trim_space_id [of s] trim_space_no_leading [of _ s] trim_space_no_trailing [of _ s]
  by (auto simp: trimmed_def)

lemma trimmed_trim_space [simp]: "trimmed (trim_space s)"
  by (simp add: trimmed_iff)

lemma has_prefix_before: "has_prefix (a @ c # b) p \<Longrightarrow> c \<notin> set p \<Longrightarrow> has_prefix a p"
proof (induction p arbitrary: a)
  case (Cons x p)
  then show ?case by (cases a) auto
qed simp

lemma has_suffix_after: "has_suffix (b @ c # a) p \<Longrightarrow> c \<notin> set p \<Longrightarrow> has_suffix a p"
  using has_prefix_before [of "rev a" c "rev b" "rev p"] by (simp add: has_suffix_def)

lemma trimmed_between:
  assumes "trimmed a" "trimmed b" "\<forall>p\<in>set space_runes. c \<notin> set p"
  shows "trimmed (a @ c # b)"
  unfolding trimmed_def
  using assms has_prefix_before has_suffix_after by (metis trimmed_def)

lemma trimmed_between3:
  "trimmed a \<Longrightarrow> trimmed b \<Longrightarrow> \<forall>p\<in>set space_runes. c \<notin> set p \<Longrightarrow> trimmed (a @ c # m @ c # b)"
  unfolding trimmed_def
  using has_prefix_before [of a c "m @ c # b"] has_suffix_after [of "a @ c # m" c b]
  by (metis append.assoc append_Cons)

lemma trimmed_join:
  "ps \<noteq> [] \<Longrightarrow> \<forall>p\<in>set ps. trimmed p \<Longrightarrow> \<forall>p\<in>set space_runes. c \<notin> set p \<Longrightarrow> trimmed (join [c] ps)"
  by (induction "[c]" ps rule: join.induct) (auto intro: trimmed_between)

lemma separators_not_space:
  "\<forall>p\<in>set space_runes. CHR '':'' \<notin> set p" "\<forall>p\<in>set space_runes. CHR '';'' \<notin> set p"
  "\<forall>p\<in>set space_runes. CHR '','' \<notin> set p" "\<forall>p\<in>set space_runes. CHR ''/'' \<notin> set p"
  by code_simp+

lemma while_before:
  "c \<notin> set a \<Longrightarrow> takeWhile (\<lambda>x. x \<noteq> c) (a @ c # b) = a"
  "c \<notin> set a \<Longrightarrow> dropWhile (\<lambda>x. x \<noteq> c) (a @ c # b) = c # b"
  by (induction a) auto

lemma split_n_first: "c \<notin> set a \<Longrightarrow> split_n c (Suc (Suc n)) (a @ c # b) = a # split_n c (Suc n) b"
  by (simp add: while_before)

text \<open>\<open>strings.Fields\<close>: the maximal runs of non-space text.\<close>

function fields_from :: "string \<Rightarrow> string \<Rightarrow> string list" where
  "fields_from cur s =
     (case s of
        [] \<Rightarrow> (if cur = [] then [] else [rev cur])
      | c # cs \<Rightarrow>
          (case find (\<lambda>p. p \<noteq> [] \<and> has_prefix s p) space_runes of
             None \<Rightarrow> fields_from (c # cur) cs
           | Some p \<Rightarrow>
               (if cur = [] then fields_from [] (drop (length p) s)
                else rev cur # fields_from [] (drop (length p) s))))"
  by pat_completeness auto
termination
  by (relation "measure (\<lambda>(cur, s). length s)"; clarsimp simp: find_Some_iff)

declare fields_from.simps [simp del]

definition fields :: "string \<Rightarrow> string list" where
  "fields s = fields_from [] s"

lemma fields_from_nonempty: "f \<in> set (fields_from cur s) \<Longrightarrow> f \<noteq> []"
proof (induction cur s rule: fields_from.induct)
  case (1 cur s)
  then show ?case
    by (subst (asm) (2) fields_from.simps)
      (auto split: list.splits if_splits option.splits)
qed

lemma fields_nonempty: "f \<in> set (fields s) \<Longrightarrow> f \<noteq> []"
  unfolding fields_def by (rule fields_from_nonempty)

text \<open>\<open>strings.ToLower\<close> on the ASCII letters.\<close>

definition lower_char :: "char \<Rightarrow> char" where
  "lower_char c =
     (let n = (of_char c :: nat) in if 65 \<le> n \<and> n \<le> 90 then char_of (n + 32) else c)"

definition to_lower :: "string \<Rightarrow> string" where
  "to_lower s = map lower_char s"

end
