(* ===== verification/Filepath.thy ===== *)
theory Filepath
  imports Go_Strings
begin

text \<open>
  Package \<open>path/filepath\<close> on Unix, as far as the server uses it: \<open>Clean\<close>, \<open>Join\<close>, \<open>Dir\<close>, \<open>Base\<close>,
  \<open>IsAbs\<close> and \<open>Abs\<close> (for a given current directory), all lexical. \<open>Clean\<close> works on the stack of
  components written so far, the last one first.
\<close>

section \<open>Functions\<close>

definition clean_push :: "bool \<Rightarrow> string \<Rightarrow> string list \<Rightarrow> string list" where
  "clean_push rooted c st =
     (if c = [] \<or> c = ''.'' then st
      else if c = ''..'' then
        (case st of
           [] \<Rightarrow> if rooted then [] else [''..'']
         | t # ts \<Rightarrow> if t = ''..'' then ''..'' # st else ts)
      else c # st)"

definition clean_stack :: "bool \<Rightarrow> string list \<Rightarrow> string list \<Rightarrow> string list" where
  "clean_stack rooted cs st = fold (clean_push rooted) cs st"

definition is_abs :: "string \<Rightarrow> bool" where
  "is_abs p \<longleftrightarrow> has_prefix p ''/''"

definition clean_path :: "string \<Rightarrow> string" where
  "clean_path p =
     (let cs = rev (clean_stack (is_abs p) (split_on (CHR ''/'') p) []) in
        if is_abs p then CHR ''/'' # join ''/'' cs
        else if cs = [] then ''.''
        else join ''/'' cs)"

fun join_path :: "string list \<Rightarrow> string" where
  "join_path [] = []"
| "join_path (e # es) = (if e = [] then join_path es else clean_path (join ''/'' (e # es)))"

definition abs_path :: "string \<Rightarrow> string \<Rightarrow> string" where
  "abs_path cwd p = (if is_abs p then clean_path p else join_path [cwd, p])"

definition dir_path :: "string \<Rightarrow> string" where
  "dir_path p = clean_path (rev (dropWhile (\<lambda>c. c \<noteq> CHR ''/'') (rev p)))"

definition base_path :: "string \<Rightarrow> string" where
  "base_path p =
     (if p = [] then ''.''
      else
        (let q = rev (dropWhile (\<lambda>c. c = CHR ''/'') (rev p)) in
           if q = [] then ''/'' else rev (takeWhile (\<lambda>c. c \<noteq> CHR ''/'') (rev q))))"

section \<open>Normal components and absolute paths\<close>

definition normal_comp :: "string \<Rightarrow> bool" where
  "normal_comp c \<longleftrightarrow> c \<noteq> [] \<and> c \<noteq> ''.'' \<and> c \<noteq> ''..'' \<and> CHR ''/'' \<notin> set c"

definition root_path :: "string list \<Rightarrow> string" where
  "root_path cs = CHR ''/'' # join ''/'' cs"

text \<open>\<open>inside root p\<close>: the path is the directory \<open>root\<close> or lies below it.\<close>

definition inside :: "string \<Rightarrow> string \<Rightarrow> bool" where
  "inside root p \<longleftrightarrow> p = root \<or> has_prefix p (root @ ''/'')"

lemma clean_stack_simps [simp]:
  "clean_stack rooted [] st = st"
  "clean_stack rooted (c # cs) st = clean_stack rooted cs (clean_push rooted c st)"
  by (simp_all add: clean_stack_def)

lemma clean_stack_append: "clean_stack rooted (as @ bs) st = clean_stack rooted bs (clean_stack rooted as st)"
  by (simp add: clean_stack_def)

lemma normal_push [simp]: "normal_comp c \<Longrightarrow> clean_push rooted c st = c # st"
  by (simp add: clean_push_def normal_comp_def)

lemma push_dotdot [simp]: "normal_comp c \<Longrightarrow> clean_push rooted ''..'' (c # st) = st"
  by (simp add: clean_push_def normal_comp_def)

lemma clean_stack_normal: "list_all normal_comp cs \<Longrightarrow> clean_stack rooted cs st = rev cs @ st"
  by (induction cs arbitrary: st) auto

lemma clean_push_rooted:
  assumes "list_all normal_comp st" "CHR ''/'' \<notin> set c"
  shows "list_all normal_comp (clean_push True c st)"
  using assms by (cases st) (auto simp: clean_push_def normal_comp_def)

lemma clean_stack_rooted:
  "list_all normal_comp st \<Longrightarrow> list_all (\<lambda>c. CHR ''/'' \<notin> set c) cs \<Longrightarrow>
   list_all normal_comp (clean_stack True cs st)"
  by (induction cs arbitrary: st) (auto simp: clean_push_rooted)

lemma split_on_concat:
  "es \<noteq> [] \<Longrightarrow> split_on c (join [c] es) = concat (map (split_on c) es)"
proof (induction "[c]" es rule: join.induct)
  case (3 p q ps)
  have "split_on c (p @ c # s) = split_on c p @ split_on c s" for s
    by (induction p) (auto split: list.splits)
  with 3 show ?case by simp
qed auto

lemma is_abs_iff: "is_abs p \<longleftrightarrow> (\<exists>q. p = CHR ''/'' # q)"
  by (auto simp: is_abs_def has_prefix_iff)

lemma is_abs_root_path [simp]: "is_abs (root_path cs)"
  by (simp add: is_abs_iff root_path_def)

lemma clean_abs:
  "is_abs p \<Longrightarrow> clean_path p = root_path (rev (clean_stack True (split_on (CHR ''/'') p) []))"
  by (simp add: clean_path_def root_path_def)

lemma split_components: "list_all (\<lambda>c. CHR ''/'' \<notin> set c) (split_on (CHR ''/'') p)"
  by (auto simp: list_all_iff dest: split_on_no_sep)

lemma clean_abs_normal:
  assumes "is_abs p"
  obtains cs where "clean_path p = root_path cs" "list_all normal_comp cs"
  using clean_stack_rooted [OF _ split_components, of "[]" p] assms
  by (simp add: clean_abs that list_all_rev)

lemma split_root_path:
  assumes "list_all normal_comp cs"
  shows "clean_stack rooted (split_on (CHR ''/'') (root_path cs)) st = rev cs @ st"
proof (cases "cs = []")
  case True
  then show ?thesis by (simp add: root_path_def clean_push_def)
next
  case False
  then have "split_on (CHR ''/'') (join ''/'' cs) = cs"
    using assms by (intro split_on_join) (auto simp: normal_comp_def list_all_iff)
  then show ?thesis
    using assms by (simp add: root_path_def clean_push_def clean_stack_normal)
qed

lemma clean_root_path [simp]: "list_all normal_comp cs \<Longrightarrow> clean_path (root_path cs) = root_path cs"
  by (simp add: clean_abs split_root_path)

lemma clean_path_abs_idem: "is_abs p \<Longrightarrow> clean_path (clean_path p) = clean_path p"
  by (metis clean_abs_normal clean_root_path)

lemma is_abs_join: "is_abs e \<Longrightarrow> is_abs (join ''/'' (e # es))"
  by (cases es) (auto simp: is_abs_iff)

lemma join_path_root:
  assumes "list_all normal_comp cs"
  shows "join_path (root_path cs # es) =
    root_path (rev (clean_stack True (concat (map (split_on (CHR ''/'')) es)) (rev cs)))"
proof -
  have "join_path (root_path cs # es) = clean_path (join ''/'' (root_path cs # es))"
    by (simp add: root_path_def)
  then show ?thesis
    using assms
    by (simp add: clean_abs is_abs_join split_on_concat clean_stack_append split_root_path del: join.simps)
qed

lemma split_normal [simp]: "normal_comp c \<Longrightarrow> split_on (CHR ''/'') c = [c]"
  by (simp add: split_on_id normal_comp_def)

lemma join_path_normal:
  assumes "list_all normal_comp cs" "list_all normal_comp es"
  shows "join_path (root_path cs # es) = root_path (cs @ es)"
proof -
  have "concat (map (split_on (CHR ''/'')) es) = es"
    using assms(2) by (induction es) auto
  then show ?thesis
    using assms by (simp add: join_path_root clean_stack_normal del: join_path.simps)
qed

lemma root_path_inject:
  assumes "list_all normal_comp cs" "list_all normal_comp ds"
  shows "root_path cs = root_path ds \<longleftrightarrow> cs = ds"
  using split_root_path [OF assms(1), of True "[]"] split_root_path [OF assms(2), of True "[]"]
  by (metis append_Nil2 rev_rev_ident)

lemma inside_root_path:
  assumes "cs \<noteq> []"
  shows "inside (root_path cs) (root_path (cs @ es))"
proof (cases "es = []")
  case False
  have "join ''/'' (cs @ es) = join ''/'' cs @ ''/'' @ join ''/'' es"
    using assms False
  proof (induction cs rule: induct_list012)
    case (2 x)
    then show ?case by (cases es) auto
  next
    case (3 x y zs)
    then show ?case by simp
  qed simp
  then show ?thesis by (auto simp: inside_def root_path_def has_prefix_iff)
qed (simp add: inside_def)

lemma abs_path_abs: "is_abs p \<Longrightarrow> abs_path cwd p = clean_path p"
  by (simp add: abs_path_def)

section \<open>Relative paths\<close>

definition rel_stack :: "string list \<Rightarrow> bool" where
  "rel_stack st \<longleftrightarrow> list_all (\<lambda>c. normal_comp c \<or> c = ''..'') st"

lemma rel_stack_push:
  "rel_stack st \<Longrightarrow> CHR ''/'' \<notin> set c \<Longrightarrow> rel_stack (clean_push False c st)"
  by (cases st) (auto simp: rel_stack_def clean_push_def normal_comp_def)

lemma rel_stack_clean:
  "rel_stack st \<Longrightarrow> list_all (\<lambda>c. CHR ''/'' \<notin> set c) cs \<Longrightarrow> rel_stack (clean_stack False cs st)"
  by (induction cs arbitrary: st) (auto simp: rel_stack_push)

lemma replay_push:
  assumes "rel_stack st" "CHR ''/'' \<notin> set c"
  shows "clean_stack True (rev (clean_push False c st)) out = clean_stack True (rev st @ [c]) out"
proof -
  consider "c = [] \<or> c = ''.''" | "normal_comp c" | "c = ''..''"
    using assms(2) by (auto simp: normal_comp_def)
  then show ?thesis
  proof cases
    case 1
    then show ?thesis by (auto simp: clean_push_def clean_stack_append)
  next
    case 2
    then show ?thesis by simp
  next
    case 3
    show ?thesis
    proof (cases st)
      case (Cons t ts)
      show ?thesis
      proof (cases "t = ''..''")
        case False
        with assms(1) Cons have "normal_comp t" by (simp add: rel_stack_def)
        with 3 Cons False show ?thesis by (simp add: clean_stack_append)
      qed (simp add: 3 Cons clean_push_def)
    qed (simp add: 3 clean_push_def)
  qed
qed

lemma replay_stack:
  "rel_stack st \<Longrightarrow> list_all (\<lambda>c. CHR ''/'' \<notin> set c) cs \<Longrightarrow>
   clean_stack True (rev (clean_stack False cs st)) out = clean_stack True (rev st @ cs) out"
proof (induction cs arbitrary: st)
  case (Cons c cs)
  then have "clean_stack True (rev (clean_stack False (c # cs) st)) out =
      clean_stack True (rev (clean_push False c st) @ cs) out"
    by (simp add: rel_stack_push)
  also have "\<dots> = clean_stack True (rev st @ c # cs) out"
    using replay_push [of st c out] Cons.prems by (simp add: clean_stack_append)
  finally show ?case .
qed simp

text \<open>Cleaning a relative path first does not change where it leads.\<close>

lemma clean_path_rel:
  assumes "\<not> is_abs p"
  shows "\<exists>cs. clean_path p = (if cs = [] then ''.'' else join ''/'' cs) \<and> rel_stack cs \<and>
    clean_stack True cs out = clean_stack True (split_on (CHR ''/'') p) out"
proof -
  define st where "st = clean_stack False (split_on (CHR ''/'') p) []"
  have "rel_stack st"
    unfolding st_def by (rule rel_stack_clean) (simp_all add: rel_stack_def split_components)
  then have "rel_stack (rev st)" by (simp add: rel_stack_def list_all_rev)
  moreover have "clean_stack True (rev st) out = clean_stack True (split_on (CHR ''/'') p) out"
    using replay_stack [of "[]" "split_on (CHR ''/'') p" out] split_components
    by (simp add: rel_stack_def st_def)
  moreover have "clean_path p = (if rev st = [] then ''.'' else join ''/'' (rev st))"
    using assms unfolding clean_path_def st_def Let_def by simp
  ultimately show ?thesis by (intro exI [of _ "rev st"] conjI)
qed

lemma rel_stack_comp: "rel_stack cs \<Longrightarrow> c \<in> set cs \<Longrightarrow> c \<noteq> [] \<and> CHR ''/'' \<notin> set c"
  unfolding rel_stack_def list_all_iff normal_comp_def by (drule (1) bspec) auto

lemma clean_rel_absorb:
  assumes "\<not> is_abs p"
  shows "clean_stack True (split_on (CHR ''/'') (clean_path p)) out =
    clean_stack True (split_on (CHR ''/'') p) out"
proof -
  obtain cs where cs: "clean_path p = (if cs = [] then ''.'' else join ''/'' cs)" "rel_stack cs"
    "clean_stack True cs out = clean_stack True (split_on (CHR ''/'') p) out"
    using clean_path_rel [OF assms] by blast
  show ?thesis
  proof (cases "cs = []")
    case True
    with cs show ?thesis by (simp add: clean_push_def)
  next
    case False
    then have "split_on (CHR ''/'') (join ''/'' cs) = cs"
      using rel_stack_comp [OF cs(2)] by (intro split_on_join) auto
    with cs False show ?thesis by simp
  qed
qed

lemma clean_rel_not_abs:
  assumes "\<not> is_abs p"
  shows "\<not> is_abs (clean_path p)"
proof -
  obtain cs where cs: "clean_path p = (if cs = [] then ''.'' else join ''/'' cs)" "rel_stack cs"
    using clean_path_rel [OF assms] by blast
  show ?thesis
  proof (cases cs)
    case Nil
    with cs show ?thesis by (simp add: is_abs_iff)
  next
    case (Cons c ds)
    then have "c \<noteq> []" "\<not> is_abs c" using rel_stack_comp [OF cs(2), of c] by (auto simp: is_abs_iff)
    then show ?thesis using cs Cons by (cases ds; cases c) (auto simp: is_abs_iff)
  qed
qed

lemma abs_path_rel:
  assumes "list_all normal_comp ws" "\<not> is_abs p"
  shows "abs_path (root_path ws) p =
    root_path (rev (clean_stack True (split_on (CHR ''/'') p) (rev ws)))"
  using join_path_root [OF assms(1), of "[p]"] assms(2) by (simp add: abs_path_def del: join_path.simps)

lemma not_abs_join: "\<not> is_abs e \<Longrightarrow> e \<noteq> [] \<Longrightarrow> \<not> is_abs (join ''/'' (e # es))"
  by (cases es; cases e) (auto simp: is_abs_iff)

text \<open>\<open>Abs(Join(base, e1, ..., en))\<close> with normal components: they are appended to \<open>Abs(base)\<close>.\<close>

lemma abs_join_normal:
  assumes "list_all normal_comp ws" "base \<noteq> []" "list_all normal_comp es"
  shows "\<exists>bs. list_all normal_comp bs \<and> abs_path (root_path ws) base = root_path bs \<and>
    abs_path (root_path ws) (join_path (base # es)) = root_path (bs @ es)"
proof -
  have es: "concat (map (split_on (CHR ''/'')) es) = es"
    using assms(3) by (induction es) auto
  define st where "st = (if is_abs base then [] else rev ws)"
  define bs where "bs = rev (clean_stack True (split_on (CHR ''/'') base) st)"
  have "list_all normal_comp st" using assms(1) by (simp add: st_def list_all_rev)
  then have nb: "list_all normal_comp bs"
    unfolding bs_def list_all_rev by (intro clean_stack_rooted split_components)
  have jp: "join_path (base # es) = clean_path (join ''/'' (base # es))"
    using assms(2) by simp
  have split: "split_on (CHR ''/'') (join ''/'' (base # es)) = split_on (CHR ''/'') base @ es"
    using es by (simp add: split_on_concat del: join.simps)
  show ?thesis
  proof (cases "is_abs base")
    case True
    then have "abs_path (root_path ws) base = root_path bs"
      by (simp add: abs_path_abs clean_abs bs_def st_def)
    moreover have "clean_path (join ''/'' (base # es)) = root_path (bs @ es)"
      using True assms(3) split
      by (simp add: clean_abs is_abs_join clean_stack_append clean_stack_normal bs_def st_def del: join.simps)
    moreover have "is_abs (root_path (bs @ es))" by simp
    ultimately show ?thesis
      using nb assms(3) unfolding jp by (intro exI [of _ bs]) (simp add: abs_path_abs)
  next
    case False
    then have na: "\<not> is_abs (join ''/'' (base # es))" using assms(2) by (intro not_abs_join)
    have "abs_path (root_path ws) base = root_path bs"
      using assms(1) False by (simp add: abs_path_rel bs_def st_def)
    moreover have "abs_path (root_path ws) (clean_path (join ''/'' (base # es))) = root_path (bs @ es)"
      using abs_path_rel [OF assms(1) clean_rel_not_abs [OF na]] clean_rel_absorb [OF na] split
        assms(3) False
      by (simp add: clean_stack_append clean_stack_normal bs_def st_def)
    ultimately show ?thesis using nb unfolding jp by blast
  qed
qed

end
