(* ===== verification/Timestamps.thy ===== *)
theory Timestamps
  imports Prelude Go_Strings
begin

text \<open>
  The timestamps of the store (\<open>toTS\<close> and \<open>fromTS\<close> in \<open>internal/store/sqlite.go\<close>) and the part
  of package \<open>time\<close> under them: a UTC time as its civil fields, the layouts \<open>RFC3339\<close> and
  \<open>RFC3339Nano\<close> (which drops the trailing zeros of the fraction), and parsing. Parsing covers the
  texts that end in \<open>Z\<close>, which are those the server writes.
\<close>

section \<open>Times\<close>

record go_time =
  t_year :: nat
  t_month :: nat
  t_day :: nat
  t_hour :: nat
  t_min :: nat
  t_sec :: nat
  t_nsec :: nat

definition leap_year :: "nat \<Rightarrow> bool" where
  "leap_year y \<longleftrightarrow> 4 dvd y \<and> (\<not> 100 dvd y \<or> 400 dvd y)"

definition days_in :: "nat \<Rightarrow> nat \<Rightarrow> nat" where
  "days_in y m =
     (if m = 2 then (if leap_year y then 29 else 28)
      else if m = 4 \<or> m = 6 \<or> m = 9 \<or> m = 11 then 30 else 31)"

definition valid_time :: "go_time \<Rightarrow> bool" where
  "valid_time t \<longleftrightarrow>
     t_year t \<le> 9999 \<and> 1 \<le> t_month t \<and> t_month t \<le> 12 \<and>
     1 \<le> t_day t \<and> t_day t \<le> days_in (t_year t) (t_month t) \<and>
     t_hour t < 24 \<and> t_min t < 60 \<and> t_sec t < 60 \<and> t_nsec t < 10 ^ 9"

text \<open>\<open>time.Time{}\<close>\<close>

definition zero_time :: go_time where
  "zero_time = \<lparr>t_year = 1, t_month = 1, t_day = 1, t_hour = 0, t_min = 0, t_sec = 0, t_nsec = 0\<rparr>"

section \<open>Formatting\<close>

definition dec_field :: "nat \<Rightarrow> nat \<Rightarrow> string" where
  "dec_field w n = pad_zeros w (fmt_nat n)"

definition fmt_seconds :: "go_time \<Rightarrow> string" where
  "fmt_seconds t =
     dec_field 4 (t_year t) @ ''-'' @ dec_field 2 (t_month t) @ ''-'' @ dec_field 2 (t_day t) @ ''T'' @
     dec_field 2 (t_hour t) @ '':'' @ dec_field 2 (t_min t) @ '':'' @ dec_field 2 (t_sec t)"

definition strip_zeros :: "string \<Rightarrow> string" where
  "strip_zeros s = rev (dropWhile (\<lambda>c. c = CHR ''0'') (rev s))"

definition fmt_fraction :: "nat \<Rightarrow> string" where
  "fmt_fraction n = (if n = 0 then [] else CHR ''.'' # strip_zeros (dec_field 9 n))"

definition fmt_rfc3339 :: "go_time \<Rightarrow> string" where
  "fmt_rfc3339 t = fmt_seconds t @ ''Z''"

definition fmt_rfc3339_nano :: "go_time \<Rightarrow> string" where
  "fmt_rfc3339_nano t = fmt_seconds t @ fmt_fraction (t_nsec t) @ ''Z''"

definition to_ts :: "go_time \<Rightarrow> go_time \<Rightarrow> string" where
  "to_ts now t = fmt_rfc3339_nano (if t = zero_time then now else t)"

section \<open>Parsing\<close>

definition digits_at :: "nat \<Rightarrow> nat \<Rightarrow> string \<Rightarrow> nat option" where
  "digits_at i n s =
     (if length (take n (drop i s)) = n \<and> list_all is_digit_char (take n (drop i s))
      then Some (dec_val (take n (drop i s))) else None)"

definition char_at :: "nat \<Rightarrow> char \<Rightarrow> string \<Rightarrow> bool" where
  "char_at i c s \<longleftrightarrow> take 1 (drop i s) = [c]"

definition parse_fraction :: "string \<Rightarrow> nat option" where
  "parse_fraction s =
     (if s = ''Z'' then Some 0
      else if char_at 0 (CHR ''.'') s \<and> takeWhile is_digit_char (tl s) \<noteq> [] \<and>
        dropWhile is_digit_char (tl s) = ''Z''
      then Some (dec_val (take 9 (takeWhile is_digit_char (tl s) @ replicate 9 (CHR ''0''))))
      else None)"

definition parse_time :: "string \<Rightarrow> go_time option" where
  "parse_time s =
     (case (digits_at 0 4 s, digits_at 5 2 s, digits_at 8 2 s, digits_at 11 2 s, digits_at 14 2 s,
            digits_at 17 2 s, parse_fraction (drop 19 s)) of
        (Some y, Some mo, Some d, Some h, Some mi, Some sec, Some ns) \<Rightarrow>
          (if char_at 4 (CHR ''-'') s \<and> char_at 7 (CHR ''-'') s \<and> char_at 10 (CHR ''T'') s \<and>
              char_at 13 (CHR '':'') s \<and> char_at 16 (CHR '':'') s \<and>
              valid_time \<lparr>t_year = y, t_month = mo, t_day = d, t_hour = h, t_min = mi, t_sec = sec, t_nsec = ns\<rparr>
           then Some \<lparr>t_year = y, t_month = mo, t_day = d, t_hour = h, t_min = mi, t_sec = sec, t_nsec = ns\<rparr>
           else None)
      | _ \<Rightarrow> None)"

definition from_ts :: "string \<Rightarrow> go_time" where
  "from_ts raw = (case parse_time raw of None \<Rightarrow> zero_time | Some t \<Rightarrow> t)"

section \<open>Facts\<close>

lemma dec_val_dec_field [simp]: "dec_val (dec_field w n) = n"
  by (simp add: dec_field_def)

lemma dec_field_digits [simp]: "\<forall>c\<in>set (dec_field w n). is_digit_char c"
  by (simp add: dec_field_def)

lemma length_dec_field: "n < 10 ^ w \<Longrightarrow> 0 < w \<Longrightarrow> length (dec_field w n) = w"
  using length_fmt_nat_bound [of n w] by (simp add: dec_field_def)

lemma dec_field_inject [simp]: "dec_field w m = dec_field w n \<longleftrightarrow> m = n"
  by (metis dec_val_dec_field)

lemma dec_field_less:
  "m < 10 ^ w \<Longrightarrow> n < 10 ^ w \<Longrightarrow> 0 < w \<Longrightarrow> dec_field w m < dec_field w n \<longleftrightarrow> m < n"
  using dec_text_order [of "dec_field w m" "dec_field w n"] by (simp add: length_dec_field)

lemma digits_at_field:
  assumes "length p = i" "n < 10 ^ w" "0 < w"
  shows "digits_at i w (p @ dec_field w n @ q) = Some n"
  using assms by (simp add: digits_at_def length_dec_field list_all_iff)

lemma char_at_sep: "length p = i \<Longrightarrow> char_at i c (p @ c # q)"
  by (simp add: char_at_def)

lemma strip_zeros_pad: "\<exists>k. s = strip_zeros s @ replicate k (CHR ''0'')"
proof -
  have "takeWhile (\<lambda>c. c = CHR ''0'') (rev s) = replicate k (CHR ''0'')"
    if "k = length (takeWhile (\<lambda>c. c = CHR ''0'') (rev s))" for k
    using that by (intro replicate_eqI) (auto dest: set_takeWhileD)
  then obtain k where "rev s = replicate k (CHR ''0'') @ dropWhile (\<lambda>c. c = CHR ''0'') (rev s)"
    by (metis takeWhile_dropWhile_id)
  then have "s = rev (replicate k (CHR ''0'') @ dropWhile (\<lambda>c. c = CHR ''0'') (rev s))"
    by (metis rev_rev_ident)
  then show ?thesis by (auto simp: strip_zeros_def)
qed

lemma strip_zeros_digits: "\<forall>c\<in>set s. is_digit_char c \<Longrightarrow> \<forall>c\<in>set (strip_zeros s). is_digit_char c"
  by (auto simp: strip_zeros_def dest: set_dropWhileD)

lemma parse_fmt_fraction:
  assumes "n < 10 ^ 9"
  shows "parse_fraction (fmt_fraction n @ ''Z'') = Some n"
proof (cases "n = 0")
  case True
  then show ?thesis by (simp add: parse_fraction_def fmt_fraction_def)
next
  case False
  let ?d = "dec_field 9 n" and ?s = "strip_zeros (dec_field 9 n)"
  obtain k where k: "?d = ?s @ replicate k (CHR ''0'')" using strip_zeros_pad by blast
  have len: "length ?d = 9" using assms by (simp add: length_dec_field)
  then have k9: "length ?s + k = 9" by (subst (asm) k) simp
  have dig: "\<forall>c\<in>set ?s. is_digit_char c" by (rule strip_zeros_digits) simp
  have ne: "?s \<noteq> []"
  proof
    assume "?s = []"
    then have "dec_val ?d = 0" by (subst k) simp
    with False show False by simp
  qed
  have tw: "takeWhile is_digit_char (?s @ ''Z'') = ?s" "dropWhile is_digit_char (?s @ ''Z'') = ''Z''"
    using dig by (auto simp: takeWhile_append2 dropWhile_append2 is_digit_char_def)
  have "take 9 (?s @ replicate 9 (CHR ''0'')) = ?s @ replicate k (CHR ''0'')"
    using k9 by (auto simp: take_replicate min_def)
  then have "dec_val (take 9 (?s @ replicate 9 (CHR ''0''))) = n" using k by simp
  then show ?thesis
    using False ne tw by (simp add: parse_fraction_def fmt_fraction_def char_at_def)
qed

lemma days_in_bound: "days_in y m < 100"
  by (simp add: days_in_def)

lemma length_fmt_seconds: "valid_time t \<Longrightarrow> length (fmt_seconds t) = 19"
  using days_in_bound [of "t_year t" "t_month t"]
  by (simp add: fmt_seconds_def valid_time_def length_dec_field)

lemma parse_time_nano:
  assumes "valid_time t"
  shows "parse_time (fmt_rfc3339_nano t) = Some t"
proof -
  let ?y = "dec_field 4 (t_year t)" and ?mo = "dec_field 2 (t_month t)" and ?d = "dec_field 2 (t_day t)"
    and ?h = "dec_field 2 (t_hour t)" and ?mi = "dec_field 2 (t_min t)" and ?s = "dec_field 2 (t_sec t)"
    and ?f = "fmt_fraction (t_nsec t) @ ''Z''" and ?txt = "fmt_rfc3339_nano t"
  have b: "t_year t < 10 ^ 4" "t_month t < 10 ^ 2" "t_day t < 10 ^ 2" "t_hour t < 10 ^ 2"
      "t_min t < 10 ^ 2" "t_sec t < 10 ^ 2"
    using assms days_in_bound [of "t_year t" "t_month t"] by (auto simp: valid_time_def)
  then have len: "length ?y = 4" "length ?mo = 2" "length ?d = 2" "length ?h = 2" "length ?mi = 2" "length ?s = 2"
    by (simp_all add: length_dec_field)
  have layout: "?txt = ?y @ ''-'' @ ?mo @ ''-'' @ ?d @ ''T'' @ ?h @ '':'' @ ?mi @ '':'' @ ?s @ ?f"
    by (simp add: fmt_rfc3339_nano_def fmt_seconds_def)
  have "digits_at 0 4 ?txt = Some (t_year t)" "digits_at 5 2 ?txt = Some (t_month t)"
    "digits_at 8 2 ?txt = Some (t_day t)" "digits_at 11 2 ?txt = Some (t_hour t)"
    "digits_at 14 2 ?txt = Some (t_min t)" "digits_at 17 2 ?txt = Some (t_sec t)"
    using b len by (simp_all add: layout digits_at_def list_all_iff take_Cons' drop_Cons')
  moreover have "drop 19 ?txt = ?f" using len by (simp add: layout drop_Cons')
  then have "parse_fraction (drop 19 ?txt) = Some (t_nsec t)"
    using assms by (simp add: parse_fmt_fraction valid_time_def)
  moreover have "char_at 4 (CHR ''-'') ?txt" "char_at 7 (CHR ''-'') ?txt" "char_at 10 (CHR ''T'') ?txt"
    "char_at 13 (CHR '':'') ?txt" "char_at 16 (CHR '':'') ?txt"
    using len by (simp_all add: layout char_at_def take_Cons' drop_Cons')
  ultimately show ?thesis
    using assms by (simp add: parse_time_def valid_time_def)
qed

lemma from_ts_to_ts:
  "valid_time t \<Longrightarrow> valid_time now \<Longrightarrow> from_ts (to_ts now t) = (if t = zero_time then now else t)"
  by (simp add: from_ts_def to_ts_def parse_time_nano)

section \<open>Text order and time order\<close>

definition second_key :: "go_time \<Rightarrow> nat list" where
  "second_key t = [t_year t, t_month t, t_day t, t_hour t, t_min t, t_sec t]"

definition time_key :: "go_time \<Rightarrow> nat list" where
  "time_key t = second_key t @ [t_nsec t]"

lemma append_less:
  fixes a b x y :: "'a :: linorder list"
  assumes "length a = length b"
  shows "a @ x < b @ y \<longleftrightarrow> a < b \<or> a = b \<and> x < y"
  using assms by (induction a b rule: list_induct2) auto

lemma fmt_seconds_less:
  assumes "valid_time t" "valid_time u"
  shows "fmt_seconds t < fmt_seconds u \<longleftrightarrow> second_key t < second_key u"
proof -
  have b: "t_year t < 10 ^ 4" "t_month t < 10 ^ 2" "t_day t < 10 ^ 2" "t_hour t < 10 ^ 2"
      "t_min t < 10 ^ 2" "t_sec t < 10 ^ 2" if "valid_time t" for t
    using that days_in_bound [of "t_year t" "t_month t"] by (auto simp: valid_time_def)
  show ?thesis
    using b [OF assms(1)] b [OF assms(2)]
    by (simp add: fmt_seconds_def second_key_def append_less length_dec_field dec_field_less)
qed

lemma fmt_seconds_inject:
  assumes "valid_time t" "valid_time u"
  shows "fmt_seconds t = fmt_seconds u \<longleftrightarrow> second_key t = second_key u"
  using fmt_seconds_less [OF assms] fmt_seconds_less [OF assms(2,1)]
  by (metis less_irrefl neqE)

lemma nano_text_less:
  assumes "valid_time t" "valid_time u" "second_key t \<noteq> second_key u"
  shows "fmt_rfc3339_nano t < fmt_rfc3339_nano u \<longleftrightarrow> time_key t < time_key u"
proof -
  have "length (second_key t) = length (second_key u)" by (simp add: second_key_def)
  then have "time_key t < time_key u \<longleftrightarrow> second_key t < second_key u"
    using assms(3) unfolding time_key_def by (subst append_less) auto
  then show ?thesis
    using assms fmt_seconds_less [OF assms(1,2)] fmt_seconds_inject [OF assms(1,2)]
    by (simp add: fmt_rfc3339_nano_def append_less length_fmt_seconds)
qed

section \<open>Properties\<close>

text \<open>C28: A timestamp survives the store: reading back what \<open>toTS\<close> wrote gives the same time to the
  nanosecond, the current time where the zero time was written.\<close>

theorem timestamp_roundtrip:
  assumes "valid_time t" "valid_time now"
  shows "from_ts (to_ts now t) = (if t = zero_time then now else t)"
  by (rule from_ts_to_ts [OF assms])

definition noon :: "nat \<Rightarrow> nat \<Rightarrow> go_time" where
  "noon s ns = \<lparr>t_year = 2024, t_month = 2, t_day = 29, t_hour = 12, t_min = 0, t_sec = s, t_nsec = ns\<rparr>"

theorem timestamp_roundtrip_witness:
  "to_ts (noon 9 0) (noon 5 120000000) = ''2024-02-29T12:00:05.12Z'' \<and>
   from_ts ''2024-02-29T12:00:05.12Z'' = noon 5 120000000"
proof -
  have "valid_time (noon 5 120000000)" "valid_time (noon 9 0)" "noon 5 120000000 \<noteq> zero_time"
    by code_simp+
  then have "from_ts (to_ts (noon 9 0) (noon 5 120000000)) = noon 5 120000000"
    by (simp add: timestamp_roundtrip)
  moreover have "to_ts (noon 9 0) (noon 5 120000000) = ''2024-02-29T12:00:05.12Z''"
    by code_simp
  ultimately show ?thesis by simp
qed

text \<open>Stored timestamps of different seconds compare as text the way the times compare, so
  \<open>ORDER BY created_at\<close> orders sessions created in different seconds by time.\<close>

theorem timestamp_text_order:
  assumes "valid_time t" "valid_time u" "second_key t \<noteq> second_key u"
  shows "fmt_rfc3339_nano t < fmt_rfc3339_nano u \<longleftrightarrow> time_key t < time_key u"
  by (rule nano_text_less [OF assms])

theorem timestamp_text_order_witness:
  "fmt_rfc3339_nano (noon 5 900000000) < fmt_rfc3339_nano (noon 6 0)"
proof -
  have "valid_time (noon 5 900000000)" "valid_time (noon 6 0)"
    "second_key (noon 5 900000000) \<noteq> second_key (noon 6 0)"
    "time_key (noon 5 900000000) < time_key (noon 6 0)"
    by code_simp+
  then show ?thesis by (simp add: timestamp_text_order)
qed

text \<open>Within one second the text order is not the time order, because \<open>RFC3339Nano\<close> drops trailing
  zeros: of two times with the same seconds, one with the whole second and one with a fraction
  of it, the earlier one always has the larger text, so the newest-first listing shows the
  earlier session first.\<close>

theorem subsecond_text_misorder:
  "0 < ns \<Longrightarrow> fmt_rfc3339_nano (t\<lparr>t_nsec := ns\<rparr>) < fmt_rfc3339_nano (t\<lparr>t_nsec := 0\<rparr>) \<and>
     time_key (t\<lparr>t_nsec := 0\<rparr>) < time_key (t\<lparr>t_nsec := ns\<rparr>)"
proof -
  assume ns: "0 < ns"
  have "CHR ''.'' < CHR ''Z''" by code_simp
  then have "CHR ''.'' # s < ''Z''" for s by simp
  then show ?thesis
    using ns by (simp add: fmt_rfc3339_nano_def fmt_seconds_def fmt_fraction_def append_less
      time_key_def second_key_def)
qed

theorem subsecond_text_misorder_witness:
  "fmt_rfc3339_nano (noon 5 500000000) < fmt_rfc3339_nano (noon 5 0)"
  using subsecond_text_misorder [of 500000000 "noon 5 0"] by (simp add: noon_def)

end
