(* ===== verification/Net_Addr.thy ===== *)
theory Net_Addr
  imports Go_Strings
begin

text \<open>
  The parts of package \<open>net\<close> behind the local-connection test and the client address of the rate
  limiter: \<open>SplitHostPort\<close>, \<open>ParseIP\<close>, \<open>IP.IsLoopback\<close> and \<open>IP.String\<close>. An address is
  the 16-byte form \<open>ParseIP\<close> returns, a list of byte values.
\<close>

type_synonym ip = "nat list"

section \<open>Host and port\<close>

text \<open>
  The port starts after the last colon. A bracketed host must end just before it; an unbracketed
  host has no colon. No bracket may occur elsewhere.
\<close>

definition last_index_char :: "char \<Rightarrow> string \<Rightarrow> nat option" where
  "last_index_char c s =
     (if c \<in> set s then Some (length s - 1 - length (takeWhile (\<lambda>x. x \<noteq> c) (rev s))) else None)"

definition index_char :: "char \<Rightarrow> string \<Rightarrow> nat option" where
  "index_char c s = (if c \<in> set s then Some (length (takeWhile (\<lambda>x. x \<noteq> c) s)) else None)"

definition split_host_port :: "string \<Rightarrow> (string \<times> string) option" where
  "split_host_port hp =
     (case last_index_char (CHR '':'') hp of
        None \<Rightarrow> None
      | Some i \<Rightarrow>
          (if hd hp = CHR ''['' then
             (case index_char (CHR '']'') hp of
                None \<Rightarrow> None
              | Some e \<Rightarrow>
                  (if e + 1 \<noteq> i then None
                   else if CHR ''['' \<in> set (drop 1 hp) \<or> CHR '']'' \<in> set (drop (e + 1) hp) then None
                   else Some (take (e - 1) (drop 1 hp), drop (i + 1) hp)))
           else
             (if CHR '':'' \<in> set (take i hp) then None
              else if CHR ''['' \<in> set hp \<or> CHR '']'' \<in> set hp then None
              else Some (take i hp, drop (i + 1) hp))))"

section \<open>Addresses\<close>

definition v4_field_ok :: "string \<Rightarrow> bool" where
  "v4_field_ok p \<longleftrightarrow>
     p \<noteq> [] \<and> list_all is_digit_char p \<and> (length p = 1 \<or> hd p \<noteq> CHR ''0'') \<and> dec_val p \<le> 255"

definition parse_v4 :: "string \<Rightarrow> nat list option" where
  "parse_v4 s =
     (let ps = split_on (CHR ''.'') s
      in if length ps = 4 \<and> list_all v4_field_ok ps then Some (map dec_val ps) else None)"

definition hex_val :: "char \<Rightarrow> nat option" where
  "hex_val c =
     (let n = (of_char c :: nat)
      in if 48 \<le> n \<and> n \<le> 57 then Some (n - 48)
         else if 97 \<le> n \<and> n \<le> 102 then Some (n - 87)
         else if 65 \<le> n \<and> n \<le> 70 then Some (n - 55)
         else None)"

definition hex_num :: "string \<Rightarrow> nat" where
  "hex_num s = foldl (\<lambda>a c. 16 * a + (case hex_val c of Some d \<Rightarrow> d | None \<Rightarrow> 0)) 0 s"

text \<open>
  The loop over the groups of an IPv6 address: at most \<open>n\<close> more groups, the bytes so far, the
  position of \<open>::\<close> if one was seen, the rest of the text.
\<close>

fun v6_loop :: "nat \<Rightarrow> nat list \<Rightarrow> nat option \<Rightarrow> string \<Rightarrow> (nat list \<times> nat option \<times> string) option"
where
  "v6_loop 0 acc ell s = Some (acc, ell, s)"
| "v6_loop (Suc n) acc ell s =
     (case (takeWhile (\<lambda>c. hex_val c \<noteq> None) s, dropWhile (\<lambda>c. hex_val c \<noteq> None) s) of (h, r) \<Rightarrow>
      case acc @ [hex_num h div 256, hex_num h mod 256] of acc' \<Rightarrow>
         if h = [] \<or> 4 < length h then None
         else if r \<noteq> [] \<and> hd r = CHR ''.'' then
           (if (ell = None \<and> length acc \<noteq> 12) \<or> 16 < length acc + 4 then None
            else (case parse_v4 s of None \<Rightarrow> None | Some q \<Rightarrow> Some (acc @ q, ell, [])))
         else if r = [] then Some (acc', ell, [])
         else if hd r \<noteq> CHR '':'' \<or> tl r = [] then None
         else if hd (tl r) = CHR '':'' then
           (if ell \<noteq> None then None
            else if tl (tl r) = [] then Some (acc', Some (length acc'), [])
            else v6_loop n acc' (Some (length acc')) (tl (tl r)))
         else v6_loop n acc' ell (tl r))"

definition v6_finish :: "nat list \<Rightarrow> nat option \<Rightarrow> string \<Rightarrow> ip option" where
  "v6_finish acc ell s =
     (if s \<noteq> [] then None
      else if length acc < 16 then
        (case ell of
           None \<Rightarrow> None
         | Some e \<Rightarrow> Some (take e acc @ replicate (16 - length acc) 0 @ drop e acc))
      else if ell \<noteq> None then None else Some acc)"

definition parse_v6 :: "string \<Rightarrow> ip option" where
  "parse_v6 s =
     (let lead = has_prefix s ''::''; s' = (if lead then drop 2 s else s)
      in if lead \<and> s' = [] then Some (replicate 16 0)
         else (case v6_loop 8 [] (if lead then Some 0 else None) s' of
                 None \<Rightarrow> None
               | Some (acc, ell, r) \<Rightarrow> v6_finish acc ell r))"

definition v4_mapped :: "nat list \<Rightarrow> ip" where
  "v4_mapped q = replicate 10 0 @ [255, 255] @ q"

definition parse_ip :: "string \<Rightarrow> ip option" where
  "parse_ip s =
     (case find (\<lambda>c. c \<in> {CHR ''.'', CHR '':'', CHR ''%''}) s of
        None \<Rightarrow> None
      | Some c \<Rightarrow>
          (if c = CHR ''.'' then map_option v4_mapped (parse_v4 s)
           else if c = CHR '':'' then (if CHR ''%'' \<in> set s then None else parse_v6 s)
           else None))"

definition to4 :: "ip \<Rightarrow> nat list option" where
  "to4 a = (if take 12 a = replicate 10 0 @ [255, 255] then Some (drop 12 a) else None)"

definition is_loopback :: "ip \<Rightarrow> bool" where
  "is_loopback a =
     (case to4 a of
        Some q \<Rightarrow> hd q = 127
      | None \<Rightarrow> a = replicate 15 0 @ [1])"

section \<open>Printing an address\<close>

fun hex_digits :: "nat \<Rightarrow> string" where
  "hex_digits n =
     (if n < 16 then [''0123456789abcdef'' ! n]
      else hex_digits (n div 16) @ [''0123456789abcdef'' ! (n mod 16)])"

declare hex_digits.simps [simp del]

definition v6_groups :: "ip \<Rightarrow> nat list" where
  "v6_groups a = map (\<lambda>i. 256 * a ! (2 * i) + a ! (2 * i + 1)) [0..<8]"

text \<open>The first longest run of at least two zero groups, as its start and end.\<close>

definition zero_run :: "nat list \<Rightarrow> (nat \<times> nat) option" where
  "zero_run gs =
     foldl (\<lambda>best i.
        let l = length (takeWhile (\<lambda>g. g = 0) (drop i gs))
        in if 2 \<le> l \<and> (case best of None \<Rightarrow> True | Some (b, e) \<Rightarrow> e - b < l) then Some (i, i + l) else best)
       None [0..<8]"

definition ip_string :: "ip \<Rightarrow> string" where
  "ip_string a =
     (case to4 a of
        Some q \<Rightarrow> join ''.'' (map fmt_nat q)
      | None \<Rightarrow>
          (let gs = v6_groups a; hex = (\<lambda>xs. join '':'' (map hex_digits xs))
           in case zero_run gs of
                None \<Rightarrow> hex gs
              | Some (b, e) \<Rightarrow> hex (take b gs) @ ''::'' @ hex (drop e gs)))"

section \<open>Facts\<close>

definition ip_ok :: "ip \<Rightarrow> bool" where
  "ip_ok a \<longleftrightarrow> length a = 16 \<and> list_all (\<lambda>b. b < 256) a"

lemma v4_field_less: "v4_field_ok p \<Longrightarrow> dec_val p < 256"
  by (simp add: v4_field_ok_def)

lemma parse_v4_bytes: "parse_v4 s = Some q \<Longrightarrow> length q = 4 \<and> list_all (\<lambda>b. b < 256) q"
  by (auto simp: parse_v4_def Let_def list_all_iff v4_field_less split: if_splits)

lemma v4_mapped_ok: "length q = 4 \<Longrightarrow> list_all (\<lambda>b. b < 256) q \<Longrightarrow> ip_ok (v4_mapped q)"
  by (auto simp: ip_ok_def v4_mapped_def list_all_iff)

lemma to4_v4_mapped [simp]: "to4 (v4_mapped q) = Some q"
  by (simp add: to4_def v4_mapped_def numeral_eq_Suc)

text \<open>
  A dotted IPv4 text is a loopback address exactly when its first field is 127, so every address
  of \<open>127.0.0.0/8\<close> counts and not only \<open>127.0.0.1\<close>.
\<close>

lemma is_loopback_v4: "is_loopback (v4_mapped q) \<longleftrightarrow> hd q = 127"
  by (simp add: is_loopback_def)

lemma parse_ip_loopback_examples:
  "map_option is_loopback (parse_ip ''127.0.0.1'') = Some True"
  "map_option is_loopback (parse_ip ''127.255.0.9'') = Some True"
  "map_option is_loopback (parse_ip ''::1'') = Some True"
  "map_option is_loopback (parse_ip ''::ffff:127.0.0.1'') = Some True"
  "map_option is_loopback (parse_ip ''10.0.0.1'') = Some False"
  "parse_ip ''127.0.0.01'' = None"
  "parse_ip ''localhost'' = None"
  "parse_ip ''fe80::1%eth0'' = None"
  by code_simp+

lemma split_host_port_examples:
  "split_host_port ''127.0.0.1:5000'' = Some (''127.0.0.1'', ''5000'')"
  "split_host_port ''[::1]:5000'' = Some (''::1'', ''5000'')"
  "split_host_port ''::1'' = None"
  "split_host_port ''127.0.0.1'' = None"
  by code_simp+

lemma ip_string_examples:
  "map_option ip_string (parse_ip ''10.0.0.7'') = Some ''10.0.0.7''"
  "map_option ip_string (parse_ip ''2001:DB8:0:0:0:0:0:1'') = Some ''2001:db8::1''"
  "map_option ip_string (parse_ip ''::'') = Some ''::''"
  by code_simp+

end
