(* ===== verification/Json.thy ===== *)
theory Json
  imports Go_Strings
begin

text \<open>
  JSON values and the decoding rules of package \<open>encoding/json\<close> that the server relies on.
  A \<open>json.RawMessage\<close> is modelled by the JSON value its bytes denote (\<open>None\<close> for a nil slice):
  the server only stores raw messages, re-decodes them and embeds them in other documents.

  \<open>Unmarshal\<close> into a struct runs over the members of the object in order. A member goes to the
  field whose name is the key, or else to the field whose name equals the key after simple case
  folding; other members are ignored. \<open>null\<close> leaves a scalar field as it is. A mismatch of types
  makes the whole call fail; the callers modelled here never look at a partial result. A slice
  field met twice is decoded afresh.
\<close>

datatype json =
  JNull
| JBool bool
| JNum string
| JStr string
| JArr "json list"
| JObj "(string \<times> json) list"

type_synonym raw_message = "json option"

section \<open>Matching object keys with field names\<close>

text \<open>
  Simple folding on ASCII letters, and the two other runes that fold to an ASCII letter: the
  Kelvin sign (\<open>E2 84 AA\<close>) and the long s (\<open>C5 BF\<close>).
\<close>

function fold_key :: "string \<Rightarrow> string" where
  "fold_key s =
     (case s of
        [] \<Rightarrow> []
      | c # cs \<Rightarrow>
          (if has_prefix s (map char_of [0xE2, 0x84, 0xAA :: nat]) then CHR ''k'' # fold_key (drop 3 s)
           else if has_prefix s (map char_of [0xC5, 0xBF :: nat]) then CHR ''s'' # fold_key (drop 2 s)
           else lower_char c # fold_key cs))"
  by pat_completeness auto
termination
  by (relation "measure length") auto

declare fold_key.simps [simp del]

type_synonym 's field_decoder = "json \<Rightarrow> 's \<Rightarrow> 's option"

definition lookup_field :: "(string \<times> 's field_decoder) list \<Rightarrow> string \<Rightarrow> 's field_decoder option" where
  "lookup_field fs k =
     (case map_of fs k of
        Some d \<Rightarrow> Some d
      | None \<Rightarrow> map_option snd (find (\<lambda>(n, _). fold_key n = fold_key k) fs))"

fun decode_members :: "(string \<times> 's field_decoder) list \<Rightarrow> (string \<times> json) list \<Rightarrow> 's \<Rightarrow> 's option" where
  "decode_members fs [] s = Some s"
| "decode_members fs ((k, v) # ms) s =
     (case lookup_field fs k of
        None \<Rightarrow> decode_members fs ms s
      | Some d \<Rightarrow>
          (case d v s of
             None \<Rightarrow> None
           | Some s' \<Rightarrow> decode_members fs ms s'))"

definition decode_struct :: "(string \<times> 's field_decoder) list \<Rightarrow> 's field_decoder" where
  "decode_struct fs j s =
     (case j of
        JNull \<Rightarrow> Some s
      | JObj ms \<Rightarrow> decode_members fs ms s
      | _ \<Rightarrow> None)"

text \<open>A \<open>json.Decoder\<close> with \<open>DisallowUnknownFields\<close> rejects any other member.\<close>

definition known_members :: "(string \<times> 's field_decoder) list \<Rightarrow> json \<Rightarrow> bool" where
  "known_members fs j =
     (case j of JObj ms \<Rightarrow> list_all (\<lambda>(k, _). lookup_field fs k \<noteq> None) ms | _ \<Rightarrow> True)"

section \<open>Scalar decoders\<close>

definition int64_lit :: "string \<Rightarrow> int option" where
  "int64_lit s = (if s \<noteq> [] \<and> hd s = CHR ''+'' then None else atoi s)"

fun dec_string :: "json \<Rightarrow> string \<Rightarrow> string option" where
  "dec_string JNull old = Some old"
| "dec_string (JStr s) old = Some s"
| "dec_string _ old = None"

fun dec_bool :: "json \<Rightarrow> bool \<Rightarrow> bool option" where
  "dec_bool JNull old = Some old"
| "dec_bool (JBool b) old = Some b"
| "dec_bool _ old = None"

fun dec_int :: "json \<Rightarrow> int \<Rightarrow> int option" where
  "dec_int JNull old = Some old"
| "dec_int (JNum s) old = int64_lit s"
| "dec_int _ old = None"

definition dec_raw :: "json \<Rightarrow> raw_message \<Rightarrow> raw_message option" where
  "dec_raw v old = Some (Some v)"

text \<open>Slices: \<open>None\<close> is the nil slice.\<close>

fun dec_raw_list :: "json \<Rightarrow> json list option \<Rightarrow> json list option option" where
  "dec_raw_list JNull old = Some None"
| "dec_raw_list (JArr xs) old = Some (Some xs)"
| "dec_raw_list _ old = None"

text \<open>A member met twice is decoded into the slice that is there: a \<open>null\<close> entry keeps the string at its
  index. (What a slice hides beyond its length, after a third member with the key, is not kept.)\<close>

fun dec_strings :: "json list \<Rightarrow> string list \<Rightarrow> string list option" where
  "dec_strings [] olds = Some []"
| "dec_strings (x # xs) olds =
     (case dec_string x (case olds of [] \<Rightarrow> [] | old # rest \<Rightarrow> old) of
        None \<Rightarrow> None
      | Some s \<Rightarrow> map_option (\<lambda>ss. s # ss) (dec_strings xs (drop 1 olds)))"

fun dec_string_list :: "json \<Rightarrow> string list option \<Rightarrow> string list option option" where
  "dec_string_list JNull old = Some None"
| "dec_string_list (JArr xs) old = map_option Some (dec_strings xs (case old of None \<Rightarrow> [] | Some ss \<Rightarrow> ss))"
| "dec_string_list _ old = None"

text \<open>A field of a record, from a decoder of its type, a selector and an update.\<close>

definition field ::
    "('v \<Rightarrow> 's \<Rightarrow> 's) \<Rightarrow> ('s \<Rightarrow> 'v) \<Rightarrow> (json \<Rightarrow> 'v \<Rightarrow> 'v option) \<Rightarrow> 's field_decoder" where
  "field put get d v s = map_option (\<lambda>x. put x s) (d v (get s))"

section \<open>Documents built by the server\<close>

text \<open>\<open>json.Marshal\<close> writes the members of a Go map in the byte order of their keys.\<close>

definition json_map :: "(string \<times> json) list \<Rightarrow> json" where
  "json_map kvs = JObj (sort_key fst kvs)"

text \<open>\<open>m[k]\<close> on a document decoded into \<open>map[string]any\<close>: the last member with that key.\<close>

fun obj_get :: "json \<Rightarrow> string \<Rightarrow> json option" where
  "obj_get (JObj ms) k = map_of (rev ms) k"
| "obj_get _ k = None"

fun json_str :: "json \<Rightarrow> string option" where
  "json_str (JStr s) = Some s"
| "json_str _ = None"

fun json_bool :: "json \<Rightarrow> bool option" where
  "json_bool (JBool b) = Some b"
| "json_bool _ = None"

text \<open>\<open>omitempty\<close>: leave the member out when its value is empty.\<close>

definition omit_if :: "bool \<Rightarrow> string \<Rightarrow> json \<Rightarrow> (string \<times> json) list" where
  "omit_if e k v = (if e then [] else [(k, v)])"

definition omit_raw :: "string \<Rightarrow> raw_message \<Rightarrow> (string \<times> json) list" where
  "omit_raw k m = (case m of None \<Rightarrow> [] | Some v \<Rightarrow> [(k, v)])"

definition json_int :: "int \<Rightarrow> json" where
  "json_int n = JNum (if n < 0 then CHR ''-'' # fmt_nat (nat (- n)) else fmt_nat (nat n))"

section \<open>Facts\<close>

lemma decode_struct_not_object:
  "decode_struct fs (JArr xs) s = None"
  "decode_struct fs (JStr t) s = None"
  "decode_struct fs (JNum t) s = None"
  "decode_struct fs (JBool b) s = None"
  "decode_struct fs JNull s = Some s"
  by (simp_all add: decode_struct_def)

lemma decode_struct_obj [simp]: "decode_struct fs (JObj ms) s = decode_members fs ms s"
  by (simp add: decode_struct_def)

lemma decode_members_append:
  "decode_members fs (ms @ ms') s =
     (case decode_members fs ms s of None \<Rightarrow> None | Some s' \<Rightarrow> decode_members fs ms' s')"
  by (induction fs ms s rule: decode_members.induct) (auto split: option.splits)

text \<open>Members no field matches can be dropped.\<close>

lemma decode_members_filter:
  "decode_members fs (filter (\<lambda>(k, _). lookup_field fs k \<noteq> None) ms) s = decode_members fs ms s"
  by (induction fs ms s rule: decode_members.induct) (auto split: option.splits)

lemma dec_strings_length: "dec_strings xs olds = Some ss \<Longrightarrow> length ss = length xs"
  by (induction xs olds arbitrary: ss rule: dec_strings.induct) (auto split: option.splits)

lemma dec_strings_JStr [simp]: "dec_strings (map JStr ss) olds = Some ss"
  by (induction ss arbitrary: olds) auto

lemma atoi_neg: "s \<noteq> [] \<Longrightarrow> atoi (CHR ''-'' # s) =
   (if list_all is_digit_char s \<and> dec_val s \<le> 2 ^ 63 then Some (- int (dec_val s)) else None)"
  by (simp add: atoi_def Let_def)

lemma dec_int_json_int:
  assumes "- (2 ^ 63) \<le> n" "n < 2 ^ 63"
  shows "dec_int (json_int n) old = Some n"
proof (cases "n < 0")
  case True
  with assms have "nat (- n) \<le> 2 ^ 63" by simp
  with True show ?thesis
    by (simp add: json_int_def int64_lit_def atoi_neg list_all_iff)
next
  case False
  have hd: "hd (fmt_nat (nat n)) \<in> set (fmt_nat (nat n))" by simp
  then have "is_digit_char (hd (fmt_nat (nat n)))" by (meson fmt_nat_digits)
  then have "hd (fmt_nat (nat n)) \<notin> {CHR ''-'', CHR ''+''}"
    by (auto simp: is_digit_char_def)
  with False assms show ?thesis
    by (auto simp: json_int_def int64_lit_def atoi_def list_all_iff)
qed

end
