(* ===== verification/Json_Text.thy ===== *)
theory Json_Text
  imports Json
begin

text \<open>
  The text form of JSON: what \<open>json.Unmarshal\<close> accepts of a byte string, what a
  \<open>json.Decoder\<close> reads of a stream (one value, the rest is left), and what \<open>json.Marshal\<close>
  writes. Strings are UTF-8: an ill-formed byte is read as the replacement character; \<open>\u\<close>
  escapes are joined when they form a surrogate pair. Nesting is limited to 10000 levels.
  The last section proves that writing and reading are inverse.
\<close>

section \<open>UTF-8\<close>

definition byte_at :: "string \<Rightarrow> nat \<Rightarrow> nat" where
  "byte_at s i = (if i < length s then of_char (s ! i) else 0)"

text \<open>The length of the well-formed multi-byte encoding at the front, 0 if there is none.\<close>

definition rune_len :: "string \<Rightarrow> nat" where
  "rune_len s =
     (let b0 = byte_at s 0; b1 = byte_at s 1; b2 = byte_at s 2; b3 = byte_at s 3;
          cont = (\<lambda>b. 0x80 \<le> b \<and> b \<le> 0xBF)
      in if 0xC2 \<le> b0 \<and> b0 \<le> 0xDF \<and> cont b1 then 2
         else if (b0 = 0xE0 \<and> 0xA0 \<le> b1 \<and> b1 \<le> 0xBF \<or> 0xE1 \<le> b0 \<and> b0 \<le> 0xEC \<and> cont b1
                  \<or> b0 = 0xED \<and> 0x80 \<le> b1 \<and> b1 \<le> 0x9F \<or> (b0 = 0xEE \<or> b0 = 0xEF) \<and> cont b1)
                 \<and> cont b2 then 3
         else if (b0 = 0xF0 \<and> 0x90 \<le> b1 \<and> b1 \<le> 0xBF \<or> 0xF1 \<le> b0 \<and> b0 \<le> 0xF3 \<and> cont b1
                  \<or> b0 = 0xF4 \<and> 0x80 \<le> b1 \<and> b1 \<le> 0x8F) \<and> cont b2 \<and> cont b3 then 4
         else 0)"

definition bytes_of :: "nat list \<Rightarrow> string" where
  "bytes_of bs = map char_of bs"

definition utf8_encode :: "nat \<Rightarrow> string" where
  "utf8_encode r =
     bytes_of
       (if r < 0x80 then [r]
        else if r < 0x800 then [0xC0 + r div 64, 0x80 + r mod 64]
        else if r < 0x10000 then [0xE0 + r div 4096, 0x80 + r div 64 mod 64, 0x80 + r mod 64]
        else [0xF0 + r div 262144, 0x80 + r div 4096 mod 64, 0x80 + r div 64 mod 64, 0x80 + r mod 64])"

definition replacement :: string where
  "replacement = bytes_of [0xEF, 0xBF, 0xBD]"

lemma rune_len_bound: "rune_len s \<le> length s"
  by (auto simp: rune_len_def byte_at_def Let_def split: if_splits)

lemma rune_len_cases: "rune_len s \<in> {0, 2, 3, 4}"
  by (simp add: rune_len_def Let_def)

lemma rune_len_ascii: "(of_char c :: nat) < 128 \<Longrightarrow> rune_len (c # s) = 0"
  by (auto simp: rune_len_def byte_at_def Let_def)

lemma byte_at_append: "i < length s \<Longrightarrow> byte_at (s @ t) i = byte_at s i"
  by (simp add: byte_at_def nth_append)

text \<open>Whether an encoding is well formed depends on its own bytes only.\<close>

lemma rune_len_prefix:
  assumes "rune_len s = n" "0 < n"
  shows "rune_len (take n s @ t) = n"
proof -
  have n: "n \<le> length s" using rune_len_bound [of s] assms by simp
  have b: "byte_at (take n s @ t) i = byte_at s i" if "i < n" for i
    using that n by (simp add: byte_at_def nth_append)
  consider "n = 2" | "n = 3" | "n = 4"
    using rune_len_cases [of s] assms by auto
  then show ?thesis
  proof cases
    case 1
    then show ?thesis using assms b [of 0] b [of 1]
      by (auto simp: rune_len_def Let_def split: if_splits)
  next
    case 2
    then show ?thesis using assms b [of 0] b [of 1] b [of 2]
      by (auto simp: rune_len_def Let_def split: if_splits)
  next
    case 3
    then show ?thesis using assms b [of 0] b [of 1] b [of 2] b [of 3]
      by (auto simp: rune_len_def Let_def split: if_splits)
  qed
qed

section \<open>Tokens\<close>

datatype token =
  TLBrace | TRBrace | TLBrack | TRBrack | TComma | TColon
| TNull | TTrue | TFalse | TNum string | TStr string

definition is_json_space :: "char \<Rightarrow> bool" where
  "is_json_space c \<longleftrightarrow> (of_char c :: nat) \<in> {32, 9, 13, 10}"

definition hex_digit_val :: "char \<Rightarrow> nat option" where
  "hex_digit_val c =
     (let n = (of_char c :: nat)
      in if 48 \<le> n \<and> n \<le> 57 then Some (n - 48)
         else if 97 \<le> n \<and> n \<le> 102 then Some (n - 87)
         else if 65 \<le> n \<and> n \<le> 70 then Some (n - 55)
         else None)"

fun hex4 :: "string \<Rightarrow> nat option" where
  "hex4 (a # b # c # d # s) =
     (case (hex_digit_val a, hex_digit_val b, hex_digit_val c, hex_digit_val d) of
        (Some w, Some x, Some y, Some z) \<Rightarrow> Some (4096 * w + 256 * x + 16 * y + z)
      | _ \<Rightarrow> None)"
| "hex4 _ = None"

definition simple_escape :: "char \<Rightarrow> nat option" where
  "simple_escape e =
     map_of [(CHR 0x22, 0x22), (CHR 0x5C, 0x5C), (CHR ''/'', 0x2F), (CHR ''b'', 8), (CHR ''f'', 12),
             (CHR ''n'', 10), (CHR ''r'', 13), (CHR ''t'', 9)] e"

text \<open>
  The escape after \<open>\u\<close>: its bytes and how many characters it takes. A surrogate that is not the
  first half of a pair becomes the replacement character and takes only itself.
\<close>

definition u_escape :: "string \<Rightarrow> (string \<times> nat) option" where
  "u_escape s =
     (case hex4 s of
        None \<Rightarrow> None
      | Some r \<Rightarrow>
          (if 0xD800 \<le> r \<and> r < 0xE000 then
             (case (if has_prefix (drop 4 s) [CHR 0x5C, CHR ''u''] then hex4 (drop 6 s) else None) of
                Some q \<Rightarrow>
                  (if r < 0xDC00 \<and> 0xDC00 \<le> q \<and> q < 0xE000
                   then Some (utf8_encode ((r - 0xD800) * 1024 + (q - 0xDC00) + 0x10000), 10)
                   else Some (replacement, 4))
              | None \<Rightarrow> Some (replacement, 4))
           else Some (utf8_encode r, 4)))"

definition emit :: "string \<Rightarrow> (string \<times> string) option \<Rightarrow> (string \<times> string) option" where
  "emit p res = map_option (\<lambda>(t, r). (p @ t, r)) res"

text \<open>The body of a string literal, after its opening quote: contents and remaining text.\<close>

function lex_str :: "string \<Rightarrow> (string \<times> string) option" where
  "lex_str s =
     (case s of
        [] \<Rightarrow> None
      | c # cs \<Rightarrow>
          (if c = CHR 0x22 then Some ([], cs)
           else if c = CHR 0x5C then
             (case cs of
                [] \<Rightarrow> None
              | e # es \<Rightarrow>
                  (if e = CHR ''u'' then
                     (case u_escape es of
                        None \<Rightarrow> None
                      | Some (p, n) \<Rightarrow> emit p (lex_str (drop n es)))
                   else
                     (case simple_escape e of
                        None \<Rightarrow> None
                      | Some b \<Rightarrow> emit (bytes_of [b]) (lex_str es))))
           else if (of_char c :: nat) < 32 then None
           else if (of_char c :: nat) < 128 then emit [c] (lex_str cs)
           else if rune_len s = 0 then emit replacement (lex_str cs)
           else emit (take (rune_len s) s) (lex_str (drop (rune_len s) s))))"
  by pat_completeness auto
termination
  by (relation "measure length") auto

declare lex_str.simps [simp del]

definition digits_of :: "string \<Rightarrow> string" where
  "digits_of s = takeWhile is_digit_char s"

text \<open>A number literal: sign, integer part, optional fraction, optional exponent.\<close>

definition exp_sign :: "string \<Rightarrow> string" where
  "exp_sign s = (if s \<noteq> [] \<and> hd s \<in> {CHR ''+'', CHR ''-''} then take 1 s else [])"

definition lex_exp :: "string \<Rightarrow> (string \<times> string) option" where
  "lex_exp s =
     (case s of
        c # cs \<Rightarrow>
          (if c = CHR ''e'' \<or> c = CHR ''E'' then
             (if digits_of (drop (length (exp_sign cs)) cs) = [] then None
              else Some (c # exp_sign cs @ digits_of (drop (length (exp_sign cs)) cs),
                         drop (length (digits_of (drop (length (exp_sign cs)) cs)))
                           (drop (length (exp_sign cs)) cs)))
           else Some ([], s))
      | [] \<Rightarrow> Some ([], s))"

definition lex_frac :: "string \<Rightarrow> (string \<times> string) option" where
  "lex_frac s =
     (case s of
        c # cs \<Rightarrow>
          (if c = CHR ''.'' then
             (if digits_of cs = [] then None
              else emit (c # digits_of cs) (lex_exp (drop (length (digits_of cs)) cs)))
           else lex_exp s)
      | [] \<Rightarrow> lex_exp s)"

definition lex_int :: "string \<Rightarrow> (string \<times> string) option" where
  "lex_int s =
     (case s of
        c # cs \<Rightarrow>
          (if c = CHR ''0'' then emit [c] (lex_frac cs)
           else if is_digit_char c
           then emit (c # digits_of cs) (lex_frac (drop (length (digits_of cs)) cs))
           else None)
      | [] \<Rightarrow> None)"

definition lex_num :: "string \<Rightarrow> (string \<times> string) option" where
  "lex_num s =
     (case s of
        c # cs \<Rightarrow> (if c = CHR ''-'' then emit [c] (lex_int cs) else lex_int s)
      | [] \<Rightarrow> None)"

definition lex_word :: "string \<Rightarrow> token \<Rightarrow> string \<Rightarrow> (token \<times> string) option" where
  "lex_word w t s = (if has_prefix s w then Some (t, drop (length w) s) else None)"

definition next_token :: "string \<Rightarrow> (token \<times> string) option" where
  "next_token s0 =
     (case dropWhile is_json_space s0 of
        [] \<Rightarrow> None
      | c # cs \<Rightarrow>
          (if c = CHR 0x7B then Some (TLBrace, cs)
           else if c = CHR 0x7D then Some (TRBrace, cs)
           else if c = CHR ''['' then Some (TLBrack, cs)
           else if c = CHR '']'' then Some (TRBrack, cs)
           else if c = CHR '','' then Some (TComma, cs)
           else if c = CHR '':'' then Some (TColon, cs)
           else if c = CHR 0x22 then map_option (\<lambda>(t, r). (TStr t, r)) (lex_str cs)
           else if c = CHR ''n'' then lex_word ''null'' TNull (c # cs)
           else if c = CHR ''t'' then lex_word ''true'' TTrue (c # cs)
           else if c = CHR ''f'' then lex_word ''false'' TFalse (c # cs)
           else map_option (\<lambda>(t, r). (TNum t, r)) (lex_num (c # cs))))"

lemma emit_Some_iff:
  "emit p res = Some (t, r) \<longleftrightarrow> (\<exists>t'. res = Some (t', r) \<and> t = p @ t')"
  by (auto simp: emit_def)

lemma lex_str_shorter: "lex_str s = Some (t, r) \<Longrightarrow> length r < length s"
proof (induction "length s" arbitrary: s t rule: less_induct)
  case less
  have IH: "length r < length s"
    if "lex_str s' = Some (t', r)" "length s' < length s" for s' t'
    using less.hyps [OF that(2,1)] that(2) by simp
  show ?case using less.prems
    by (subst (asm) lex_str.simps)
      (auto split: list.splits if_splits option.splits prod.splits simp: emit_Some_iff dest: IH)
qed

lemma lex_exp_shorter: "lex_exp s = Some (t, r) \<Longrightarrow> length r \<le> length s"
  by (auto simp: lex_exp_def split: list.splits if_splits)

lemma lex_frac_shorter: "lex_frac s = Some (t, r) \<Longrightarrow> length r \<le> length s"
  by (auto simp: lex_frac_def emit_Some_iff split: list.splits if_splits dest!: lex_exp_shorter)

lemma lex_int_shorter: "lex_int s = Some (t, r) \<Longrightarrow> length r < length s"
  by (auto simp: lex_int_def emit_Some_iff split: list.splits if_splits dest!: lex_frac_shorter)

lemma lex_num_shorter: "lex_num s = Some (t, r) \<Longrightarrow> length r < length s"
  by (auto simp: lex_num_def emit_Some_iff split: list.splits if_splits dest!: lex_int_shorter)

lemma next_token_shorter:
  assumes "next_token s = Some (t, r)"
  shows "length r < length s"
proof -
  obtain c cs where c: "dropWhile is_json_space s = c # cs"
    using assms by (auto simp: next_token_def split: list.splits)
  have "length (c # cs) \<le> length s" unfolding c [symmetric] by (rule length_dropWhile_le)
  moreover have "length r < length (c # cs)"
    using assms c
    by (auto simp: next_token_def lex_word_def split: if_splits
      dest!: lex_str_shorter lex_num_shorter intro: less_imp_le)
  ultimately show ?thesis by simp
qed

section \<open>The grammar\<close>

datatype frame = FArr "json list" | FObj "(string \<times> json) list" string

datatype pstate =
  PVal "frame list"
| PArr0 "frame list"
| PObj0 "frame list"
| PKey "(string \<times> json) list" "frame list"
| PColon "(string \<times> json) list" string "frame list"
| PAfter json "frame list"
| PFail

definition max_depth :: nat where
  "max_depth = 10000"

definition open_ok :: "frame list \<Rightarrow> pstate \<Rightarrow> pstate" where
  "open_ok stk st = (if length stk < max_depth then st else PFail)"

fun begin_val :: "frame list \<Rightarrow> token \<Rightarrow> pstate" where
  "begin_val stk TNull = PAfter JNull stk"
| "begin_val stk TTrue = PAfter (JBool True) stk"
| "begin_val stk TFalse = PAfter (JBool False) stk"
| "begin_val stk (TNum n) = PAfter (JNum n) stk"
| "begin_val stk (TStr s) = PAfter (JStr s) stk"
| "begin_val stk TLBrack = open_ok stk (PArr0 stk)"
| "begin_val stk TLBrace = open_ok stk (PObj0 stk)"
| "begin_val stk _ = PFail"

fun pstep :: "pstate \<Rightarrow> token \<Rightarrow> pstate" where
  "pstep (PVal stk) t = begin_val stk t"
| "pstep (PArr0 stk) TRBrack = PAfter (JArr []) stk"
| "pstep (PArr0 stk) t = begin_val (FArr [] # stk) t"
| "pstep (PObj0 stk) TRBrace = PAfter (JObj []) stk"
| "pstep (PObj0 stk) (TStr k) = PColon [] k stk"
| "pstep (PKey acc stk) (TStr k) = PColon acc k stk"
| "pstep (PColon acc k stk) TColon = PVal (FObj acc k # stk)"
| "pstep (PAfter v (FArr acc # stk)) TComma = PVal (FArr (v # acc) # stk)"
| "pstep (PAfter v (FArr acc # stk)) TRBrack = PAfter (JArr (rev (v # acc))) stk"
| "pstep (PAfter v (FObj acc k # stk)) TComma = PKey ((k, v) # acc) stk"
| "pstep (PAfter v (FObj acc k # stk)) TRBrace = PAfter (JObj (rev ((k, v) # acc))) stk"
| "pstep _ _ = PFail"

text \<open>Read one value: stop as soon as it is complete.\<close>

function read_value :: "pstate \<Rightarrow> string \<Rightarrow> (json \<times> string) option" where
  "read_value st s =
     (case st of
        PFail \<Rightarrow> None
      | PAfter v [] \<Rightarrow> Some (v, s)
      | _ \<Rightarrow>
          (case next_token s of
             None \<Rightarrow> None
           | Some (t, r) \<Rightarrow> read_value (pstep st t) r))"
  by pat_completeness auto
termination
  by (relation "measure (\<lambda>(st, s). length s)") (auto dest: next_token_shorter)

declare read_value.simps [simp del]

text \<open>\<open>json.Unmarshal\<close>: one value and nothing but space after it.\<close>

definition json_parse :: "string \<Rightarrow> json option" where
  "json_parse s =
     (case read_value (PVal []) s of
        None \<Rightarrow> None
      | Some (v, r) \<Rightarrow> (if list_all is_json_space r then Some v else None))"

text \<open>\<open>json.NewDecoder(r).Decode\<close>: the first value of the stream.\<close>

definition json_decode_first :: "string \<Rightarrow> json option" where
  "json_decode_first s = map_option fst (read_value (PVal []) s)"

section \<open>Writing a document\<close>

definition hex_nibble :: "nat \<Rightarrow> char" where
  "hex_nibble n = ''0123456789abcdef'' ! n"

definition u_hex :: "nat \<Rightarrow> string" where
  "u_hex n =
     [CHR 0x5C, CHR ''u'', hex_nibble (n div 4096 mod 16), hex_nibble (n div 256 mod 16),
      hex_nibble (n div 16 mod 16), hex_nibble (n mod 16)]"

text \<open>One ASCII character of a string literal, with HTML-sensitive characters escaped.\<close>

definition enc_ascii :: "char \<Rightarrow> string" where
  "enc_ascii c =
     (if c = CHR 0x22 \<or> c = CHR 0x5C then [CHR 0x5C, c]
      else if c = CHR 0x08 then [CHR 0x5C, CHR ''b'']
      else if c = CHR 0x0C then [CHR 0x5C, CHR ''f'']
      else if c = CHR 0x0A then [CHR 0x5C, CHR ''n'']
      else if c = CHR 0x0D then [CHR 0x5C, CHR ''r'']
      else if c = CHR 0x09 then [CHR 0x5C, CHR ''t'']
      else if (of_char c :: nat) < 32 \<or> c \<in> {CHR ''<'', CHR ''>'', CHR 0x26} then u_hex (of_char c)
      else [c])"

function enc_body :: "string \<Rightarrow> string" where
  "enc_body s =
     (case s of
        [] \<Rightarrow> []
      | c # cs \<Rightarrow>
          (if (of_char c :: nat) < 128 then enc_ascii c @ enc_body cs
           else if rune_len s = 0 then u_hex 0xFFFD @ enc_body cs
           else (if take (rune_len s) s = bytes_of [0xE2, 0x80, 0xA8] then u_hex 0x2028
                 else if take (rune_len s) s = bytes_of [0xE2, 0x80, 0xA9] then u_hex 0x2029
                 else take (rune_len s) s) @ enc_body (drop (rune_len s) s)))"
  by pat_completeness auto
termination
  by (relation "measure length") auto

declare enc_body.simps [simp del]

definition enc_string :: "string \<Rightarrow> string" where
  "enc_string s = [CHR 0x22] @ enc_body s @ [CHR 0x22]"

fun json_print :: "json \<Rightarrow> string" where
  "json_print JNull = ''null''"
| "json_print (JBool b) = (if b then ''true'' else ''false'')"
| "json_print (JNum n) = n"
| "json_print (JStr s) = enc_string s"
| "json_print (JArr xs) = ''['' @ join '','' (map json_print xs) @ '']''"
| "json_print (JObj ms) =
     [CHR 0x7B] @ join '','' (map (\<lambda>(k, v). enc_string k @ '':'' @ json_print v) ms) @ [CHR 0x7D]"

section \<open>Reading back what was written\<close>

function utf8_ok :: "string \<Rightarrow> bool" where
  "utf8_ok s =
     (case s of
        [] \<Rightarrow> True
      | c # cs \<Rightarrow>
          (if (of_char c :: nat) < 128 then utf8_ok cs
           else if rune_len s = 0 then False
           else utf8_ok (drop (rune_len s) s)))"
  by pat_completeness auto
termination
  by (relation "measure length") auto

declare utf8_ok.simps [simp del]

definition num_ok :: "string \<Rightarrow> bool" where
  "num_ok n \<longleftrightarrow> lex_num n = Some (n, [])"

fun json_ok :: "json \<Rightarrow> bool" where
  "json_ok (JNum n) = num_ok n"
| "json_ok (JStr s) = utf8_ok s"
| "json_ok (JArr xs) = list_all json_ok xs"
| "json_ok (JObj ms) = list_all (\<lambda>(k, v). utf8_ok k \<and> json_ok v) ms"
| "json_ok _ = True"

fun json_depth :: "json \<Rightarrow> nat" where
  "json_depth (JArr xs) = Suc (fold max (map json_depth xs) 0)"
| "json_depth (JObj ms) = Suc (fold max (map (\<lambda>(k, v). json_depth v) ms) 0)"
| "json_depth _ = 0"

lemma fold_max_ge: "x \<in> set xs \<or> x \<le> a \<Longrightarrow> x \<le> fold max xs (a :: nat)"
proof (induction xs arbitrary: a)
  case (Cons y xs)
  then show ?case by (cases "x = y") (auto intro: le_max_iff_disj [THEN iffD2])
qed simp

lemma hex_digit_val_nibble: "n < 16 \<Longrightarrow> hex_digit_val (hex_nibble n) = Some n"
proof -
  have "\<forall>n \<in> set [0..<16]. hex_digit_val (hex_nibble n) = Some n" by code_simp
  then show "n < 16 \<Longrightarrow> hex_digit_val (hex_nibble n) = Some n" by simp
qed

lemma hex4_u_hex:
  assumes "n < 65536"
  shows "hex4 (drop 2 (u_hex n) @ s) = Some n"
proof -
  have d: "n div 256 = n div 16 div 16" "n div 4096 = n div 16 div 16 div 16"
    by (simp_all add: div_mult2_eq [symmetric])
  define w x y z where wxyz: "w = n div 4096 mod 16" "x = n div 256 mod 16" "y = n div 16 mod 16"
    "z = n mod 16"
  have "n div 4096 mod 16 = n div 16 div 16 div 16"
    using assms by (simp add: d [symmetric])
  then have eq: "4096 * w + 256 * x + 16 * y + z = n"
    unfolding wxyz d
    using mult_div_mod_eq [of 16 n] mult_div_mod_eq [of 16 "n div 16"]
      mult_div_mod_eq [of 16 "n div 16 div 16"]
    by linarith
  have "w < 16" "x < 16" "y < 16" "z < 16" by (simp_all add: wxyz)
  moreover have "u_hex n = [CHR 0x5C, CHR ''u'', hex_nibble w, hex_nibble x, hex_nibble y, hex_nibble z]"
    by (simp only: u_hex_def wxyz)
  ultimately show ?thesis by (simp add: hex_digit_val_nibble eq)
qed

lemma lex_str_u_hex:
  assumes "n < 65536" "\<not> (0xD800 \<le> n \<and> n < 0xE000)"
  shows "lex_str (u_hex n @ s) = emit (utf8_encode n) (lex_str s)"
proof -
  have u: "u_hex n = CHR 0x5C # CHR ''u'' # drop 2 (u_hex n)" "length (drop 2 (u_hex n)) = 4"
    by (simp_all add: u_hex_def)
  have "u_escape (drop 2 (u_hex n) @ s) = Some (utf8_encode n, 4)"
    using assms by (auto simp: u_escape_def hex4_u_hex)
  then have "lex_str ((CHR 0x5C # CHR ''u'' # drop 2 (u_hex n)) @ s) = emit (utf8_encode n) (lex_str s)"
    using u(2) by (subst lex_str.simps) simp
  then show ?thesis using u(1) by simp
qed

lemma emit_Some [simp]: "emit p (Some (t, r)) = Some (p @ t, r)"
  by (simp add: emit_def)

lemma lex_str_ascii:
  assumes "(of_char c :: nat) < 128"
  shows "lex_str (enc_ascii c @ s) = emit [c] (lex_str s)"
proof -
  have esc: "lex_str (CHR 0x5C # e # s) = emit [c] (lex_str s)"
    if "simple_escape e = Some (of_char c)" "e \<noteq> CHR ''u''" for e
    using that by (subst lex_str.simps) (simp add: bytes_of_def)
  consider "c = CHR 0x22 \<or> c = CHR 0x5C" | "c \<in> {CHR 0x08, CHR 0x0C, CHR 0x0A, CHR 0x0D, CHR 0x09}"
    | "c \<notin> {CHR 0x22, CHR 0x5C, CHR 0x08, CHR 0x0C, CHR 0x0A, CHR 0x0D, CHR 0x09}"
    by blast
  then show ?thesis
  proof cases
    case 1
    then show ?thesis using esc [of c]
      by (auto simp: enc_ascii_def simple_escape_def)
  next
    case 2
    then show ?thesis
      using esc [of "CHR ''b''"] esc [of "CHR ''f''"] esc [of "CHR ''n''"]
        esc [of "CHR ''r''"] esc [of "CHR ''t''"]
      by (auto simp: enc_ascii_def simple_escape_def)
  next
    case 3
    show ?thesis
    proof (cases "(of_char c :: nat) < 32 \<or> c \<in> {CHR ''<'', CHR ''>'', CHR 0x26}")
      case True
      then have "enc_ascii c = u_hex (of_char c)" using 3 by (auto simp: enc_ascii_def)
      moreover have "utf8_encode (of_char c) = [c]"
        using assms by (simp add: utf8_encode_def bytes_of_def)
      ultimately show ?thesis using assms lex_str_u_hex [of "of_char c" s] by simp
    next
      case False
      then have "enc_ascii c = [c]" using 3 by (auto simp: enc_ascii_def)
      then show ?thesis using False 3 assms by (subst lex_str.simps) auto
    qed
  qed
qed

lemma lex_str_rune:
  assumes "s = c # cs" "\<not> (of_char c :: nat) < 128" "rune_len s \<noteq> 0"
  shows "lex_str s = emit (take (rune_len s) s) (lex_str (drop (rune_len s) s))"
proof -
  have "c \<noteq> CHR 0x22" "c \<noteq> CHR 0x5C" "\<not> (of_char c :: nat) < 32" using assms(2) by auto
  then show ?thesis using assms by (subst lex_str.simps) simp
qed

lemma lex_str_enc_body: "utf8_ok s \<Longrightarrow> lex_str (enc_body s @ CHR 0x22 # r) = Some (s, r)"
proof (induction s rule: enc_body.induct)
  case (1 s)
  show ?case
  proof (cases s)
    case Nil
    then show ?thesis by (simp add: enc_body.simps lex_str.simps)
  next
    case (Cons c cs)
    show ?thesis
    proof (cases "(of_char c :: nat) < 128")
      case True
      then have "utf8_ok cs" using "1.prems" Cons by (simp add: utf8_ok.simps [of "c # cs"])
      then have "lex_str (enc_body cs @ CHR 0x22 # r) = Some (cs, r)"
        using "1.IH"(1) [OF Cons True] by simp
      with Cons True show ?thesis
        by (subst enc_body.simps) (simp add: lex_str_ascii)
    next
      case False
      define n where "n = rune_len s"
      have n: "n \<noteq> 0" "utf8_ok (drop n s)"
        using "1.prems" Cons False by (auto simp: n_def utf8_ok.simps [of "c # cs"] split: if_splits)
      have IH: "lex_str (enc_body (drop n s) @ CHR 0x22 # r) = Some (drop n s, r)"
        using "1.IH"(3) [OF Cons False] n by (simp add: n_def)
      have sep: "utf8_encode 0x2028 = bytes_of [0xE2, 0x80, 0xA8]"
        "utf8_encode 0x2029 = bytes_of [0xE2, 0x80, 0xA9]"
        by (simp_all add: utf8_encode_def)
      have plain: "lex_str (take n s @ t) = emit (take n s) (lex_str t)" for t
      proof -
        have len: "rune_len (take n s @ t) = n" "n \<le> length s"
          using n rune_len_prefix [of s n t] rune_len_bound [of s] by (simp_all add: n_def)
        have cons: "take n s @ t = c # (take (n - 1) cs @ t)" using Cons n by (cases n) simp_all
        have "lex_str (take n s @ t) = emit (take n (take n s @ t)) (lex_str (drop n (take n s @ t)))"
          using lex_str_rune [OF cons False] len n(1) by (simp only: not_False_eq_True)
        moreover have "take n (take n s @ t) = take n s" "drop n (take n s @ t) = t"
          using len by simp_all
        ultimately show ?thesis by (simp only:)
      qed
      have "enc_body s = (if take n s = bytes_of [0xE2, 0x80, 0xA8] then u_hex 0x2028
                 else if take n s = bytes_of [0xE2, 0x80, 0xA9] then u_hex 0x2029
                 else take n s) @ enc_body (drop n s)"
        using Cons False n by (subst enc_body.simps) (simp add: n_def)
      then show ?thesis using IH sep
        by (auto simp: plain lex_str_u_hex) (metis append_take_drop_id)+
    qed
  qed
qed

text \<open>A number literal ends where its continuation cannot extend it.\<close>

definition num_stop :: "string \<Rightarrow> bool" where
  "num_stop r \<longleftrightarrow> r = [] \<or> \<not> is_digit_char (hd r) \<and> hd r \<notin> {CHR ''.'', CHR ''e'', CHR ''E''}"

lemma digits_of_append: "num_stop r \<Longrightarrow> digits_of s = s \<Longrightarrow> digits_of (s @ r) = s"
  unfolding digits_of_def
  by (cases r) (auto simp: num_stop_def takeWhile_append takeWhile_eq_all_conv)

lemma digits_of_all: "drop (length (digits_of s)) s = [] \<Longrightarrow> digits_of s = s"
  unfolding digits_of_def by (metis append_Nil2 dropWhile_eq_drop takeWhile_dropWhile_id)

lemma digits_of_append_rest:
  "drop (length (digits_of s)) s \<noteq> [] \<Longrightarrow> digits_of (s @ r) = digits_of s"
  unfolding digits_of_def
  by (metis dropWhile_eq_drop dropWhile_eq_Nil_conv takeWhile_append)

lemma lex_exp_ext:
  assumes "lex_exp s = Some (t, [])" "num_stop r"
  shows "lex_exp (s @ r) = Some (t, r)"
proof (cases s)
  case Nil
  then show ?thesis using assms by (cases r) (auto simp: lex_exp_def num_stop_def)
next
  case (Cons c cs)
  have e: "c = CHR ''e'' \<or> c = CHR ''E''"
    and ds: "digits_of (drop (length (exp_sign cs)) cs) \<noteq> []"
    and t: "t = c # exp_sign cs @ digits_of (drop (length (exp_sign cs)) cs)"
    and rest: "drop (length (digits_of (drop (length (exp_sign cs)) cs)))
      (drop (length (exp_sign cs)) cs) = []"
    using assms(1) Cons by (auto simp: lex_exp_def split: if_splits)
  have all: "digits_of (drop (length (exp_sign cs)) cs) = drop (length (exp_sign cs)) cs"
    by (rule digits_of_all [OF rest])
  have sg: "exp_sign (cs @ r) = exp_sign cs"
    using ds by (cases cs) (auto simp: exp_sign_def digits_of_def)
  have len: "length (exp_sign cs) \<le> length cs" by (auto simp: exp_sign_def)
  then have d: "drop (length (exp_sign cs)) (cs @ r) = drop (length (exp_sign cs)) cs @ r" by simp
  have "digits_of (drop (length (exp_sign cs)) cs @ r) = drop (length (exp_sign cs)) cs"
    by (rule digits_of_append [OF assms(2) all])
  then show ?thesis
    using Cons e ds t all by (auto simp: lex_exp_def sg d)
qed

lemma lex_frac_no_dot: "\<not> (s \<noteq> [] \<and> hd s = CHR ''.'') \<Longrightarrow> lex_frac s = lex_exp s"
  by (cases s) (auto simp: lex_frac_def)

lemma lex_frac_ext:
  assumes "lex_frac s = Some (t, [])" "num_stop r"
  shows "lex_frac (s @ r) = Some (t, r)"
proof (cases "s \<noteq> [] \<and> hd s = CHR ''.''")
  case False
  then have "\<not> (s @ r \<noteq> [] \<and> hd (s @ r) = CHR ''.'')"
    using assms(2) by (cases s; auto simp: num_stop_def)
  then have "lex_frac (s @ r) = lex_exp (s @ r)" by (rule lex_frac_no_dot)
  moreover have "lex_exp s = Some (t, [])" using assms(1) lex_frac_no_dot [OF False] by simp
  ultimately show ?thesis using lex_exp_ext [OF _ assms(2)] by simp
next
  case True
  then obtain cs where s: "s = CHR ''.'' # cs" by (cases s) auto
  obtain t' where ds: "digits_of cs \<noteq> []" and t: "t = CHR ''.'' # digits_of cs @ t'"
    and rest: "lex_exp (drop (length (digits_of cs)) cs) = Some (t', [])"
    using assms(1) s by (auto simp: lex_frac_def emit_Some_iff split: if_splits)
  have "digits_of (cs @ r) = digits_of cs"
    using digits_of_append [OF assms(2)] digits_of_all digits_of_append_rest by metis
  moreover have "length (digits_of cs) \<le> length cs"
    by (simp add: digits_of_def length_takeWhile_le)
  ultimately show ?thesis
    using s ds t lex_exp_ext [OF rest assms(2)] by (simp add: lex_frac_def)
qed

lemma lex_int_ext:
  assumes "lex_int s = Some (t, [])" "num_stop r"
  shows "lex_int (s @ r) = Some (t, r)"
proof -
  obtain c cs where s: "s = c # cs" using assms(1) by (cases s) (auto simp: lex_int_def)
  show ?thesis
  proof (cases "c = CHR ''0''")
    case True
    then show ?thesis using assms s lex_frac_ext [OF _ assms(2)]
      by (auto simp: lex_int_def emit_Some_iff)
  next
    case False
    then obtain t' where c: "is_digit_char c" and t: "t = c # digits_of cs @ t'"
      and rest: "lex_frac (drop (length (digits_of cs)) cs) = Some (t', [])"
      using assms(1) s by (auto simp: lex_int_def emit_Some_iff split: if_splits)
    have "digits_of (cs @ r) = digits_of cs"
      using digits_of_append [OF assms(2)] digits_of_all digits_of_append_rest by metis
    moreover have "length (digits_of cs) \<le> length cs"
      by (simp add: digits_of_def length_takeWhile_le)
    ultimately show ?thesis
      using s c t False lex_frac_ext [OF rest assms(2)] by (simp add: lex_int_def)
  qed
qed

lemma lex_num_ext: "num_ok n \<Longrightarrow> num_stop r \<Longrightarrow> lex_num (n @ r) = Some (n, r)"
  unfolding num_ok_def
  by (cases n) (auto simp: lex_num_def emit_Some_iff lex_int_ext [where s = "_ # _", simplified]
    dest!: lex_int_ext split: if_splits)

lemma num_ok_first: "num_ok n \<Longrightarrow> \<exists>c cs. n = c # cs \<and> (c = CHR ''-'' \<or> is_digit_char c)"
  by (auto simp: num_ok_def lex_num_def lex_int_def split: list.splits if_splits)

lemma join_comma_Cons:
  "join '','' (x # xs) = x @ concat (map (\<lambda>y. CHR '','' # y) xs)"
  by (induction xs arbitrary: x) auto

lemma read_value_step:
  "next_token s = Some (t, r) \<Longrightarrow> st \<noteq> PFail \<Longrightarrow> (\<And>v. st \<noteq> PAfter v []) \<Longrightarrow>
   read_value st s = read_value (pstep st t) r"
  by (subst read_value.simps) (auto split: pstate.splits list.splits)

lemma next_token_punct:
  "next_token (CHR 0x7B # s) = Some (TLBrace, s)" "next_token (CHR 0x7D # s) = Some (TRBrace, s)"
  "next_token (CHR ''['' # s) = Some (TLBrack, s)" "next_token (CHR '']'' # s) = Some (TRBrack, s)"
  "next_token (CHR '','' # s) = Some (TComma, s)" "next_token (CHR '':'' # s) = Some (TColon, s)"
  by (simp_all add: next_token_def is_json_space_def)

lemma next_token_string: "utf8_ok k \<Longrightarrow> next_token (enc_string k @ s) = Some (TStr k, s)"
  by (simp add: next_token_def is_json_space_def enc_string_def lex_str_enc_body)

lemma next_token_words:
  "next_token (''null'' @ s) = Some (TNull, s)"
  "next_token (''true'' @ s) = Some (TTrue, s)"
  "next_token (''false'' @ s) = Some (TFalse, s)"
  by (simp_all add: next_token_def is_json_space_def lex_word_def)

lemma next_token_number:
  assumes "num_ok n" "num_stop s"
  shows "next_token (n @ s) = Some (TNum n, s)"
proof -
  obtain c cs where n: "n = c # cs" and c: "c = CHR ''-'' \<or> is_digit_char c"
    using num_ok_first [OF assms(1)] by blast
  have "c \<notin> {CHR 0x7B, CHR 0x7D, CHR ''['', CHR '']'', CHR '','', CHR '':'', CHR 0x22, CHR ''n'',
      CHR ''t'', CHR ''f''}" "\<not> is_json_space c"
    using c by (auto simp: is_digit_char_def is_json_space_def)
  then show ?thesis
    using lex_num_ext [OF assms] n by (simp add: next_token_def)
qed

text \<open>
  A printed value is one value to the reader, whatever is open around it. The first token is
  never a closing bracket, which is what an array needs for its first element.
\<close>

definition reads_back :: "json \<Rightarrow> bool" where
  "reads_back v \<longleftrightarrow>
     (\<forall>stk r. json_ok v \<longrightarrow> json_depth v + length stk \<le> max_depth \<longrightarrow> num_stop r \<longrightarrow>
       (\<exists>t r'. next_token (json_print v @ r) = Some (t, r') \<and> t \<noteq> TRBrack \<and>
          read_value (begin_val stk t) r' = read_value (PAfter v stk) r))"

lemma reads_backD:
  assumes "reads_back v" "json_ok v" "json_depth v + length stk \<le> max_depth" "num_stop r"
  shows "read_value (PVal stk) (json_print v @ r) = read_value (PAfter v stk) r"
  using assms read_value_step [where st = "PVal stk"]
  by (fastforce simp: reads_back_def)

lemma num_stop_punct [simp]:
  "num_stop (CHR '','' # s)" "num_stop (CHR '']'' # s)" "num_stop (CHR 0x7D # s)" "num_stop []"
  by (auto simp: num_stop_def is_digit_char_def)

lemma read_array_tail:
  assumes "\<forall>x\<in>set xs. reads_back x \<and> json_ok x \<and> json_depth x + Suc (length stk) \<le> max_depth"
  shows "read_value (PAfter v (FArr acc # stk))
           (concat (map (\<lambda>y. CHR '','' # y) (map json_print xs)) @ CHR '']'' # r) =
         read_value (PAfter (JArr (rev acc @ v # xs)) stk) r"
  using assms
proof (induction xs arbitrary: v acc)
  case Nil
  then show ?case by (simp add: read_value_step next_token_punct)
next
  case (Cons x xs)
  define rest where "rest = concat (map (\<lambda>y. CHR '','' # y) (map json_print xs)) @ CHR '']'' # r"
  have stop: "num_stop rest" by (cases xs) (simp_all add: rest_def)
  have "read_value (PVal (FArr (v # acc) # stk)) (json_print x @ rest) =
        read_value (PAfter x (FArr (v # acc) # stk)) rest"
    using Cons.prems stop by (intro reads_backD) auto
  then show ?case
    using Cons.IH [of x "v # acc"] Cons.prems
    by (simp add: read_value_step next_token_punct rest_def)
qed

abbreviation print_member :: "string \<times> json \<Rightarrow> string" where
  "print_member \<equiv> \<lambda>(k, v). enc_string k @ '':'' @ json_print v"

lemma read_object_tail:
  assumes "\<forall>(k, x)\<in>set ms. utf8_ok k \<and> reads_back x \<and> json_ok x \<and>
             json_depth x + Suc (length stk) \<le> max_depth"
  shows "read_value (PAfter v (FObj acc k # stk))
           (concat (map (\<lambda>y. CHR '','' # y) (map print_member ms)) @ CHR 0x7D # r) =
         read_value (PAfter (JObj (rev acc @ (k, v) # ms)) stk) r"
  using assms
proof (induction ms arbitrary: v k acc)
  case Nil
  then show ?case by (simp add: read_value_step next_token_punct)
next
  case (Cons m ms)
  obtain k' x where m: "m = (k', x)" by (cases m)
  define rest where "rest = concat (map (\<lambda>y. CHR '','' # y) (map print_member ms)) @ CHR 0x7D # r"
  have stop: "num_stop rest" by (cases ms) (simp_all add: rest_def)
  have "read_value (PVal (FObj ((k, v) # acc) k' # stk)) (json_print x @ rest) =
        read_value (PAfter x (FObj ((k, v) # acc) k' # stk)) rest"
    using Cons.prems stop m by (intro reads_backD) auto
  then show ?case
    using Cons.IH [of x "(k, v) # acc" k'] Cons.prems m
    by (simp add: read_value_step next_token_punct next_token_string rest_def)
qed

lemma depth_array: "x \<in> set xs \<Longrightarrow> Suc (json_depth x) \<le> json_depth (JArr xs)"
  by (auto intro!: fold_max_ge)

lemma depth_object: "(k, x) \<in> set ms \<Longrightarrow> Suc (json_depth x) \<le> json_depth (JObj ms)"
  by (force intro!: fold_max_ge)

lemma reads_back_scalar:
  "reads_back JNull" "reads_back (JBool b)" "reads_back (JNum n)" "reads_back (JStr s)"
  using next_token_words next_token_number next_token_string
  by (auto simp: reads_back_def)

lemma reads_back_array:
  assumes "\<forall>x\<in>set xs. reads_back x"
  shows "reads_back (JArr xs)"
  unfolding reads_back_def
proof (intro allI impI)
  fix stk :: "frame list" and r
  assume ok: "json_ok (JArr xs)" and d: "json_depth (JArr xs) + length stk \<le> max_depth"
  have all: "\<forall>x\<in>set xs. reads_back x \<and> json_ok x \<and> json_depth x + Suc (length stk) \<le> max_depth"
    using assms ok d depth_array [of _ xs] by (fastforce simp: list_all_iff simp del: json_depth.simps)
  have "open_ok stk (PArr0 stk) = PArr0 stk" using d by (simp add: open_ok_def)
  moreover have "read_value (PArr0 stk) (join '','' (map json_print xs) @ CHR '']'' # r) =
      read_value (PAfter (JArr xs) stk) r"
  proof (cases xs)
    case Nil
    then show ?thesis by (simp add: read_value_step next_token_punct)
  next
    case (Cons x ys)
    define rest where "rest = concat (map (\<lambda>y. CHR '','' # y) (map json_print ys)) @ CHR '']'' # r"
    have "num_stop rest" by (cases ys) (simp_all add: rest_def)
    obtain t r' where t: "next_token (json_print x @ rest) = Some (t, r')" "t \<noteq> TRBrack"
      and eq: "read_value (begin_val (FArr [] # stk) t) r' = read_value (PAfter x (FArr [] # stk)) rest"
    proof -
      have "reads_back x" "json_ok x" "json_depth x + length (FArr [] # stk) \<le> max_depth"
        using all Cons by simp_all
      with \<open>num_stop rest\<close> that show ?thesis unfolding reads_back_def by blast
    qed
    have "pstep (PArr0 stk) t = begin_val (FArr [] # stk) t" using t(2) by (cases t) auto
    with t eq have "read_value (PArr0 stk) (json_print x @ rest) =
        read_value (PAfter x (FArr [] # stk)) rest"
      by (simp add: read_value_step)
    moreover have "\<dots> = read_value (PAfter (JArr xs) stk) r"
      using read_array_tail [of ys stk x "[]" r] all Cons by (simp add: rest_def)
    ultimately show ?thesis using Cons by (simp add: join_comma_Cons rest_def)
  qed
  ultimately show "\<exists>t r'. next_token (json_print (JArr xs) @ r) = Some (t, r') \<and> t \<noteq> TRBrack \<and>
      read_value (begin_val stk t) r' = read_value (PAfter (JArr xs) stk) r"
    by (simp add: next_token_punct)
qed

lemma reads_back_object:
  assumes "\<forall>(k, x)\<in>set ms. reads_back x"
  shows "reads_back (JObj ms)"
  unfolding reads_back_def
proof (intro allI impI)
  fix stk :: "frame list" and r
  assume ok: "json_ok (JObj ms)" and d: "json_depth (JObj ms) + length stk \<le> max_depth"
  have all: "\<forall>(k, x)\<in>set ms. utf8_ok k \<and> reads_back x \<and> json_ok x \<and>
      json_depth x + Suc (length stk) \<le> max_depth"
    using assms ok d depth_object [of _ _ ms] by (fastforce simp: list_all_iff simp del: json_depth.simps)
  have "open_ok stk (PObj0 stk) = PObj0 stk" using d by (simp add: open_ok_def)
  moreover have "read_value (PObj0 stk) (join '','' (map print_member ms) @ CHR 0x7D # r) =
      read_value (PAfter (JObj ms) stk) r"
  proof (cases ms)
    case Nil
    then show ?thesis by (simp add: read_value_step next_token_punct)
  next
    case (Cons m ns)
    obtain k x where m: "m = (k, x)" by (cases m)
    define rest where "rest = concat (map (\<lambda>y. CHR '','' # y) (map print_member ns)) @ CHR 0x7D # r"
    have "num_stop rest" by (cases ns) (simp_all add: rest_def)
    then have "read_value (PVal (FObj [] k # stk)) (json_print x @ rest) =
        read_value (PAfter x (FObj [] k # stk)) rest"
      using all Cons m by (intro reads_backD) auto
    moreover have "\<dots> = read_value (PAfter (JObj ms) stk) r"
      using read_object_tail [of ns stk x "[]" k r] all Cons m by (simp add: rest_def)
    moreover have "utf8_ok k" using all Cons m by simp
    ultimately show ?thesis using Cons m
      by (simp add: join_comma_Cons rest_def read_value_step next_token_string next_token_punct)
  qed
  ultimately show "\<exists>t r'. next_token (json_print (JObj ms) @ r) = Some (t, r') \<and> t \<noteq> TRBrack \<and>
      read_value (begin_val stk t) r' = read_value (PAfter (JObj ms) stk) r"
    by (simp add: next_token_punct)
qed

lemma reads_back_all: "reads_back v"
  by (induction v) (auto intro: reads_back_scalar reads_back_array reads_back_object)

lemma json_parse_print:
  assumes "json_ok v" "json_depth v \<le> max_depth"
  shows "json_parse (json_print v) = Some v"
proof -
  have "read_value (PVal []) (json_print v @ []) = read_value (PAfter v []) []"
    using reads_backD [OF reads_back_all, of v "[]" "[]"] assms by simp
  then show ?thesis by (simp add: json_parse_def read_value.simps)
qed

lemma digits_of_digits: "list_all is_digit_char ds \<Longrightarrow> digits_of ds = ds"
  by (simp add: digits_of_def takeWhile_eq_all_conv list_all_iff)

lemma lex_int_fmt_nat: "lex_int (fmt_nat n) = Some (fmt_nat n, [])"
proof -
  obtain c cs where c: "fmt_nat n = c # cs" by (meson fmt_nat_nonempty list.exhaust)
  have d: "is_digit_char c" "list_all is_digit_char cs"
    using fmt_nat_digits [of n] c by (auto simp: list_all_iff)
  have end_: "lex_frac [] = Some ([], [])" by (simp add: lex_frac_def lex_exp_def)
  show ?thesis
  proof (cases "n = 0")
    case True
    then have "c = CHR ''0''" "cs = []" using c by (simp_all add: fmt_nat.simps)
    then show ?thesis using c end_ by (simp add: lex_int_def)
  next
    case False
    then have "c \<noteq> CHR ''0''" using fmt_nat_leading_digit [of n] c by simp
    then show ?thesis using c d end_ by (simp add: lex_int_def digits_of_digits)
  qed
qed

lemma num_ok_fmt_nat: "num_ok (fmt_nat n)" "num_ok (CHR ''-'' # fmt_nat n)"
proof -
  obtain c cs where c: "fmt_nat n = c # cs" by (meson fmt_nat_nonempty list.exhaust)
  then have "is_digit_char c" using fmt_nat_digits [of n] by simp
  then have "c \<noteq> CHR ''-''" by (auto simp: is_digit_char_def)
  then show "num_ok (fmt_nat n)" using lex_int_fmt_nat [of n] c
    by (simp add: num_ok_def lex_num_def)
  show "num_ok (CHR ''-'' # fmt_nat n)" using lex_int_fmt_nat [of n]
    by (simp add: num_ok_def lex_num_def)
qed

lemma json_ok_json_int: "json_ok (json_int n)"
  by (simp add: json_int_def num_ok_fmt_nat)

end
