(* ===== verification/Gateway_Events.thy ===== *)
theory Gateway_Events
  imports Json
begin

text \<open>
  Package \<open>gateway\<close> (\<open>internal/gateway/events.go\<close>): the normalized events sent to clients. One
  constructor of \<open>event_data\<close> per payload struct, its arguments in the struct's field order, and
  the JSON document each one is marshalled to, with the names and the \<open>omitempty\<close> options of the
  struct tags.
\<close>

datatype event_data =
  MessageStart raw_message
| MessageEnd raw_message
| TextStart int raw_message raw_message
| TextDelta int string raw_message raw_message
| TextEnd int string raw_message raw_message
| ThinkingStart int raw_message raw_message
| ThinkingDelta int string raw_message raw_message
| ThinkingEnd int raw_message raw_message
| ToolCallStart int string raw_message raw_message
| ToolCallDelta int string raw_message raw_message
| ToolCallEnd int raw_message raw_message raw_message
| MessageDone string raw_message raw_message
| MessageError string raw_message raw_message
| RunStart
| RunEnd raw_message
| TurnStart
| TurnEnd raw_message raw_message
| ToolExecStart string string raw_message
| ToolExecUpdate string string raw_message
| ToolExecEnd string string raw_message bool
| CompactionStart string
| CompactionEnd string bool bool
| RetryStart int int int string
| RetryEnd bool int string
| QueueUpdate "string list" "string list"
| UIRequest string string raw_message
| ExtensionError string string string
| Unknown string raw_message

record event =
  ev_type :: string
  ev_session_id :: string
  ev_timestamp :: string
  ev_data :: event_data

text \<open>\<open>NewEvent\<close>; the clock reading, formatted by the caller's environment, is an argument.\<close>

definition new_event :: "string \<Rightarrow> string \<Rightarrow> event_data \<Rightarrow> event" where
  "new_event now typ d = \<lparr>ev_type = typ, ev_session_id = [], ev_timestamp = now, ev_data = d\<rparr>"

definition jstr :: "string \<Rightarrow> string \<Rightarrow> string \<times> json" where
  "jstr k s = (k, JStr s)"

definition msg_partial :: "raw_message \<Rightarrow> raw_message \<Rightarrow> (string \<times> json) list" where
  "msg_partial m p = omit_raw ''message'' m @ omit_raw ''partial'' p"

definition raw_or_null :: "raw_message \<Rightarrow> json" where
  "raw_or_null m = (case m of None \<Rightarrow> JNull | Some v \<Rightarrow> v)"

fun data_members :: "event_data \<Rightarrow> (string \<times> json) list" where
  "data_members (MessageStart m) = omit_raw ''message'' m"
| "data_members (MessageEnd m) = omit_raw ''message'' m"
| "data_members (TextStart i m p) = (''content_index'', json_int i) # msg_partial m p"
| "data_members (TextDelta i d m p) =
     (''content_index'', json_int i) # jstr ''delta'' d # msg_partial m p"
| "data_members (TextEnd i c m p) =
     (''content_index'', json_int i) # jstr ''content'' c # msg_partial m p"
| "data_members (ThinkingStart i m p) = (''content_index'', json_int i) # msg_partial m p"
| "data_members (ThinkingDelta i d m p) =
     (''content_index'', json_int i) # jstr ''delta'' d # msg_partial m p"
| "data_members (ThinkingEnd i m p) = (''content_index'', json_int i) # msg_partial m p"
| "data_members (ToolCallStart i n m p) =
     (''content_index'', json_int i) # omit_if (n = []) ''tool_name'' (JStr n) @ msg_partial m p"
| "data_members (ToolCallDelta i d m p) =
     (''content_index'', json_int i) # jstr ''delta'' d # msg_partial m p"
| "data_members (ToolCallEnd i t m p) =
     (''content_index'', json_int i) # omit_raw ''tool_call'' t @ msg_partial m p"
| "data_members (MessageDone r m p) = jstr ''reason'' r # msg_partial m p"
| "data_members (MessageError r m p) = jstr ''reason'' r # msg_partial m p"
| "data_members RunStart = []"
| "data_members (RunEnd ms) = omit_raw ''messages'' ms"
| "data_members TurnStart = []"
| "data_members (TurnEnd m t) = omit_raw ''message'' m @ omit_raw ''tool_results'' t"
| "data_members (ToolExecStart i n a) =
     [jstr ''tool_call_id'' i, jstr ''tool_name'' n] @ omit_raw ''args'' a"
| "data_members (ToolExecUpdate i n r) =
     [jstr ''tool_call_id'' i, jstr ''tool_name'' n] @ omit_raw ''partial_result'' r"
| "data_members (ToolExecEnd i n r e) =
     [jstr ''tool_call_id'' i, jstr ''tool_name'' n] @ omit_raw ''result'' r @ [(''is_error'', JBool e)]"
| "data_members (CompactionStart r) = [jstr ''reason'' r]"
| "data_members (CompactionEnd r a w) =
     [jstr ''reason'' r, (''aborted'', JBool a), (''will_retry'', JBool w)]"
| "data_members (RetryStart a m d e) =
     [(''attempt'', json_int a), (''max_attempts'', json_int m), (''delay_ms'', json_int d),
      jstr ''error'' e]"
| "data_members (RetryEnd s a f) =
     [(''success'', JBool s), (''attempt'', json_int a)] @ omit_if (f = []) ''final_error'' (JStr f)"
| "data_members (QueueUpdate s f) =
     [(''steering'', JArr (map JStr s)), (''follow_up'', JArr (map JStr f))]"
| "data_members (UIRequest i m p) =
     [jstr ''id'' i, jstr ''method'' m, (''payload'', raw_or_null p)]"
| "data_members (ExtensionError x ev e) =
     [jstr ''extension_path'' x, jstr ''event'' ev, jstr ''error'' e]"
| "data_members (Unknown t r) = [jstr ''event_type'' t, (''raw'', raw_or_null r)]"

definition event_json :: "event \<Rightarrow> json" where
  "event_json e =
     JObj ([jstr ''type'' (ev_type e)] @ omit_if (ev_session_id e = []) ''session_id'' (JStr (ev_session_id e))
       @ [jstr ''timestamp'' (ev_timestamp e), (''data'', JObj (data_members (ev_data e)))])"

text \<open>The type string that goes with each payload struct.\<close>

fun data_type :: "event_data \<Rightarrow> string" where
  "data_type (MessageStart m) = ''agent.message.start''"
| "data_type (MessageEnd m) = ''agent.message.end''"
| "data_type (TextStart i m p) = ''agent.text.start''"
| "data_type (TextDelta i d m p) = ''agent.text.delta''"
| "data_type (TextEnd i c m p) = ''agent.text.end''"
| "data_type (ThinkingStart i m p) = ''agent.thinking.start''"
| "data_type (ThinkingDelta i d m p) = ''agent.thinking.delta''"
| "data_type (ThinkingEnd i m p) = ''agent.thinking.end''"
| "data_type (ToolCallStart i n m p) = ''agent.toolcall.start''"
| "data_type (ToolCallDelta i d m p) = ''agent.toolcall.delta''"
| "data_type (ToolCallEnd i t m p) = ''agent.toolcall.end''"
| "data_type (MessageDone r m p) = ''agent.message.done''"
| "data_type (MessageError r m p) = ''agent.message.error''"
| "data_type RunStart = ''agent.run.start''"
| "data_type (RunEnd ms) = ''agent.run.end''"
| "data_type TurnStart = ''agent.turn.start''"
| "data_type (TurnEnd m t) = ''agent.turn.end''"
| "data_type (ToolExecStart i n a) = ''agent.tool.start''"
| "data_type (ToolExecUpdate i n r) = ''agent.tool.update''"
| "data_type (ToolExecEnd i n r e) = ''agent.tool.end''"
| "data_type (CompactionStart r) = ''agent.compaction.start''"
| "data_type (CompactionEnd r a w) = ''agent.compaction.end''"
| "data_type (RetryStart a m d e) = ''agent.retry.start''"
| "data_type (RetryEnd s a f) = ''agent.retry.end''"
| "data_type (QueueUpdate s f) = ''agent.queue.update''"
| "data_type (UIRequest i m p) = ''agent.ui.request''"
| "data_type (ExtensionError x ev e) = ''agent.extension.error''"
| "data_type (Unknown t r) = ''agent.unknown''"

text \<open>An event is well typed when its type string is the one of its payload.\<close>

definition well_typed_event :: "event \<Rightarrow> bool" where
  "well_typed_event e \<longleftrightarrow> ev_type e = data_type (ev_data e)"

lemma new_event_simps [simp]:
  "ev_type (new_event now t d) = t" "ev_data (new_event now t d) = d"
  "ev_timestamp (new_event now t d) = now" "ev_session_id (new_event now t d) = []"
  by (simp_all add: new_event_def)

lemma well_typed_new_event [simp]: "well_typed_event (new_event now t d) \<longleftrightarrow> t = data_type d"
  by (simp add: well_typed_event_def)

text \<open>The type string decides which payload struct a well-typed event carries.\<close>

lemma well_typed_message_end:
  "well_typed_event e \<Longrightarrow> ev_type e = ''agent.message.end'' \<longleftrightarrow> (\<exists>m. ev_data e = MessageEnd m)"
  by (cases "ev_data e") (auto simp: well_typed_event_def)

lemma well_typed_run_end:
  "well_typed_event e \<Longrightarrow> ev_type e = ''agent.run.end'' \<longleftrightarrow> (\<exists>m. ev_data e = RunEnd m)"
  by (cases "ev_data e") (auto simp: well_typed_event_def)

end
