(* ===== verification/Rpc_Mapper.thy ===== *)
theory Rpc_Mapper
  imports Gateway_Events Json_Text
begin

text \<open>
  Package \<open>rpc\<close>: the records of the agent's JSONL protocol (\<open>internal/rpc/events.go\<close>) with
  their decoders, and \<open>MapRPCLine\<close> (\<open>internal/rpc/mapper.go\<close>), which turns one line of the
  agent's output into normalized gateway events. The argument \<open>now\<close> is the formatted clock
  reading that \<open>NewEvent\<close> takes.
\<close>

section \<open>Protocol records\<close>

record rpc_event =
  re_type :: string

definition rpc_event_fields :: "(string \<times> rpc_event field_decoder) list" where
  "rpc_event_fields = [(''type'', field (\<lambda>x s. s\<lparr>re_type := x\<rparr>) re_type dec_string)]"

definition decode_rpc_event :: "json \<Rightarrow> rpc_event option" where
  "decode_rpc_event j = decode_struct rpc_event_fields j \<lparr>re_type = []\<rparr>"

record assistant_message_event =
  ame_type :: string
  ame_content_index :: int
  ame_delta :: string
  ame_content :: string
  ame_thinking :: string
  ame_tool_call :: raw_message
  ame_tool_name :: string
  ame_reason :: string
  ame_partial :: raw_message

definition ame_zero :: assistant_message_event where
  "ame_zero = \<lparr>ame_type = [], ame_content_index = 0, ame_delta = [], ame_content = [], ame_thinking = [],
     ame_tool_call = None, ame_tool_name = [], ame_reason = [], ame_partial = None\<rparr>"

definition ame_fields :: "(string \<times> assistant_message_event field_decoder) list" where
  "ame_fields =
     [(''type'', field (\<lambda>x s. s\<lparr>ame_type := x\<rparr>) ame_type dec_string),
      (''contentIndex'', field (\<lambda>x s. s\<lparr>ame_content_index := x\<rparr>) ame_content_index dec_int),
      (''delta'', field (\<lambda>x s. s\<lparr>ame_delta := x\<rparr>) ame_delta dec_string),
      (''content'', field (\<lambda>x s. s\<lparr>ame_content := x\<rparr>) ame_content dec_string),
      (''thinking'', field (\<lambda>x s. s\<lparr>ame_thinking := x\<rparr>) ame_thinking dec_string),
      (''toolCall'', field (\<lambda>x s. s\<lparr>ame_tool_call := x\<rparr>) ame_tool_call dec_raw),
      (''toolName'', field (\<lambda>x s. s\<lparr>ame_tool_name := x\<rparr>) ame_tool_name dec_string),
      (''reason'', field (\<lambda>x s. s\<lparr>ame_reason := x\<rparr>) ame_reason dec_string),
      (''partial'', field (\<lambda>x s. s\<lparr>ame_partial := x\<rparr>) ame_partial dec_raw)]"

record message_update_event =
  mu_type :: string
  mu_message :: raw_message
  mu_ame :: assistant_message_event

definition message_update_fields :: "(string \<times> message_update_event field_decoder) list" where
  "message_update_fields =
     [(''type'', field (\<lambda>x s. s\<lparr>mu_type := x\<rparr>) mu_type dec_string),
      (''message'', field (\<lambda>x s. s\<lparr>mu_message := x\<rparr>) mu_message dec_raw),
      (''assistantMessageEvent'', field (\<lambda>x s. s\<lparr>mu_ame := x\<rparr>) mu_ame (decode_struct ame_fields))]"

definition decode_message_update :: "json \<Rightarrow> message_update_event option" where
  "decode_message_update j =
     decode_struct message_update_fields j \<lparr>mu_type = [], mu_message = None, mu_ame = ame_zero\<rparr>"

record tool_exec_start_event =
  ts_type :: string
  ts_call_id :: string
  ts_name :: string
  ts_args :: raw_message

definition decode_tool_exec_start :: "json \<Rightarrow> tool_exec_start_event option" where
  "decode_tool_exec_start j =
     decode_struct
       [(''type'', field (\<lambda>x s. s\<lparr>ts_type := x\<rparr>) ts_type dec_string),
        (''toolCallId'', field (\<lambda>x s. s\<lparr>ts_call_id := x\<rparr>) ts_call_id dec_string),
        (''toolName'', field (\<lambda>x s. s\<lparr>ts_name := x\<rparr>) ts_name dec_string),
        (''args'', field (\<lambda>x s. s\<lparr>ts_args := x\<rparr>) ts_args dec_raw)]
       j \<lparr>ts_type = [], ts_call_id = [], ts_name = [], ts_args = None\<rparr>"

record tool_exec_update_event =
  tu_type :: string
  tu_call_id :: string
  tu_name :: string
  tu_partial_result :: raw_message

definition decode_tool_exec_update :: "json \<Rightarrow> tool_exec_update_event option" where
  "decode_tool_exec_update j =
     decode_struct
       [(''type'', field (\<lambda>x s. s\<lparr>tu_type := x\<rparr>) tu_type dec_string),
        (''toolCallId'', field (\<lambda>x s. s\<lparr>tu_call_id := x\<rparr>) tu_call_id dec_string),
        (''toolName'', field (\<lambda>x s. s\<lparr>tu_name := x\<rparr>) tu_name dec_string),
        (''partialResult'', field (\<lambda>x s. s\<lparr>tu_partial_result := x\<rparr>) tu_partial_result dec_raw)]
       j \<lparr>tu_type = [], tu_call_id = [], tu_name = [], tu_partial_result = None\<rparr>"

record tool_exec_end_event =
  te_type :: string
  te_call_id :: string
  te_name :: string
  te_result :: raw_message
  te_is_error :: bool

definition decode_tool_exec_end :: "json \<Rightarrow> tool_exec_end_event option" where
  "decode_tool_exec_end j =
     decode_struct
       [(''type'', field (\<lambda>x s. s\<lparr>te_type := x\<rparr>) te_type dec_string),
        (''toolCallId'', field (\<lambda>x s. s\<lparr>te_call_id := x\<rparr>) te_call_id dec_string),
        (''toolName'', field (\<lambda>x s. s\<lparr>te_name := x\<rparr>) te_name dec_string),
        (''result'', field (\<lambda>x s. s\<lparr>te_result := x\<rparr>) te_result dec_raw),
        (''isError'', field (\<lambda>x s. s\<lparr>te_is_error := x\<rparr>) te_is_error dec_bool)]
       j \<lparr>te_type = [], te_call_id = [], te_name = [], te_result = None, te_is_error = False\<rparr>"

record compaction_start_event =
  cs_type :: string
  cs_reason :: string

definition decode_compaction_start :: "json \<Rightarrow> compaction_start_event option" where
  "decode_compaction_start j =
     decode_struct
       [(''type'', field (\<lambda>x s. s\<lparr>cs_type := x\<rparr>) cs_type dec_string),
        (''reason'', field (\<lambda>x s. s\<lparr>cs_reason := x\<rparr>) cs_reason dec_string)]
       j \<lparr>cs_type = [], cs_reason = []\<rparr>"

record compaction_end_event =
  ce_type :: string
  ce_reason :: string
  ce_result :: raw_message
  ce_aborted :: bool
  ce_will_retry :: bool

definition decode_compaction_end :: "json \<Rightarrow> compaction_end_event option" where
  "decode_compaction_end j =
     decode_struct
       [(''type'', field (\<lambda>x s. s\<lparr>ce_type := x\<rparr>) ce_type dec_string),
        (''reason'', field (\<lambda>x s. s\<lparr>ce_reason := x\<rparr>) ce_reason dec_string),
        (''result'', field (\<lambda>x s. s\<lparr>ce_result := x\<rparr>) ce_result dec_raw),
        (''aborted'', field (\<lambda>x s. s\<lparr>ce_aborted := x\<rparr>) ce_aborted dec_bool),
        (''willRetry'', field (\<lambda>x s. s\<lparr>ce_will_retry := x\<rparr>) ce_will_retry dec_bool)]
       j \<lparr>ce_type = [], ce_reason = [], ce_result = None, ce_aborted = False, ce_will_retry = False\<rparr>"

record retry_start_event =
  rs_type :: string
  rs_attempt :: int
  rs_max_attempts :: int
  rs_delay_ms :: int
  rs_error_message :: string

definition decode_retry_start :: "json \<Rightarrow> retry_start_event option" where
  "decode_retry_start j =
     decode_struct
       [(''type'', field (\<lambda>x s. s\<lparr>rs_type := x\<rparr>) rs_type dec_string),
        (''attempt'', field (\<lambda>x s. s\<lparr>rs_attempt := x\<rparr>) rs_attempt dec_int),
        (''maxAttempts'', field (\<lambda>x s. s\<lparr>rs_max_attempts := x\<rparr>) rs_max_attempts dec_int),
        (''delayMs'', field (\<lambda>x s. s\<lparr>rs_delay_ms := x\<rparr>) rs_delay_ms dec_int),
        (''errorMessage'', field (\<lambda>x s. s\<lparr>rs_error_message := x\<rparr>) rs_error_message dec_string)]
       j \<lparr>rs_type = [], rs_attempt = 0, rs_max_attempts = 0, rs_delay_ms = 0, rs_error_message = []\<rparr>"

record retry_end_event =
  rn_type :: string
  rn_success :: bool
  rn_attempt :: int
  rn_final_error :: string

definition decode_retry_end :: "json \<Rightarrow> retry_end_event option" where
  "decode_retry_end j =
     decode_struct
       [(''type'', field (\<lambda>x s. s\<lparr>rn_type := x\<rparr>) rn_type dec_string),
        (''success'', field (\<lambda>x s. s\<lparr>rn_success := x\<rparr>) rn_success dec_bool),
        (''attempt'', field (\<lambda>x s. s\<lparr>rn_attempt := x\<rparr>) rn_attempt dec_int),
        (''finalError'', field (\<lambda>x s. s\<lparr>rn_final_error := x\<rparr>) rn_final_error dec_string)]
       j \<lparr>rn_type = [], rn_success = False, rn_attempt = 0, rn_final_error = []\<rparr>"

record queue_update_event =
  qu_type :: string
  qu_steering :: "string list option"
  qu_follow_up :: "string list option"

definition decode_queue_update :: "json \<Rightarrow> queue_update_event option" where
  "decode_queue_update j =
     decode_struct
       [(''type'', field (\<lambda>x s. s\<lparr>qu_type := x\<rparr>) qu_type dec_string),
        (''steering'', field (\<lambda>x s. s\<lparr>qu_steering := x\<rparr>) qu_steering dec_string_list),
        (''followUp'', field (\<lambda>x s. s\<lparr>qu_follow_up := x\<rparr>) qu_follow_up dec_string_list)]
       j \<lparr>qu_type = [], qu_steering = None, qu_follow_up = None\<rparr>"

record agent_end_event =
  ae_type :: string
  ae_messages :: raw_message

definition decode_agent_end :: "json \<Rightarrow> agent_end_event option" where
  "decode_agent_end j =
     decode_struct
       [(''type'', field (\<lambda>x s. s\<lparr>ae_type := x\<rparr>) ae_type dec_string),
        (''messages'', field (\<lambda>x s. s\<lparr>ae_messages := x\<rparr>) ae_messages dec_raw)]
       j \<lparr>ae_type = [], ae_messages = None\<rparr>"

record turn_end_event =
  tn_type :: string
  tn_message :: raw_message
  tn_tool_results :: raw_message

definition decode_turn_end :: "json \<Rightarrow> turn_end_event option" where
  "decode_turn_end j =
     decode_struct
       [(''type'', field (\<lambda>x s. s\<lparr>tn_type := x\<rparr>) tn_type dec_string),
        (''message'', field (\<lambda>x s. s\<lparr>tn_message := x\<rparr>) tn_message dec_raw),
        (''toolResults'', field (\<lambda>x s. s\<lparr>tn_tool_results := x\<rparr>) tn_tool_results dec_raw)]
       j \<lparr>tn_type = [], tn_message = None, tn_tool_results = None\<rparr>"

record extension_ui_request_event =
  eu_type :: string
  eu_id :: string
  eu_method :: string

definition decode_extension_ui_request :: "json \<Rightarrow> extension_ui_request_event option" where
  "decode_extension_ui_request j =
     decode_struct
       [(''type'', field (\<lambda>x s. s\<lparr>eu_type := x\<rparr>) eu_type dec_string),
        (''id'', field (\<lambda>x s. s\<lparr>eu_id := x\<rparr>) eu_id dec_string),
        (''method'', field (\<lambda>x s. s\<lparr>eu_method := x\<rparr>) eu_method dec_string)]
       j \<lparr>eu_type = [], eu_id = [], eu_method = []\<rparr>"

record extension_error_event =
  ee_type :: string
  ee_extension_path :: string
  ee_event :: string
  ee_error :: string

definition decode_extension_error :: "json \<Rightarrow> extension_error_event option" where
  "decode_extension_error j =
     decode_struct
       [(''type'', field (\<lambda>x s. s\<lparr>ee_type := x\<rparr>) ee_type dec_string),
        (''extensionPath'', field (\<lambda>x s. s\<lparr>ee_extension_path := x\<rparr>) ee_extension_path dec_string),
        (''event'', field (\<lambda>x s. s\<lparr>ee_event := x\<rparr>) ee_event dec_string),
        (''error'', field (\<lambda>x s. s\<lparr>ee_error := x\<rparr>) ee_error dec_string)]
       j \<lparr>ee_type = [], ee_extension_path = [], ee_event = [], ee_error = []\<rparr>"

text \<open>The anonymous struct of \<open>mapMessageStart\<close> and \<open>mapMessageEnd\<close>.\<close>

record message_env =
  me_message :: raw_message

definition decode_message_env :: "json \<Rightarrow> message_env option" where
  "decode_message_env j =
     decode_struct [(''message'', field (\<lambda>x s. s\<lparr>me_message := x\<rparr>) me_message dec_raw)]
       j \<lparr>me_message = None\<rparr>"

section \<open>Mapping one line\<close>

definition one :: "string \<Rightarrow> string \<Rightarrow> event_data \<Rightarrow> event list" where
  "one now typ d = [new_event now typ d]"

definition map_message_update :: "string \<Rightarrow> json \<Rightarrow> event list" where
  "map_message_update now raw =
     (case decode_message_update raw of
        None \<Rightarrow> []
      | Some mu \<Rightarrow>
          (case mu_ame mu of a \<Rightarrow>
             if ame_type a = ''text_start'' then
               one now ''agent.text.start'' (TextStart (ame_content_index a) (mu_message mu) (ame_partial a))
             else if ame_type a = ''text_delta'' then
               one now ''agent.text.delta''
                 (TextDelta (ame_content_index a) (ame_delta a) (mu_message mu) (ame_partial a))
             else if ame_type a = ''text_end'' then
               one now ''agent.text.end''
                 (TextEnd (ame_content_index a) (ame_content a) (mu_message mu) (ame_partial a))
             else if ame_type a = ''thinking_start'' then
               one now ''agent.thinking.start'' (ThinkingStart (ame_content_index a) (mu_message mu) (ame_partial a))
             else if ame_type a = ''thinking_delta'' then
               one now ''agent.thinking.delta''
                 (ThinkingDelta (ame_content_index a) (ame_delta a) (mu_message mu) (ame_partial a))
             else if ame_type a = ''thinking_end'' then
               one now ''agent.thinking.end'' (ThinkingEnd (ame_content_index a) (mu_message mu) (ame_partial a))
             else if ame_type a = ''toolcall_start'' then
               one now ''agent.toolcall.start''
                 (ToolCallStart (ame_content_index a) (ame_tool_name a) (mu_message mu) (ame_partial a))
             else if ame_type a = ''toolcall_delta'' then
               one now ''agent.toolcall.delta''
                 (ToolCallDelta (ame_content_index a) (ame_delta a) (mu_message mu) (ame_partial a))
             else if ame_type a = ''toolcall_end'' then
               one now ''agent.toolcall.end''
                 (ToolCallEnd (ame_content_index a) (ame_tool_call a) (mu_message mu) (ame_partial a))
             else if ame_type a = ''done'' then
               one now ''agent.message.done'' (MessageDone (ame_reason a) (mu_message mu) (ame_partial a))
             else if ame_type a = ''error'' then
               one now ''agent.message.error'' (MessageError (ame_reason a) (mu_message mu) (ame_partial a))
             else if ame_type a = ''start'' then
               one now ''agent.message.start'' (MessageStart (mu_message mu))
             else
               one now ''agent.unknown'' (Unknown (''message_update.'' @ ame_type a) (Some raw))))"

definition map_message_start :: "string \<Rightarrow> json \<Rightarrow> event list" where
  "map_message_start now raw =
     (case decode_message_env raw of
        None \<Rightarrow> one now ''agent.message.start'' (MessageStart None)
      | Some e \<Rightarrow> one now ''agent.message.start'' (MessageStart (me_message e)))"

definition map_message_end :: "string \<Rightarrow> json \<Rightarrow> event list" where
  "map_message_end now raw =
     (case decode_message_env raw of
        None \<Rightarrow> one now ''agent.message.end'' (MessageEnd None)
      | Some e \<Rightarrow> one now ''agent.message.end'' (MessageEnd (me_message e)))"

definition map_agent_end :: "string \<Rightarrow> json \<Rightarrow> event list" where
  "map_agent_end now raw =
     (case decode_agent_end raw of
        None \<Rightarrow> one now ''agent.run.end'' (RunEnd None)
      | Some e \<Rightarrow> one now ''agent.run.end'' (RunEnd (ae_messages e)))"

definition map_turn_end :: "string \<Rightarrow> json \<Rightarrow> event list" where
  "map_turn_end now raw =
     (case decode_turn_end raw of
        None \<Rightarrow> one now ''agent.turn.end'' (TurnEnd None None)
      | Some e \<Rightarrow> one now ''agent.turn.end'' (TurnEnd (tn_message e) (tn_tool_results e)))"

definition map_tool_exec_start :: "string \<Rightarrow> json \<Rightarrow> event list" where
  "map_tool_exec_start now raw =
     (case decode_tool_exec_start raw of
        None \<Rightarrow> []
      | Some e \<Rightarrow> one now ''agent.tool.start'' (ToolExecStart (ts_call_id e) (ts_name e) (ts_args e)))"

definition map_tool_exec_update :: "string \<Rightarrow> json \<Rightarrow> event list" where
  "map_tool_exec_update now raw =
     (case decode_tool_exec_update raw of
        None \<Rightarrow> []
      | Some e \<Rightarrow>
          one now ''agent.tool.update'' (ToolExecUpdate (tu_call_id e) (tu_name e) (tu_partial_result e)))"

definition map_tool_exec_end :: "string \<Rightarrow> json \<Rightarrow> event list" where
  "map_tool_exec_end now raw =
     (case decode_tool_exec_end raw of
        None \<Rightarrow> []
      | Some e \<Rightarrow>
          one now ''agent.tool.end'' (ToolExecEnd (te_call_id e) (te_name e) (te_result e) (te_is_error e)))"

definition map_compaction_start :: "string \<Rightarrow> json \<Rightarrow> event list" where
  "map_compaction_start now raw =
     (case decode_compaction_start raw of
        None \<Rightarrow> one now ''agent.compaction.start'' (CompactionStart [])
      | Some e \<Rightarrow> one now ''agent.compaction.start'' (CompactionStart (cs_reason e)))"

definition map_compaction_end :: "string \<Rightarrow> json \<Rightarrow> event list" where
  "map_compaction_end now raw =
     (case decode_compaction_end raw of
        None \<Rightarrow> one now ''agent.compaction.end'' (CompactionEnd [] False False)
      | Some e \<Rightarrow>
          one now ''agent.compaction.end'' (CompactionEnd (ce_reason e) (ce_aborted e) (ce_will_retry e)))"

definition map_retry_start :: "string \<Rightarrow> json \<Rightarrow> event list" where
  "map_retry_start now raw =
     (case decode_retry_start raw of
        None \<Rightarrow> []
      | Some e \<Rightarrow>
          one now ''agent.retry.start''
            (RetryStart (rs_attempt e) (rs_max_attempts e) (rs_delay_ms e) (rs_error_message e)))"

definition map_retry_end :: "string \<Rightarrow> json \<Rightarrow> event list" where
  "map_retry_end now raw =
     (case decode_retry_end raw of
        None \<Rightarrow> []
      | Some e \<Rightarrow>
          one now ''agent.retry.end'' (RetryEnd (rn_success e) (rn_attempt e) (rn_final_error e)))"

definition map_queue_update :: "string \<Rightarrow> json \<Rightarrow> event list" where
  "map_queue_update now raw =
     (case decode_queue_update raw of
        None \<Rightarrow> []
      | Some e \<Rightarrow>
          one now ''agent.queue.update''
            (QueueUpdate (case qu_steering e of None \<Rightarrow> [] | Some s \<Rightarrow> s)
               (case qu_follow_up e of None \<Rightarrow> [] | Some f \<Rightarrow> f)))"

definition map_extension_ui_request :: "string \<Rightarrow> json \<Rightarrow> event list" where
  "map_extension_ui_request now raw =
     (case decode_extension_ui_request raw of
        None \<Rightarrow> []
      | Some e \<Rightarrow> one now ''agent.ui.request'' (UIRequest (eu_id e) (eu_method e) (Some raw)))"

definition map_extension_error :: "string \<Rightarrow> json \<Rightarrow> event list" where
  "map_extension_error now raw =
     (case decode_extension_error raw of
        None \<Rightarrow> []
      | Some e \<Rightarrow>
          one now ''agent.extension.error'' (ExtensionError (ee_extension_path e) (ee_event e) (ee_error e)))"

text \<open>The switch of \<open>MapRPCLine\<close> on a line that parses.\<close>

definition map_rpc_value :: "string \<Rightarrow> json \<Rightarrow> event list" where
  "map_rpc_value now raw =
     (case decode_rpc_event raw of
        None \<Rightarrow> []
      | Some env \<Rightarrow>
          (case re_type env of t \<Rightarrow>
             if t = ''response'' then []
             else if t = ''message_update'' then map_message_update now raw
             else if t = ''agent_start'' then one now ''agent.run.start'' RunStart
             else if t = ''agent_end'' then map_agent_end now raw
             else if t = ''turn_start'' then one now ''agent.turn.start'' TurnStart
             else if t = ''turn_end'' then map_turn_end now raw
             else if t = ''message_start'' then map_message_start now raw
             else if t = ''message_end'' then map_message_end now raw
             else if t = ''tool_execution_start'' then map_tool_exec_start now raw
             else if t = ''tool_execution_update'' then map_tool_exec_update now raw
             else if t = ''tool_execution_end'' then map_tool_exec_end now raw
             else if t = ''compaction_start'' then map_compaction_start now raw
             else if t = ''compaction_end'' then map_compaction_end now raw
             else if t = ''auto_retry_start'' then map_retry_start now raw
             else if t = ''auto_retry_end'' then map_retry_end now raw
             else if t = ''queue_update'' then map_queue_update now raw
             else if t = ''extension_ui_request'' then map_extension_ui_request now raw
             else if t = ''extension_error'' then map_extension_error now raw
             else one now ''agent.unknown'' (Unknown t (Some raw))))"

definition map_rpc_line :: "string \<Rightarrow> string \<Rightarrow> event list" where
  "map_rpc_line now line =
     (case json_parse line of None \<Rightarrow> [] | Some raw \<Rightarrow> map_rpc_value now raw)"

section \<open>Facts about the mapping\<close>

lemmas strict_mapper_defs =
  map_tool_exec_start_def map_tool_exec_update_def map_tool_exec_end_def map_retry_start_def
  map_retry_end_def map_queue_update_def map_extension_ui_request_def map_extension_error_def

lemmas lenient_mapper_defs =
  map_message_start_def map_message_end_def map_agent_end_def map_turn_end_def
  map_compaction_start_def map_compaction_end_def

text \<open>What every mapper returns: at most one event, fresh, stamped and well typed.\<close>

definition fresh_events :: "string \<Rightarrow> event list \<Rightarrow> bool" where
  "fresh_events now es \<longleftrightarrow>
     length es \<le> 1 \<and>
     (\<forall>e\<in>set es. well_typed_event e \<and> ev_timestamp e = now \<and> ev_session_id e = [])"

lemma fresh_events_Nil [simp]: "fresh_events now []"
  by (simp add: fresh_events_def)

lemma fresh_events_one [simp]: "fresh_events now (one now t d) \<longleftrightarrow> t = data_type d"
  by (simp add: fresh_events_def one_def)

lemma fresh_events_strict:
  "fresh_events now (map_tool_exec_start now raw)" "fresh_events now (map_tool_exec_update now raw)"
  "fresh_events now (map_tool_exec_end now raw)" "fresh_events now (map_retry_start now raw)"
  "fresh_events now (map_retry_end now raw)" "fresh_events now (map_queue_update now raw)"
  "fresh_events now (map_extension_ui_request now raw)" "fresh_events now (map_extension_error now raw)"
  by (simp_all add: strict_mapper_defs split: option.split)

lemma fresh_events_lenient:
  "fresh_events now (map_message_start now raw)" "fresh_events now (map_message_end now raw)"
  "fresh_events now (map_agent_end now raw)" "fresh_events now (map_turn_end now raw)"
  "fresh_events now (map_compaction_start now raw)" "fresh_events now (map_compaction_end now raw)"
  by (simp_all add: lenient_mapper_defs split: option.split)

lemma fresh_events_message_update: "fresh_events now (map_message_update now raw)"
  by (simp add: map_message_update_def split: option.split)

lemma fresh_map_rpc_value: "fresh_events now (map_rpc_value now raw)"
  by (simp add: map_rpc_value_def fresh_events_message_update fresh_events_strict
    fresh_events_lenient split: option.split)

lemma fresh_map_rpc_line: "fresh_events now (map_rpc_line now line)"
  by (simp add: map_rpc_line_def fresh_map_rpc_value split: option.split)

lemma one_not_Nil [simp]: "one now t d \<noteq> []"
  by (simp add: one_def)

lemma map_message_update_Nil_iff [simp]:
  "map_message_update now raw = [] \<longleftrightarrow> decode_message_update raw = None"
  by (simp add: map_message_update_def split: option.split)

lemma strict_mapper_Nil_iff [simp]:
  "map_tool_exec_start now raw = [] \<longleftrightarrow> decode_tool_exec_start raw = None"
  "map_tool_exec_update now raw = [] \<longleftrightarrow> decode_tool_exec_update raw = None"
  "map_tool_exec_end now raw = [] \<longleftrightarrow> decode_tool_exec_end raw = None"
  "map_retry_start now raw = [] \<longleftrightarrow> decode_retry_start raw = None"
  "map_retry_end now raw = [] \<longleftrightarrow> decode_retry_end raw = None"
  "map_queue_update now raw = [] \<longleftrightarrow> decode_queue_update raw = None"
  "map_extension_ui_request now raw = [] \<longleftrightarrow> decode_extension_ui_request raw = None"
  "map_extension_error now raw = [] \<longleftrightarrow> decode_extension_error raw = None"
  by (simp_all add: strict_mapper_defs split: option.split)

lemma lenient_mapper_nonempty [simp]:
  "map_message_start now raw \<noteq> []" "map_message_end now raw \<noteq> []" "map_agent_end now raw \<noteq> []"
  "map_turn_end now raw \<noteq> []" "map_compaction_start now raw \<noteq> []" "map_compaction_end now raw \<noteq> []"
  by (simp_all add: lenient_mapper_defs split: option.split)

text \<open>
  The only lines of a known shape that are lost: those of a strict type whose struct does not
  decode.
\<close>

definition strict_failure :: "string \<Rightarrow> json \<Rightarrow> bool" where
  "strict_failure t raw \<longleftrightarrow>
     t = ''message_update'' \<and> decode_message_update raw = None \<or>
     t = ''tool_execution_start'' \<and> decode_tool_exec_start raw = None \<or>
     t = ''tool_execution_update'' \<and> decode_tool_exec_update raw = None \<or>
     t = ''tool_execution_end'' \<and> decode_tool_exec_end raw = None \<or>
     t = ''auto_retry_start'' \<and> decode_retry_start raw = None \<or>
     t = ''auto_retry_end'' \<and> decode_retry_end raw = None \<or>
     t = ''queue_update'' \<and> decode_queue_update raw = None \<or>
     t = ''extension_ui_request'' \<and> decode_extension_ui_request raw = None \<or>
     t = ''extension_error'' \<and> decode_extension_error raw = None"

lemma map_rpc_value_Nil_iff:
  assumes "decode_rpc_event raw = Some env"
  shows "map_rpc_value now raw = [] \<longleftrightarrow> re_type env = ''response'' \<or> strict_failure (re_type env) raw"
  using assms by (simp add: map_rpc_value_def strict_failure_def)

lemma map_rpc_line_print:
  "json_ok raw \<Longrightarrow> json_depth raw \<le> max_depth \<Longrightarrow>
   map_rpc_line now (json_print raw) = map_rpc_value now raw"
  by (simp add: map_rpc_line_def json_parse_print)

text \<open>C25: Every event \<open>MapRPCLine\<close> emits carries the clock reading, no session id yet, and the
  payload struct that its type string names; a line yields at most one event. (Consumers such as
  the boot-time introspection type-assert the payload after looking at the type string.)\<close>

theorem map_rpc_line_well_typed:
  "length (map_rpc_line now line) \<le> 1 \<and>
   list_all (\<lambda>e. ev_type e = data_type (ev_data e) \<and> ev_timestamp e = now \<and> ev_session_id e = [])
     (map_rpc_line now line)"
  using fresh_map_rpc_line [of now line]
  by (auto simp: fresh_events_def well_typed_event_def list_all_iff)

text \<open>C26: A line produces no event exactly when it is not JSON, its envelope does not decode, it is a
  command response, or it is of one of the nine strict types and its struct does not decode;
  every other line, of an unknown type too, produces one.\<close>

theorem map_rpc_line_dropped_iff:
  "map_rpc_line now line = [] \<longleftrightarrow>
   (case json_parse line of
      None \<Rightarrow> True
    | Some raw \<Rightarrow>
        (case decode_rpc_event raw of
           None \<Rightarrow> True
         | Some env \<Rightarrow> re_type env = ''response'' \<or> strict_failure (re_type env) raw))"
  by (auto simp: map_rpc_line_def map_rpc_value_Nil_iff split: option.split)
    (simp add: map_rpc_value_def)

section \<open>Streaming text\<close>

text \<open>The line an agent writes for one text delta.\<close>

definition text_delta_line :: "int \<Rightarrow> string \<Rightarrow> json" where
  "text_delta_line i d =
     JObj [(''type'', JStr ''message_update''), (''message'', JNull),
           (''assistantMessageEvent'',
              JObj [(''type'', JStr ''text_delta''), (''contentIndex'', json_int i), (''delta'', JStr d)])]"

lemma field_JStr [simp]: "field put get dec_string (JStr v) s = Some (put v s)"
  by (simp add: field_def)

lemma lookup_fields_mu [simp]:
  "lookup_field message_update_fields ''type'' = Some (field (\<lambda>x s. s\<lparr>mu_type := x\<rparr>) mu_type dec_string)"
  "lookup_field message_update_fields ''message'' = Some (field (\<lambda>x s. s\<lparr>mu_message := x\<rparr>) mu_message dec_raw)"
  "lookup_field message_update_fields ''assistantMessageEvent'' =
     Some (field (\<lambda>x s. s\<lparr>mu_ame := x\<rparr>) mu_ame (decode_struct ame_fields))"
  by (simp_all add: lookup_field_def message_update_fields_def)

lemma lookup_fields_ame [simp]:
  "lookup_field ame_fields ''type'' = Some (field (\<lambda>x s. s\<lparr>ame_type := x\<rparr>) ame_type dec_string)"
  "lookup_field ame_fields ''contentIndex'' =
     Some (field (\<lambda>x s. s\<lparr>ame_content_index := x\<rparr>) ame_content_index dec_int)"
  "lookup_field ame_fields ''delta'' = Some (field (\<lambda>x s. s\<lparr>ame_delta := x\<rparr>) ame_delta dec_string)"
  by (simp_all add: lookup_field_def ame_fields_def)

lemma map_text_delta_value:
  assumes "- (2 ^ 63) \<le> i" "i < 2 ^ 63"
  shows "map_rpc_value now (text_delta_line i d) =
    [new_event now ''agent.text.delta'' (TextDelta i d (Some JNull) None)]"
proof -
  have i: "dec_int (json_int i) 0 = Some i" using assms by (rule dec_int_json_int)
  have "decode_message_update (text_delta_line i d) =
      Some \<lparr>mu_type = ''message_update'', mu_message = Some JNull,
        mu_ame = ame_zero\<lparr>ame_type := ''text_delta'', ame_content_index := i, ame_delta := d\<rparr>\<rparr>"
    by (simp add: decode_message_update_def text_delta_line_def field_def dec_raw_def ame_zero_def i)
  moreover have "decode_rpc_event (text_delta_line i d) = Some \<lparr>re_type = ''message_update''\<rparr>"
  proof -
    have folds: "fold_key ''type'' = ''type''" "fold_key ''message'' = ''message''"
      "fold_key ''assistantMessageEvent'' = ''assistantmessageevent''"
      by code_simp+
    have "lookup_field rpc_event_fields ''message'' = None"
      "lookup_field rpc_event_fields ''assistantMessageEvent'' = None"
      "lookup_field rpc_event_fields ''type'' = Some (field (\<lambda>x s. s\<lparr>re_type := x\<rparr>) re_type dec_string)"
      using folds by (simp_all add: lookup_field_def rpc_event_fields_def)
    then show ?thesis by (simp add: decode_rpc_event_def text_delta_line_def)
  qed
  ultimately show ?thesis
    by (simp add: map_rpc_value_def map_message_update_def one_def ame_zero_def)
qed

lemma json_ok_text_delta: "utf8_ok d \<Longrightarrow> json_ok (text_delta_line i d)"
proof -
  have "utf8_ok ''type''" "utf8_ok ''message''" "utf8_ok ''message_update''" "utf8_ok ''assistantMessageEvent''"
    "utf8_ok ''text_delta''" "utf8_ok ''contentIndex''" "utf8_ok ''delta''"
    by code_simp+
  moreover have "json_ok (json_int i)" by (rule json_ok_json_int)
  ultimately show "utf8_ok d \<Longrightarrow> ?thesis" by (simp add: text_delta_line_def)
qed

lemma json_depth_text_delta: "json_depth (text_delta_line i d) \<le> max_depth"
  by (simp add: text_delta_line_def max_depth_def json_int_def)

text \<open>C24: Text streams through unchanged: for any UTF-8 delta \<open>d\<close>, the bytes the agent writes for
  it (a null message, no partial) are mapped to exactly one \<open>agent.text.delta\<close> event with the same delta and index.\<close>

theorem text_delta_streams:
  assumes "utf8_ok d" "- (2 ^ 63) \<le> i" "i < 2 ^ 63"
  shows "map_rpc_line now (json_print (text_delta_line i d)) =
    [new_event now ''agent.text.delta'' (TextDelta i d (Some JNull) None)]"
  using assms
  by (simp add: map_rpc_line_print json_ok_text_delta json_depth_text_delta map_text_delta_value)

theorem text_delta_streams_witness:
  "map_rpc_line ''now'' (json_print (text_delta_line 0 [CHR ''h'', CHR 0x22, char_of (10 :: nat)])) =
    [new_event ''now'' ''agent.text.delta'' (TextDelta 0 [CHR ''h'', CHR 0x22, char_of (10 :: nat)] (Some JNull) None)]"
proof (rule text_delta_streams)
  show "utf8_ok [CHR ''h'', CHR 0x22, char_of (10 :: nat)]" by code_simp
qed simp_all

end
