(* ===== verification/Http.thy ===== *)
theory Http
  imports Json
begin

text \<open>
  The part of \<open>net/http\<close> the server works with: a request as the server has parsed it, a response
  as status, headers and body, and handlers as state transformers. The request's context is the
  field \<open>r_ctx\<close>: the value stored under the auth package's private key, if any. The body is the
  byte stream \<open>decodeJSON\<close> reads.
\<close>

record auth_identity =
  id_method :: string
  id_subject :: string
  id_scopes :: "string list"

definition zero_identity :: auth_identity where
  "zero_identity = \<lparr>id_method = [], id_subject = [], id_scopes = []\<rparr>"

record request =
  r_method :: string
  r_path :: string
  r_headers :: "(string \<times> string) list"
  r_query :: "(string \<times> string) list"
  r_remote_addr :: string
  r_body :: string
  r_ctx :: "auth_identity option"

text \<open>\<open>Header.Get\<close>: the first value of the header, names compared without case.\<close>

definition header_get :: "request \<Rightarrow> string \<Rightarrow> string" where
  "header_get r k =
     (case find (\<lambda>(n, v). to_lower n = to_lower k) (r_headers r) of None \<Rightarrow> [] | Some (n, v) \<Rightarrow> v)"

text \<open>\<open>r.URL.Query().Get\<close>: the first value of the parameter.\<close>

definition query_get :: "request \<Rightarrow> string \<Rightarrow> string" where
  "query_get r k = (case map_of (r_query r) k of None \<Rightarrow> [] | Some v \<Rightarrow> v)"

text \<open>\<open>Frames\<close> are the JSON messages sent on an upgraded connection.\<close>

datatype resp_body = NoBody | JsonBody json | RawBody string | Frames "json list"

record response =
  rs_status :: nat
  rs_headers :: "(string \<times> string) list"
  rs_body :: resp_body

type_synonym 's handler = "request \<Rightarrow> 's \<Rightarrow> response \<times> 's"

definition json_response :: "nat \<Rightarrow> json \<Rightarrow> response" where
  "json_response status v =
     \<lparr>rs_status = status, rs_headers = [(''Content-Type'', ''application/json'')], rs_body = JsonBody v\<rparr>"

definition error_response :: "nat \<Rightarrow> string \<Rightarrow> response" where
  "error_response status msg = json_response status (json_map [(''error'', JStr msg)])"

lemma response_status [simp]:
  "rs_status (json_response st v) = st" "rs_status (error_response st msg) = st"
  by (simp_all add: json_response_def error_response_def)

end
