(* ===== verification/Auth.thy ===== *)
theory Auth
  imports Http Net_Addr
begin

text \<open>
  Package \<open>auth\<close> without the rate limiter: the configuration and its environment format
  (\<open>auth.go\<close>), the decision function (\<open>check.go\<close>), key validation (\<open>apikey.go\<close>), the
  local-connection test (\<open>local.go\<close>), scopes (\<open>scope.go\<close>) and the two middlewares
  (\<open>middleware.go\<close>). Handlers are state transformers, so that "not called" is "state unchanged".
\<close>

section \<open>Configuration\<close>

record api_key =
  key_name :: string
  key_secret :: string
  key_scopes :: "string list"

record auth_config =
  api_keys :: "api_key list"
  jwks_url :: string
  jwt_issuer :: string
  jwt_audience :: string
  behind_proxy :: bool

definition is_enabled :: "auth_config \<Rightarrow> bool" where
  "is_enabled c \<longleftrightarrow> 0 < length (api_keys c) \<or> jwks_url c \<noteq> []"

fun parse_scopes :: "string list \<Rightarrow> string list" where
  "parse_scopes [] = []"
| "parse_scopes (s # ss) =
     (if trim_space s \<noteq> [] then trim_space s # parse_scopes ss else parse_scopes ss)"

text \<open>One entry of the list; \<open>None\<close> where the loop goes on to the next one.\<close>

definition parse_entry :: "string \<Rightarrow> api_key option" where
  "parse_entry entry0 =
     (case trim_space entry0 of entry \<Rightarrow>
        if entry = [] then None
        else
          (case split_n (CHR '':'') 3 entry of
             [p0, p1, p2] \<Rightarrow>
               (if trim_space p0 = [] \<or> trim_space p1 = [] \<or> trim_space p2 = [] then None
                else Some \<lparr>key_name = trim_space p0, key_secret = trim_space p1,
                           key_scopes = parse_scopes (split_on (CHR '','') (trim_space p2))\<rparr>)
           | _ \<Rightarrow> None))"

fun parse_entries :: "string list \<Rightarrow> api_key list" where
  "parse_entries [] = []"
| "parse_entries (e # es) =
     (case parse_entry e of None \<Rightarrow> parse_entries es | Some k \<Rightarrow> k # parse_entries es)"

definition parse_api_keys :: "string \<Rightarrow> api_key list" where
  "parse_api_keys raw =
     (if trim_space raw = [] then [] else parse_entries (split_on (CHR '';'') (trim_space raw)))"

section \<open>Identity in the request context\<close>

definition with_identity :: "request \<Rightarrow> auth_identity \<Rightarrow> request" where
  "with_identity r i = r\<lparr>r_ctx := Some i\<rparr>"

definition from_context :: "request \<Rightarrow> auth_identity" where
  "from_context r = (case r_ctx r of None \<Rightarrow> zero_identity | Some i \<Rightarrow> i)"

fun has_scope_in :: "string list \<Rightarrow> string \<Rightarrow> bool" where
  "has_scope_in [] required = False"
| "has_scope_in (s # ss) required = (if s = ''admin'' \<or> s = required then True else has_scope_in ss required)"

definition has_scope :: "auth_identity \<Rightarrow> string \<Rightarrow> bool" where
  "has_scope i required = has_scope_in (id_scopes i) required"

section \<open>The decision\<close>

datatype auth_error = ErrUnauthorized | ErrForbidden

fun find_key :: "api_key list \<Rightarrow> string \<Rightarrow> api_key option" where
  "find_key [] bearer = None"
| "find_key (k # ks) bearer = (if key_secret k = bearer then Some k else find_key ks bearer)"

text \<open>\<open>ConstantTimeCompare\<close> returns 1 exactly when its arguments are equal byte strings.\<close>

definition validate_api_key :: "api_key list \<Rightarrow> string \<Rightarrow> api_key option" where
  "validate_api_key ks bearer = (if bearer = [] then None else find_key ks bearer)"

definition validate_jwt :: "string \<Rightarrow> string \<Rightarrow> string \<Rightarrow> string \<Rightarrow> auth_error + auth_identity" where
  "validate_jwt jwks issuer audience bearer = Inl ErrUnauthorized"

definition proxy_headers :: "string list" where
  "proxy_headers = [''X-Forwarded-For'', ''X-Real-IP'', ''CF-Connecting-IP'', ''Forwarded'']"

definition remote_host :: "request \<Rightarrow> string" where
  "remote_host r =
     (case split_host_port (r_remote_addr r) of None \<Rightarrow> r_remote_addr r | Some (h, p) \<Rightarrow> h)"

definition is_local_connection :: "request \<Rightarrow> bool \<Rightarrow> bool" where
  "is_local_connection r proxied =
     (if proxied then False
      else if list_ex (\<lambda>h. header_get r h \<noteq> []) proxy_headers then False
      else (case parse_ip (remote_host r) of None \<Rightarrow> False | Some a \<Rightarrow> is_loopback a))"

definition public_paths :: "string list" where
  "public_paths = [''/healthz'', ''/readyz'']"

definition extract_bearer :: "request \<Rightarrow> string" where
  "extract_bearer r =
     (if has_prefix (header_get r ''Authorization'') ''Bearer ''
      then trim_prefix (header_get r ''Authorization'') ''Bearer ''
      else if query_get r ''token'' \<noteq> [] then query_get r ''token''
      else [])"

definition anonymous :: auth_identity where
  "anonymous = \<lparr>id_method = ''anonymous'', id_subject = ''anonymous'', id_scopes = []\<rparr>"

definition local_dev :: auth_identity where
  "local_dev = \<lparr>id_method = ''local-dev'', id_subject = ''local'', id_scopes = [''admin'']\<rparr>"

definition key_identity :: "api_key \<Rightarrow> auth_identity" where
  "key_identity k = \<lparr>id_method = ''api-key'', id_subject = key_name k, id_scopes = key_scopes k\<rparr>"

definition check_auth :: "auth_config \<Rightarrow> request \<Rightarrow> auth_error + auth_identity" where
  "check_auth cfg r =
     (if r_path r \<in> set public_paths then Inr anonymous
      else if \<not> is_enabled cfg then
        (if is_local_connection r (behind_proxy cfg) then Inr local_dev else Inl ErrUnauthorized)
      else if extract_bearer r = [] then Inl ErrUnauthorized
      else if 0 < length (api_keys cfg) then
        (case validate_api_key (api_keys cfg) (extract_bearer r) of
           Some k \<Rightarrow> Inr (key_identity k)
         | None \<Rightarrow> Inl ErrUnauthorized)
      else Inl ErrUnauthorized)"

section \<open>Middlewares\<close>

definition middleware :: "auth_config \<Rightarrow> 's handler \<Rightarrow> 's handler" where
  "middleware cfg nxt r s =
     (case check_auth cfg r of
        Inl e \<Rightarrow> (error_response 401 ''unauthorized'', s)
      | Inr i \<Rightarrow> nxt (with_identity r i) s)"

definition require_scope_mw :: "string \<Rightarrow> 's handler \<Rightarrow> 's handler" where
  "require_scope_mw required nxt r s =
     (if \<not> has_scope (from_context r) required then (error_response 403 ''insufficient scope'', s)
      else nxt r s)"

section \<open>Facts\<close>

lemma has_scope_iff: "has_scope i required \<longleftrightarrow> ''admin'' \<in> set (id_scopes i) \<or> required \<in> set (id_scopes i)"
proof -
  have "has_scope_in ss required \<longleftrightarrow> ''admin'' \<in> set ss \<or> required \<in> set ss" for ss
    by (induction ss) auto
  then show ?thesis by (simp add: has_scope_def)
qed

lemma find_key_iff_find: "find_key ks b = find (\<lambda>k. key_secret k = b) ks"
  by (induction ks) auto

lemma find_key_Some: "find_key ks b = Some k \<Longrightarrow> k \<in> set ks \<and> key_secret k = b"
  by (induction ks) (auto split: if_splits)

lemma find_key_None: "find_key ks b = None \<longleftrightarrow> (\<forall>k\<in>set ks. key_secret k \<noteq> b)"
  by (induction ks) auto

lemma from_context_with_identity [simp]: "from_context (with_identity r i) = i"
  by (simp add: from_context_def with_identity_def)

lemma zero_identity_no_scope [simp]: "\<not> has_scope zero_identity required"
  by (simp add: has_scope_iff zero_identity_def)

lemma anonymous_no_scope [simp]: "\<not> has_scope anonymous required"
  by (simp add: has_scope_iff anonymous_def)

lemma parse_scopes_spec: "parse_scopes ss = filter (\<lambda>s. s \<noteq> []) (map trim_space ss)"
  by (induction ss) auto

lemma parse_entries_spec: "parse_entries es = List.map_filter parse_entry es"
  by (induction es) (auto simp: List.map_filter_def split: option.split)

lemma parse_entry_wf:
  "parse_entry e = Some k \<Longrightarrow>
     key_name k \<noteq> [] \<and> key_secret k \<noteq> [] \<and> trim_space (key_secret k) = key_secret k \<and>
     [] \<notin> set (key_scopes k)"
  by (auto simp: parse_entry_def parse_scopes_spec split: if_splits list.splits)

section \<open>The environment format, printed\<close>

definition render_key :: "api_key \<Rightarrow> string" where
  "render_key k = key_name k @ CHR '':'' # key_secret k @ CHR '':'' # join '','' (key_scopes k)"

definition render_keys :: "api_key list \<Rightarrow> string" where
  "render_keys ks = join '';'' (map render_key ks)"

definition plain_word :: "string \<Rightarrow> bool" where
  "plain_word w \<longleftrightarrow> w \<noteq> [] \<and> trim_space w = w \<and> CHR '';'' \<notin> set w"

definition wf_key :: "api_key \<Rightarrow> bool" where
  "wf_key k \<longleftrightarrow>
     plain_word (key_name k) \<and> CHR '':'' \<notin> set (key_name k) \<and>
     plain_word (key_secret k) \<and> CHR '':'' \<notin> set (key_secret k) \<and>
     key_scopes k \<noteq> [] \<and> list_all (\<lambda>s. plain_word s \<and> CHR '','' \<notin> set s) (key_scopes k)"

lemma set_join: "c \<in> set (join sep ps) \<Longrightarrow> c \<in> set sep \<or> (\<exists>p\<in>set ps. c \<in> set p)"
  by (induction sep ps rule: join.induct) auto

lemma join_eq_Nil: "ps \<noteq> [] \<Longrightarrow> \<forall>p\<in>set ps. p \<noteq> [] \<Longrightarrow> join sep ps \<noteq> []"
  by (induction sep ps rule: join.induct) auto

lemma scopes_text:
  assumes "wf_key k"
  shows "trimmed (join '','' (key_scopes k))" "join '','' (key_scopes k) \<noteq> []"
    "CHR '';'' \<notin> set (join '','' (key_scopes k))"
  using assms trimmed_join [of "key_scopes k" "CHR '',''"] join_eq_Nil [of "key_scopes k" "'',''"]
    separators_not_space
  by (auto simp: wf_key_def plain_word_def trimmed_iff list_all_iff dest!: set_join)

lemma render_key_facts:
  assumes "wf_key k"
  shows "trimmed (render_key k)" "render_key k \<noteq> []" "CHR '';'' \<notin> set (render_key k)"
  using assms scopes_text [OF assms] trimmed_between3 [of "key_name k" _ "CHR '':''" "key_secret k"]
    separators_not_space(1)
  by (auto simp: render_key_def wf_key_def plain_word_def trimmed_iff)

lemma parse_scopes_render:
  assumes "wf_key k"
  shows "parse_scopes (split_on (CHR '','') (join '','' (key_scopes k))) = key_scopes k"
proof -
  have "split_on (CHR '','') (join '','' (key_scopes k)) = key_scopes k"
    using assms by (intro split_on_join) (auto simp: wf_key_def list_all_iff)
  moreover have "map trim_space (key_scopes k) = key_scopes k"
    "filter (\<lambda>s. s \<noteq> []) (key_scopes k) = key_scopes k"
    using assms by (auto simp: wf_key_def plain_word_def list_all_iff intro: map_idI)
  ultimately show ?thesis by (simp add: parse_scopes_spec)
qed

lemma parse_entry_render:
  assumes "wf_key k"
  shows "parse_entry (render_key k) = Some k"
proof -
  have "split_n (CHR '':'') 3 (render_key k) = [key_name k, key_secret k, join '','' (key_scopes k)]"
    using assms by (simp add: render_key_def wf_key_def numeral_3_eq_3 split_n_first del: split_n.simps(3))
  moreover have "trim_space (render_key k) = render_key k"
    "trim_space (join '','' (key_scopes k)) = join '','' (key_scopes k)"
    using render_key_facts [OF assms] scopes_text [OF assms] by (simp_all add: trimmed_iff)
  ultimately show ?thesis
    using assms scopes_text [OF assms] render_key_facts [OF assms]
    by (simp add: parse_entry_def parse_scopes_render wf_key_def plain_word_def)
qed

lemma parse_entries_render: "list_all wf_key ks \<Longrightarrow> parse_entries (map render_key ks) = ks"
  by (induction ks) (auto simp: parse_entry_render)

text \<open>C27: The \<open>AUTH_API_KEYS\<close> format round-trips: a list of well-formed keys written as
  \<open>name:key:scope,scope;...\<close> is parsed back to the same list.\<close>

theorem parse_api_keys_render:
  assumes "list_all wf_key ks"
  shows "parse_api_keys (render_keys ks) = ks"
proof (cases "ks = []")
  case True
  then show ?thesis by (simp add: parse_api_keys_def render_keys_def)
next
  case False
  have facts: "\<forall>e\<in>set (map render_key ks). trimmed e \<and> e \<noteq> [] \<and> CHR '';'' \<notin> set e"
    using assms render_key_facts by (auto simp: list_all_iff)
  then have "trim_space (render_keys ks) = render_keys ks" "render_keys ks \<noteq> []"
    using False trimmed_join [of "map render_key ks" "CHR '';''"] separators_not_space(2)
      join_eq_Nil [of "map render_key ks" "'';''"]
    by (auto simp: render_keys_def trimmed_iff)
  moreover have "split_on (CHR '';'') (render_keys ks) = map render_key ks"
    using False facts by (simp add: render_keys_def split_on_join)
  ultimately show ?thesis
    using parse_entries_render [OF assms] by (simp add: parse_api_keys_def)
qed

theorem parse_api_keys_render_witness:
  "parse_api_keys ''bot:sk_1:sessions.read,sessions.write;ops:sk_2:admin'' =
     [\<lparr>key_name = ''bot'', key_secret = ''sk_1'', key_scopes = [''sessions.read'', ''sessions.write'']\<rparr>,
      \<lparr>key_name = ''ops'', key_secret = ''sk_2'', key_scopes = [''admin'']\<rparr>]"
proof -
  let ?ks = "[\<lparr>key_name = ''bot'', key_secret = ''sk_1'', key_scopes = [''sessions.read'', ''sessions.write'']\<rparr>,
      \<lparr>key_name = ''ops'', key_secret = ''sk_2'', key_scopes = [''admin'']\<rparr>]"
  have "list_all wf_key ?ks" by code_simp
  from parse_api_keys_render [OF this] show ?thesis by (simp add: render_keys_def render_key_def)
qed

section \<open>Who is let in\<close>

lemma check_auth_disabled:
  assumes "r_path r \<notin> set public_paths" "\<not> is_enabled cfg"
  shows "check_auth cfg r =
    (if is_local_connection r (behind_proxy cfg) then Inr local_dev else Inl ErrUnauthorized)"
  using assms by (simp add: check_auth_def)

lemma check_auth_enabled:
  assumes "r_path r \<notin> set public_paths" "is_enabled cfg"
  shows "check_auth cfg r =
    (case validate_api_key (api_keys cfg) (extract_bearer r) of
       None \<Rightarrow> Inl ErrUnauthorized | Some k \<Rightarrow> Inr (key_identity k))"
  using assms by (auto simp: check_auth_def validate_api_key_def)

lemma find_key_split:
  "find_key ks b = Some k \<longleftrightarrow>
     (\<exists>us vs. ks = us @ k # vs \<and> key_secret k = b \<and> (\<forall>u\<in>set us. key_secret u \<noteq> b))"
  (is "?L ks \<longleftrightarrow> ?R ks")
proof
  show "?L ks \<Longrightarrow> ?R ks"
  proof (induction ks)
    case (Cons a ks)
    show ?case
    proof (cases "key_secret a = b")
      case True
      with Cons.prems show ?thesis by (intro exI [of _ "[]"] exI [of _ ks]) auto
    next
      case False
      with Cons obtain us vs where
        "ks = us @ k # vs" "key_secret k = b" "\<forall>u\<in>set us. key_secret u \<noteq> b" by auto
      with False show ?thesis by (intro exI [of _ "a # us"] exI [of _ vs]) auto
    qed
  qed simp
next
  assume "?R ks"
  then obtain us vs where ks: "ks = us @ k # vs" "key_secret k = b" "\<forall>u\<in>set us. key_secret u \<noteq> b"
    by blast
  have "find_key (us @ k # vs) b = Some k" using ks(2,3) by (induction us) auto
  with ks show "?L ks" by simp
qed

lemma check_auth_Inr_iff:
  "check_auth cfg r = Inr i \<longleftrightarrow>
     (r_path r \<in> set public_paths \<and> i = anonymous) \<or>
     (r_path r \<notin> set public_paths \<and> \<not> is_enabled cfg \<and>
      is_local_connection r (behind_proxy cfg) \<and> i = local_dev) \<or>
     (r_path r \<notin> set public_paths \<and> extract_bearer r \<noteq> [] \<and>
      (\<exists>us k vs. api_keys cfg = us @ k # vs \<and> key_secret k = extract_bearer r \<and>
         list_all (\<lambda>u. key_secret u \<noteq> extract_bearer r) us \<and> i = key_identity k))"
proof (cases "r_path r \<in> set public_paths")
  case True
  then show ?thesis by (auto simp: check_auth_def)
next
  case pub: False
  show ?thesis
  proof (cases "is_enabled cfg")
    case False
    then have "api_keys cfg = []" by (simp add: is_enabled_def)
    with pub False show ?thesis by (auto simp: check_auth_disabled)
  next
    case True
    have "check_auth cfg r = Inr i \<longleftrightarrow> extract_bearer r \<noteq> [] \<and>
        (\<exists>k. find_key (api_keys cfg) (extract_bearer r) = Some k \<and> i = key_identity k)"
      using pub True
      by (auto simp: check_auth_enabled validate_api_key_def split: option.splits)
    with pub True show ?thesis unfolding find_key_split list_all_iff by blast
  qed
qed

text \<open>C11: The decision matrix of \<open>CheckAuth\<close>, complete: a request is let in as \<open>i\<close> exactly when it is
  for a public path (anonymous), or no credentials are configured and the connection is local
  (local-dev, admin), or it carries a non-empty bearer token that equals the secret of a
  configured key; then \<open>i\<close> is the first such key's identity.\<close>

theorem check_auth_allows_iff:
  "check_auth cfg r = Inr i \<longleftrightarrow>
     (r_path r \<in> set public_paths \<and> i = anonymous) \<or>
     (r_path r \<notin> set public_paths \<and> \<not> is_enabled cfg \<and>
      is_local_connection r (behind_proxy cfg) \<and> i = local_dev) \<or>
     (r_path r \<notin> set public_paths \<and> extract_bearer r \<noteq> [] \<and>
      (\<exists>us k vs. api_keys cfg = us @ k # vs \<and> key_secret k = extract_bearer r \<and>
         list_all (\<lambda>u. key_secret u \<noteq> extract_bearer r) us \<and> i = key_identity k))"
  by (rule check_auth_Inr_iff)

lemma scope_from_key:
  assumes "check_auth cfg r = Inr i" "is_enabled cfg" "has_scope i sc"
  shows "\<exists>k\<in>set (api_keys cfg). key_secret k = extract_bearer r \<and> key_secret k \<noteq> [] \<and>
    (''admin'' \<in> set (key_scopes k) \<or> sc \<in> set (key_scopes k))"
proof -
  have "i \<noteq> anonymous" using assms(3) by auto
  then obtain us k vs where "api_keys cfg = us @ k # vs" "key_secret k = extract_bearer r"
    "extract_bearer r \<noteq> []" "i = key_identity k"
    using assms(1,2) unfolding check_auth_Inr_iff by blast
  then show ?thesis
    using assms(3) by (auto simp: has_scope_iff key_identity_def)
qed

text \<open>No scope out of nothing: with credentials configured, an identity that \<open>CheckAuth\<close> lets in on
  a protected path and that passes a scope check owes the scope to a configured key whose
  secret the request presented.\<close>

theorem scopes_come_from_keys:
  assumes "check_auth cfg r = Inr i" "is_enabled cfg" "has_scope i sc"
  shows "\<exists>k\<in>set (api_keys cfg). key_secret k = extract_bearer r \<and> key_secret k \<noteq> [] \<and>
    (''admin'' \<in> set (key_scopes k) \<or> sc \<in> set (key_scopes k))"
  by (rule scope_from_key [OF assms])

theorem scopes_come_from_keys_witness:
  "\<exists>k\<in>set [\<lparr>key_name = ''bot'', key_secret = ''sk_1'', key_scopes = [''sessions.read'']\<rparr>].
     key_secret k = ''sk_1'' \<and> key_secret k \<noteq> [] \<and>
     (''admin'' \<in> set (key_scopes k) \<or> ''sessions.read'' \<in> set (key_scopes k))"
proof -
  let ?k = "\<lparr>key_name = ''bot'', key_secret = ''sk_1'', key_scopes = [''sessions.read'']\<rparr>"
  let ?cfg = "\<lparr>api_keys = [?k], jwks_url = [], jwt_issuer = [], jwt_audience = [], behind_proxy = False\<rparr>"
  let ?r = "\<lparr>r_method = ''GET'', r_path = ''/v1/sessions'', r_headers = [(''Authorization'', ''Bearer sk_1'')],
    r_query = [], r_remote_addr = ''10.0.0.7:4000'', r_body = [], r_ctx = None\<rparr>"
  have b: "extract_bearer ?r = ''sk_1''" by code_simp
  have "check_auth ?cfg ?r = Inr (key_identity ?k)" by code_simp
  moreover have "is_enabled ?cfg" by code_simp
  moreover have "has_scope (key_identity ?k) ''sessions.read''" by code_simp
  ultimately show ?thesis using scopes_come_from_keys [of ?cfg ?r] b by fastforce
qed

text \<open>The unauthenticated admin identity is for direct local connections only: it is never given
  when the server is told it runs behind a proxy, when any forwarding header is present, when
  the peer address is not a loopback address, or when credentials are configured.\<close>

theorem local_dev_only_direct_local:
  assumes "check_auth cfg r = Inr local_dev"
    and "\<forall>k\<in>set (api_keys cfg). key_identity k \<noteq> local_dev"
  shows "\<not> is_enabled cfg \<and> \<not> behind_proxy cfg \<and> (\<forall>h\<in>set proxy_headers. header_get r h = []) \<and>
    (\<exists>a. parse_ip (remote_host r) = Some a \<and> is_loopback a)"
proof -
  have "local_dev \<noteq> anonymous" by (simp add: local_dev_def anonymous_def)
  then have en: "\<not> is_enabled cfg" and loc: "is_local_connection r (behind_proxy cfg)"
    using assms unfolding check_auth_Inr_iff by auto
  then show ?thesis
    by (auto simp: is_local_connection_def list_ex_iff split: if_splits option.splits)
qed

theorem local_dev_only_direct_local_witness:
  "\<not> is_enabled \<lparr>api_keys = [], jwks_url = [], jwt_issuer = [], jwt_audience = [], behind_proxy = False\<rparr> \<and>
   (\<exists>a. parse_ip (remote_host \<lparr>r_method = ''GET'', r_path = ''/v1/sessions'', r_headers = [], r_query = [],
     r_remote_addr = ''[::1]:4000'', r_body = [], r_ctx = None\<rparr>) = Some a \<and> is_loopback a)"
proof -
  let ?cfg = "\<lparr>api_keys = [], jwks_url = [], jwt_issuer = [], jwt_audience = [], behind_proxy = False\<rparr>"
  let ?r = "\<lparr>r_method = ''GET'', r_path = ''/v1/sessions'', r_headers = [], r_query = [],
    r_remote_addr = ''[::1]:4000'', r_body = [], r_ctx = None\<rparr>"
  have "check_auth ?cfg ?r = Inr local_dev" by code_simp
  then show ?thesis using local_dev_only_direct_local [of ?cfg ?r] by simp
qed

text \<open>A server configured with a JWKS URL and no API key lets nobody in: JWT validation is a stub,
  so every request for a protected path is refused, whatever token it carries.\<close>

theorem jwks_only_refuses:
  assumes "api_keys cfg = []" "jwks_url cfg \<noteq> []" "r_path r \<notin> set public_paths"
  shows "check_auth cfg r = Inl ErrUnauthorized"
  using assms by (simp add: check_auth_def is_enabled_def)

theorem jwks_only_refuses_witness:
  "check_auth \<lparr>api_keys = [], jwks_url = ''https://idp/jwks'', jwt_issuer = [], jwt_audience = [], behind_proxy = False\<rparr>
     \<lparr>r_method = ''GET'', r_path = ''/v1/sessions'', r_headers = [(''Authorization'', ''Bearer a.b.c'')],
       r_query = [], r_remote_addr = ''127.0.0.1:4000'', r_body = [], r_ctx = None\<rparr> = Inl ErrUnauthorized"
  by (rule jwks_only_refuses) (simp_all add: public_paths_def)

section \<open>Guards\<close>

text \<open>
  What the middlewares have in common: a request they admit is handed on (perhaps with more in
  its context), one they do not admit is answered with an error and the state stays as it is.
\<close>

locale guard =
  fixes guarded :: "'s handler \<Rightarrow> 's handler"
    and admits :: "request \<Rightarrow> request option"
  assumes pass: "admits r = Some r' \<Longrightarrow> guarded h r s = h r' s"
    and block_state: "admits r = None \<Longrightarrow> snd (guarded h r s) = s"
    and block_status: "admits r = None \<Longrightarrow> 400 \<le> rs_status (fst (guarded h r s))"
begin

lemma change_means_admitted: "snd (guarded h r s) \<noteq> s \<Longrightarrow> \<exists>r'. admits r = Some r'"
  using block_state by (cases "admits r") auto

lemma success_means_admitted: "rs_status (fst (guarded h r s)) < 400 \<Longrightarrow> \<exists>r'. admits r = Some r'"
  using block_status by (metis not_None_eq not_le)

lemma guarded_cases:
  obtains r' where "admits r = Some r'" "guarded h r s = h r' s"
  | "admits r = None" "snd (guarded h r s) = s" "400 \<le> rs_status (fst (guarded h r s))"
  using pass block_state block_status by (cases "admits r") auto

lemma preserves:
  assumes "\<And>r s. I s \<Longrightarrow> I (snd (h r s))" "I s"
  shows "I (snd (guarded h r s))"
  using assms pass block_state by (cases "admits r") auto

end

definition auth_admits :: "auth_config \<Rightarrow> request \<Rightarrow> request option" where
  "auth_admits cfg r = (case check_auth cfg r of Inl e \<Rightarrow> None | Inr i \<Rightarrow> Some (with_identity r i))"

definition scope_admits :: "string \<Rightarrow> request \<Rightarrow> request option" where
  "scope_admits required r = (if has_scope (from_context r) required then Some r else None)"

interpretation auth_guard: guard "middleware cfg" "auth_admits cfg" for cfg
  by unfold_locales (auto simp: middleware_def auth_admits_def split: sum.splits)

interpretation scope_guard: guard "require_scope_mw required" "scope_admits required" for required
  by unfold_locales (auto simp: require_scope_mw_def scope_admits_def split: if_splits)

text \<open>The two middlewares together protect a handler: if the state behind
  \<open>Middleware(cfg)(RequireScope(sc)(h))\<close> changes, \<open>CheckAuth\<close> let the request in with an
  identity that has the scope, and \<open>h\<close> saw that identity in its context.\<close>

theorem protected_handler:
  assumes "snd (middleware cfg (require_scope_mw sc h) r s) \<noteq> s"
  shows "\<exists>i. check_auth cfg r = Inr i \<and> has_scope i sc \<and>
    middleware cfg (require_scope_mw sc h) r s = h (with_identity r i) s"
proof -
  obtain r1 where r1: "auth_admits cfg r = Some r1"
    using auth_guard.change_means_admitted [OF assms] by blast
  then have step1: "middleware cfg (require_scope_mw sc h) r s = require_scope_mw sc h r1 s"
    by (rule auth_guard.pass)
  then have "scope_admits sc r1 \<noteq> None"
    using assms scope_guard.change_means_admitted by fastforce
  with r1 step1 show ?thesis
    by (auto simp: auth_admits_def scope_admits_def require_scope_mw_def split: sum.splits if_splits)
qed

theorem protected_handler_witness:
  "\<exists>i. check_auth \<lparr>api_keys = [], jwks_url = [], jwt_issuer = [], jwt_audience = [], behind_proxy = False\<rparr>
      \<lparr>r_method = ''POST'', r_path = ''/v1/sessions'', r_headers = [], r_query = [],
        r_remote_addr = ''127.0.0.1:4000'', r_body = [], r_ctx = None\<rparr> = Inr i \<and> has_scope i ''sessions.write''"
proof -
  let ?cfg = "\<lparr>api_keys = [], jwks_url = [], jwt_issuer = [], jwt_audience = [], behind_proxy = False\<rparr>"
  let ?r = "\<lparr>r_method = ''POST'', r_path = ''/v1/sessions'', r_headers = [], r_query = [],
    r_remote_addr = ''127.0.0.1:4000'', r_body = [], r_ctx = None\<rparr>"
  let ?h = "\<lambda>r (s :: nat). (json_response 200 JNull, s + 1)"
  have "check_auth ?cfg ?r = Inr local_dev" by code_simp
  moreover have "has_scope local_dev ''sessions.write''" by code_simp
  ultimately have "snd (middleware ?cfg (require_scope_mw ''sessions.write'' ?h) ?r 0) \<noteq> 0"
    by (simp add: middleware_def require_scope_mw_def)
  from protected_handler [OF this] show ?thesis by blast
qed

end
