(* ===== verification/Rate_Limit.thy ===== *)
theory Rate_Limit
  imports Auth Refinement
begin

text \<open>
  \<open>internal/auth/ratelimit.go\<close>: the sliding-window limiter, the client address it is keyed by and
  its middleware. A time is a reading of the monotonic clock in nanoseconds; every operation is
  given the reading it makes. The entries map of the code is a map from the key to the kept
  timestamps; the mutex makes each operation atomic. The limiter is proved to decide as the
  specification that never forgets an admitted request, whenever the background cleanup runs.
\<close>

section \<open>The limiter\<close>

definition rate_limit_window :: int where "rate_limit_window = 60 * 10 ^ 9"
definition rate_limit_max :: nat where "rate_limit_max = 30"
definition second :: int where "second = 10 ^ 9"

type_synonym entries = "string \<rightharpoonup> int list"

definition prune :: "int \<Rightarrow> int list \<Rightarrow> int list" where
  "prune cutoff ts = filter (\<lambda>t. cutoff < t) ts"

definition entry_of :: "entries \<Rightarrow> string \<Rightarrow> int list" where
  "entry_of rl ip = (case rl ip of None \<Rightarrow> [] | Some ts \<Rightarrow> ts)"

definition allow :: "int \<Rightarrow> string \<Rightarrow> entries \<Rightarrow> (bool \<times> int) \<times> entries" where
  "allow now ip rl =
     (let valid = prune (now - rate_limit_window) (entry_of rl ip) in
        if rate_limit_max \<le> length valid then
          ((False, if hd valid + rate_limit_window - now < second then second
                   else hd valid + rate_limit_window - now), rl(ip \<mapsto> valid))
        else ((True, 0), rl(ip \<mapsto> valid @ [now])))"

text \<open>One round of the \<open>cleanup\<close> goroutine.\<close>

definition cleanup :: "int \<Rightarrow> entries \<Rightarrow> entries" where
  "cleanup now rl ip =
     (case rl ip of
        None \<Rightarrow> None
      | Some ts \<Rightarrow>
          (case prune (now - rate_limit_window) ts of [] \<Rightarrow> None | t # valid \<Rightarrow> Some (t # valid)))"

section \<open>The client address\<close>

definition trim_spaces :: "string \<Rightarrow> string" where
  "trim_spaces s = rev (dropWhile (\<lambda>c. c = CHR '' '') (rev (dropWhile (\<lambda>c. c = CHR '' '') s)))"

text \<open>The loop of \<open>splitCSV\<close>; \<open>cur\<close> is \<open>s[start:i]\<close>.\<close>

fun split_csv_from :: "string \<Rightarrow> string \<Rightarrow> string list" where
  "split_csv_from cur [] = (if trim_spaces cur \<noteq> [] then [trim_spaces cur] else [])"
| "split_csv_from cur (c # cs) =
     (if c = CHR '',''
      then (if trim_spaces cur \<noteq> [] then [trim_spaces cur] else []) @ split_csv_from [] cs
      else split_csv_from (cur @ [c]) cs)"

definition split_csv :: "string \<Rightarrow> string list" where
  "split_csv s = split_csv_from [] s"

fun first_ip :: "string list \<Rightarrow> ip option" where
  "first_ip [] = None"
| "first_ip (p # ps) = (case parse_ip p of Some a \<Rightarrow> Some a | None \<Rightarrow> first_ip ps)"

fun forwarded_ip :: "request \<Rightarrow> string list \<Rightarrow> string option" where
  "forwarded_ip r [] = None"
| "forwarded_ip r (h # hs) =
     (case header_get r h of
        [] \<Rightarrow> forwarded_ip r hs
      | c # cs \<Rightarrow>
          (if h = ''X-Forwarded-For'' then
             (case parse_ip (c # cs) of
                Some a \<Rightarrow> Some (c # cs)
              | None \<Rightarrow>
                  (case first_ip (split_csv (c # cs)) of
                     Some a \<Rightarrow> Some (ip_string a)
                   | None \<Rightarrow> Some (c # cs)))
           else Some (c # cs)))"

definition client_ip :: "request \<Rightarrow> bool \<Rightarrow> string" where
  "client_ip r proxied =
     (case (if proxied then forwarded_ip r [''X-Forwarded-For'', ''X-Real-IP'', ''CF-Connecting-IP''] else None) of
        Some v \<Rightarrow> v
      | None \<Rightarrow> remote_host r)"

section \<open>The middleware\<close>

definition retry_seconds :: "int \<Rightarrow> nat" where
  "retry_seconds d = nat (d div second)"

definition too_many :: "int \<Rightarrow> response" where
  "too_many d =
     \<lparr>rs_status = 429,
      rs_headers = [(''Content-Type'', ''application/json''), (''Retry-After'', fmt_nat (retry_seconds d))],
      rs_body = JsonBody (json_map [(''error'', JStr ''too many requests''),
                                    (''retry_after'', json_int (int (retry_seconds d)))])\<rparr>"

definition rate_limit_middleware ::
  "auth_config option \<Rightarrow> int \<Rightarrow> 's handler \<Rightarrow> (entries \<times> 's) handler" where
  "rate_limit_middleware cfg now nxt r st =
     (case (st, case cfg of None \<Rightarrow> False | Some c \<Rightarrow> is_enabled c,
            case cfg of None \<Rightarrow> False | Some c \<Rightarrow> behind_proxy c) of
        ((rl, s), auth_on, proxied) \<Rightarrow>
          if \<not> auth_on then (case nxt r s of (resp, s') \<Rightarrow> (resp, (rl, s')))
          else
            (case allow now (client_ip r proxied) rl of
               ((allowed, retry), rl') \<Rightarrow>
                 if \<not> allowed then (too_many retry, (rl', s))
                 else (case nxt r s of (resp, s') \<Rightarrow> (resp, (rl', s')))))"

section \<open>Operations in sequence\<close>

datatype rl_op = Req int string | Tick int

fun op_time :: "rl_op \<Rightarrow> int" where
  "op_time (Req t ip) = t"
| "op_time (Tick t) = t"

fun rl_step :: "rl_op \<Rightarrow> entries \<Rightarrow> (bool \<times> int) option \<times> entries" where
  "rl_step (Req now ip) rl = (Some (fst (allow now ip rl)), snd (allow now ip rl))"
| "rl_step (Tick now) rl = (None, cleanup now rl)"

text \<open>The specification keeps the admitted requests of each address for ever, and the time of the
  last operation.\<close>

type_synonym rl_log = "int \<times> (string \<Rightarrow> int list)"

definition recent :: "int \<Rightarrow> int list \<Rightarrow> int list" where
  "recent now ts = filter (\<lambda>t. now - rate_limit_window < t) ts"

fun spec_step :: "rl_op \<Rightarrow> rl_log \<Rightarrow> (bool \<times> int) option \<times> rl_log" where
  "spec_step (Req now ip) (prev, log) =
     (if length (recent now (log ip)) < rate_limit_max
      then (Some (True, 0), (now, log(ip := log ip @ [now])))
      else (Some (False, max second (hd (recent now (log ip)) + rate_limit_window - now)), (now, log)))"
| "spec_step (Tick now) (prev, log) = (None, (now, log))"

definition later :: "rl_op \<Rightarrow> rl_log \<Rightarrow> bool" where
  "later e a \<longleftrightarrow> fst a \<le> op_time e"

definition rl_rel :: "entries \<Rightarrow> rl_log \<Rightarrow> bool" where
  "rl_rel rl a \<longleftrightarrow>
     (\<forall>ip. recent (fst a) (entry_of rl ip) = recent (fst a) (snd a ip))"

fun admitted :: "string \<Rightarrow> rl_op list \<Rightarrow> (bool \<times> int) option list \<Rightarrow> int list" where
  "admitted ip (Req t i # es) (Some (True, d) # os) =
     (if i = ip then t # admitted ip es os else admitted ip es os)"
| "admitted ip (e # es) (out # os) = admitted ip es os"
| "admitted ip es os = []"

section \<open>Facts\<close>

lemma prune_recent: "prune (now - rate_limit_window) ts = recent now ts"
  by (simp add: prune_def recent_def)

lemma recent_append [simp]: "recent now (ts @ us) = recent now ts @ recent now us"
  by (simp add: recent_def)

lemma recent_now [simp]: "recent now [now] = [now]"
  by (simp add: recent_def rate_limit_window_def)

lemma recent_recent: "t \<le> now \<Longrightarrow> recent now (recent t ts) = recent now ts"
  by (induction ts) (auto simp: recent_def)

lemma recent_eq_later:
  "recent t ts = recent t us \<Longrightarrow> t \<le> now \<Longrightarrow> recent now ts = recent now us"
  by (metis recent_recent)

lemma entry_of_upd: "entry_of (rl(ip \<mapsto> ts)) i = (if i = ip then ts else entry_of rl i)"
  by (simp add: entry_of_def)

lemma entry_of_empty [simp]: "entry_of Map.empty ip = []"
  by (simp add: entry_of_def)

lemma entry_of_cleanup: "entry_of (cleanup now rl) ip = recent now (entry_of rl ip)"
  by (auto simp: entry_of_def cleanup_def prune_recent recent_def split: option.split list.split)

lemma entry_of_allow:
  "entry_of (snd (allow now ip rl)) i =
     (if i \<noteq> ip then entry_of rl i
      else if rate_limit_max \<le> length (recent now (entry_of rl ip)) then recent now (entry_of rl ip)
      else recent now (entry_of rl ip) @ [now])"
  by (auto simp: allow_def Let_def prune_recent entry_of_upd)

lemma allow_out:
  "fst (allow now ip rl) =
     (if rate_limit_max \<le> length (recent now (entry_of rl ip))
      then (False, max second (hd (recent now (entry_of rl ip)) + rate_limit_window - now)) else (True, 0))"
  by (auto simp: allow_def Let_def prune_recent)

lemma rl_rel_later:
  assumes "rl_rel rl (prev, log)" "prev \<le> now"
  shows "recent now (entry_of rl ip) = recent now (log ip)"
  by (rule recent_eq_later [of prev]) (use assms in \<open>simp_all add: rl_rel_def\<close>)

lemma rl_step_simulates:
  assumes "rl_rel rl a" "later e a"
  shows "fst (rl_step e rl) = fst (spec_step e a)" "rl_rel (snd (rl_step e rl)) (snd (spec_step e a))"
proof -
  obtain prev log where a: "a = (prev, log)" by (cases a)
  have eq: "recent (op_time e) (entry_of rl ip) = recent (op_time e) (log ip)" for ip
    using assms rl_rel_later by (auto simp: a later_def)
  have idem: "recent t (recent t ts) = recent t ts" for t ts
    by (simp add: recent_def)
  show "fst (rl_step e rl) = fst (spec_step e a)"
    using eq by (cases e) (auto simp: a allow_out not_le)
  show "rl_rel (snd (rl_step e rl)) (snd (spec_step e a))"
    using eq
    by (cases e) (auto simp: a rl_rel_def entry_of_allow entry_of_cleanup idem)
qed

interpretation rl_sim: simulation rl_step spec_step rl_rel later
  by unfold_locales (simp_all add: rl_step_simulates)

section \<open>The bound\<close>

definition in_window :: "int \<Rightarrow> int list \<Rightarrow> int list" where
  "in_window t ts = filter (\<lambda>x. t - rate_limit_window < x \<and> x \<le> t) ts"

definition log_ok :: "rl_log \<Rightarrow> bool" where
  "log_ok a \<longleftrightarrow>
     (\<forall>ip. (\<forall>x\<in>set (snd a ip). x \<le> fst a) \<and> sorted (snd a ip) \<and>
       (\<forall>t. length (in_window t (snd a ip)) \<le> rate_limit_max))"

lemma in_window_append [simp]: "in_window t (xs @ ys) = in_window t xs @ in_window t ys"
  by (simp add: in_window_def)

lemma in_window_recent_length:
  assumes "now \<le> t"
  shows "length (in_window t ts) \<le> length (recent now ts)"
  using assms by (induction ts) (auto simp: in_window_def recent_def)

lemma window_bound_step:
  assumes "\<forall>t. length (in_window t ts) \<le> rate_limit_max" "length (recent now ts) < rate_limit_max"
  shows "length (in_window t (ts @ [now])) \<le> rate_limit_max"
proof (cases "now \<le> t")
  case True
  have "length (in_window t [now]) \<le> 1" by (simp add: in_window_def)
  with in_window_recent_length [OF True, of ts] assms(2) show ?thesis by simp
next
  case False
  then have "in_window t [now] = []" by (simp add: in_window_def)
  with assms(1) show ?thesis by simp
qed

lemma log_ok_step:
  assumes "log_ok a" "later e a"
  shows "log_ok (snd (spec_step e a))"
proof -
  obtain prev log where a: "a = (prev, log)" by (cases a)
  have older: "x \<le> op_time e" if "x \<in> set (log ip)" for x ip
    using assms that by (force simp: a log_ok_def later_def)
  have srt: "sorted (log ip)" for ip
    using assms(1) by (simp add: a log_ok_def)
  have bound: "\<forall>t. length (in_window t (log ip)) \<le> rate_limit_max" for ip
    using assms(1) by (simp add: a log_ok_def)
  show ?thesis
    using older srt bound window_bound_step [OF bound]
    by (cases e) (auto simp: a log_ok_def sorted_append)
qed

interpretation rl_bound: step_invariant spec_step log_ok later
  by unfold_locales (rule log_ok_step)

lemma spec_log_admitted:
  "snd (snd (run spec_step es a)) ip = snd a ip @ admitted ip es (fst (run spec_step es a))"
proof (induction es arbitrary: a)
  case (Cons e es)
  then show ?case by (cases a; cases e) auto
qed simp

text \<open>Time-ordered operations: the clock does not go back.\<close>

definition timed :: "int \<Rightarrow> rl_op list \<Rightarrow> bool" where
  "timed t0 es \<longleftrightarrow> sorted (t0 # map op_time es)"

lemma spec_step_time [simp]: "fst (snd (spec_step e a)) = op_time e"
  by (cases a; cases e) auto

lemma timed_enabled: "timed t0 es \<Longrightarrow> enabled later spec_step es (t0, log)"
proof -
  have "sorted (fst a # map op_time es) \<Longrightarrow> enabled later spec_step es a" for a
    by (induction es arbitrary: a) (auto simp: later_def)
  from this [of "(t0, log)"] show "timed t0 es \<Longrightarrow> enabled later spec_step es (t0, log)"
    by (simp add: timed_def)
qed

lemma rl_rel_start [simp]: "rl_rel Map.empty (t0, \<lambda>_. [])"
  by (simp add: rl_rel_def)

lemma log_ok_start [simp]: "log_ok (t0, \<lambda>_. [])"
  by (simp add: log_ok_def in_window_def)

lemma limiter_run:
  assumes "timed t0 es"
  shows "fst (run rl_step es Map.empty) = fst (run spec_step es (t0, \<lambda>_. []))"
    "rl_rel (snd (run rl_step es Map.empty)) (snd (run spec_step es (t0, \<lambda>_. [])))"
    "log_ok (snd (run spec_step es (t0, \<lambda>_. [])))"
  using rl_sim.run_out rl_sim.run_rel rl_bound.run_inv timed_enabled [OF assms]
    rl_rel_start log_ok_start by blast+

text \<open>What the reached states look like: the kept requests of an address that are still in the
  window are sorted, not in the future, and at most \<open>rate_limit_max\<close>.\<close>

definition ends_by :: "int \<Rightarrow> rl_op list \<Rightarrow> bool" where
  "ends_by now es \<longleftrightarrow> timed (if es = [] then now else op_time (hd es)) es \<and> (\<forall>e\<in>set es. op_time e \<le> now)"

lemma timed_hd: "timed t0 (e # es) \<Longrightarrow> timed (op_time e) (e # es)"
  by (simp add: timed_def)

lemma run_time: "es \<noteq> [] \<Longrightarrow> fst (snd (run spec_step es a)) = op_time (last es)"
  by (induction es arbitrary: a) auto

lemma reached_recent:
  fixes ip :: string
  assumes "ends_by now es"
  defines "ts \<equiv> recent now (entry_of (snd (run rl_step es Map.empty)) ip)"
  shows "sorted ts" "\<forall>x\<in>set ts. x \<le> now \<and> now - rate_limit_window < x" "length ts \<le> rate_limit_max"
proof -
  define t0 where "t0 = (if es = [] then now else op_time (hd es))"
  define a where "a = snd (run spec_step es (t0, \<lambda>_. []))"
  have timed: "timed t0 es" using assms(1) by (simp add: ends_by_def t0_def)
  have "fst a \<le> now"
    using assms(1) run_time [of es "(t0, \<lambda>_. [])"] by (cases "es = []") (auto simp: a_def ends_by_def t0_def)
  then have ts: "ts = recent now (snd a ip)" and ok: "log_ok a"
    using limiter_run [OF timed] rl_rel_later [of _ "fst a" "snd a"] by (simp_all add: ts_def a_def)
  have "recent now (snd a ip) = in_window now (snd a ip)"
    using ok \<open>fst a \<le> now\<close> unfolding recent_def in_window_def log_ok_def
    by (intro filter_cong) force+
  with ok show "length ts \<le> rate_limit_max"
    by (simp add: ts log_ok_def)
  have "sorted (snd a ip)" using ok by (simp add: log_ok_def)
  then show "sorted ts" by (simp add: ts recent_def sorted_wrt_filter)
  show "\<forall>x\<in>set ts. x \<le> now \<and> now - rate_limit_window < x"
    using ok \<open>fst a \<le> now\<close> by (force simp: ts log_ok_def recent_def)
qed

section \<open>Properties\<close>

text \<open>C13: The limiter's bookkeeping is exact: over any sequence of requests from any addresses and
  cleanup rounds in time order, its answers (admitted or not, and the time to wait) are those of
  the specification that remembers every admitted request for ever. Pruning and the background
  cleanup never change a decision.\<close>

theorem limiter_refines_log:
  assumes "timed t0 es"
  shows "fst (run rl_step es Map.empty) = fst (run spec_step es (t0, \<lambda>_. []))"
  by (rule limiter_run(1) [OF assms])

definition burst :: "string \<Rightarrow> rl_op list" where
  "burst ip = replicate 30 (Req (second div 2) ip) @ [Req second ip, Tick (2 * second), Req (100 * second) ip]"

theorem limiter_refines_log_witness:
  "drop 29 (fst (run rl_step (burst ''10.0.0.7'') Map.empty)) =
     [Some (True, 0), Some (False, 59 * second + second div 2), None, Some (True, 0)]"
proof -
  have "timed 0 (burst ''10.0.0.7'')" by code_simp
  then have "fst (run rl_step (burst ''10.0.0.7'') Map.empty) =
      fst (run spec_step (burst ''10.0.0.7'') (0, \<lambda>_. []))"
    by (rule limiter_refines_log)
  moreover have "drop 29 (fst (run spec_step (burst ''10.0.0.7'') (0, \<lambda>_. []))) =
     [Some (True, 0), Some (False, 59 * second + second div 2), None, Some (True, 0)]"
    by code_simp
  ultimately show ?thesis by simp
qed

text \<open>C23: The sliding-window bound: in no window of 60 seconds, wherever it starts, are more than 30
  requests of one address admitted.\<close>

theorem sliding_window_bound:
  assumes "timed t0 es"
  shows "length (in_window t (admitted ip es (fst (run rl_step es Map.empty)))) \<le> 30"
proof -
  have "admitted ip es (fst (run rl_step es Map.empty)) = snd (snd (run spec_step es (t0, \<lambda>_. []))) ip"
    using limiter_run(1) [OF assms] by (simp add: spec_log_admitted)
  then show ?thesis
    using limiter_run(3) [OF assms] by (simp add: log_ok_def rate_limit_max_def)
qed

theorem sliding_window_bound_witness:
  "length (in_window (2 * second) (admitted ''10.0.0.7'' (burst ''10.0.0.7'')
     (fst (run rl_step (burst ''10.0.0.7'') Map.empty)))) \<le> 30"
proof -
  have "timed 0 (burst ''10.0.0.7'')" by code_simp
  then show ?thesis by (rule sliding_window_bound)
qed

text \<open>The wait a refused request is told is honest: it is between one second and the window, and
  the same address, asking again after exactly that time, is admitted.\<close>

theorem retry_after_admits:
  assumes "ends_by now es" "rl = snd (run rl_step es Map.empty)"
    and "allow now ip rl = ((False, d), rl')"
  shows "second \<le> d \<and> d \<le> rate_limit_window \<and> fst (fst (allow (now + d) ip rl'))"
proof -
  define ts where "ts = recent now (entry_of rl ip)"
  note reached = reached_recent [OF assms(1), of ip, folded assms(2) ts_def]
  have full: "rate_limit_max \<le> length ts" and d: "d = max second (hd ts + rate_limit_window - now)"
    using allow_out [of now ip rl] assms(3) by (auto simp: ts_def split: if_splits)
  have rl': "entry_of rl' ip = ts"
    using entry_of_allow [of now ip rl ip] full assms(3) by (simp add: ts_def)
  have "ts \<noteq> []" using full by (auto simp: rate_limit_max_def)
  then obtain t us where tsc: "ts = t # us" by (cases ts) auto
  have "length (recent (now + d) ts) \<le> length us"
    using d unfolding tsc by (simp add: recent_def)
  also have "\<dots> < rate_limit_max" using reached(3) by (simp add: tsc)
  finally have "fst (fst (allow (now + d) ip rl'))" by (simp add: allow_out rl')
  moreover have "d \<le> rate_limit_window"
    using d reached(2) by (auto simp: tsc rate_limit_window_def second_def)
  ultimately show ?thesis using d by simp
qed

definition full_limiter :: "rl_op list" where
  "full_limiter = replicate 30 (Req (second div 2) ''10.0.0.7'')"

lemma answer_by_log:
  assumes "timed t0 (es @ [Req now ip])"
  shows "Some (fst (allow now ip (snd (run rl_step es Map.empty)))) =
    last (fst (run spec_step (es @ [Req now ip]) (t0, \<lambda>_. [])))"
  unfolding limiter_run(1) [OF assms, symmetric] by (simp add: run_append)

lemma full_limiter_answer:
  "fst (allow second ''10.0.0.7'' (snd (run rl_step full_limiter Map.empty))) =
     (False, 59 * second + second div 2)"
proof -
  have "timed 0 (full_limiter @ [Req second ''10.0.0.7''])" by code_simp
  moreover have "last (fst (run spec_step (full_limiter @ [Req second ''10.0.0.7'']) (0, \<lambda>_. []))) =
      Some (False, 59 * second + second div 2)"
    by code_simp
  ultimately show ?thesis by (metis answer_by_log option.inject)
qed

lemma pair_state: "fst p = x \<Longrightarrow> p = (x, snd p)"
  by (cases p) simp

theorem retry_after_admits_witness:
  "second \<le> 59 * second + second div 2 \<and> 59 * second + second div 2 \<le> rate_limit_window \<and>
   fst (fst (allow (second + (59 * second + second div 2)) ''10.0.0.7''
     (snd (allow second ''10.0.0.7'' (snd (run rl_step full_limiter Map.empty))))))"
proof -
  have e: "ends_by second full_limiter" by code_simp
  note out = full_limiter_answer
  show ?thesis by (rule retry_after_admits [OF e refl pair_state [OF out]])
qed

text \<open>The \<open>Retry-After\<close> header is that wait rounded down to seconds, so a client that obeys it to
  the letter can be refused again: whenever the wait is longer than a second and not a whole
  number of seconds, the request made after the advertised time is refused.\<close>

theorem retry_after_header_too_short:
  assumes "ends_by now es" "rl = snd (run rl_step es Map.empty)"
    and "allow now ip rl = ((False, d), rl')"
    and "second < d" "d mod second \<noteq> 0"
  shows "\<not> fst (fst (allow (now + int (retry_seconds d) * second) ip rl'))"
proof -
  define ts where "ts = recent now (entry_of rl ip)"
  note reached = reached_recent [OF assms(1), of ip, folded assms(2) ts_def]
  have full: "rate_limit_max \<le> length ts" and d: "d = hd ts + rate_limit_window - now"
    using allow_out [of now ip rl] assms(3,4) by (auto simp: ts_def split: if_splits)
  have rl': "entry_of rl' ip = ts"
    using entry_of_allow [of now ip rl ip] full assms(3) by (simp add: ts_def)
  have pos: "0 < second" by (simp add: second_def)
  then have "int (retry_seconds d) = d div second"
    using assms(4) pos_imp_zdiv_nonneg_iff [of second d] by (simp add: retry_seconds_def)
  then have early: "int (retry_seconds d) * second < d"
    using assms(5) pos pos_mod_sign [of second d] minus_mod_eq_div_mult [of d second]
    by (metis diff_less_eq le_neq_trans less_add_same_cancel1)
  have "now + int (retry_seconds d) * second - rate_limit_window < x" if "x \<in> set ts" for x
  proof -
    have "hd ts \<le> x" using that reached(1) by (cases ts) auto
    with early d show ?thesis by linarith
  qed
  then have "recent (now + int (retry_seconds d) * second) ts = ts"
    by (simp add: recent_def filter_id_conv)
  with full show ?thesis by (simp add: allow_out rl')
qed

theorem retry_after_header_too_short_witness:
  "retry_seconds (59 * second + second div 2) = 59 \<and>
   \<not> fst (fst (allow (second + 59 * second) ''10.0.0.7''
     (snd (allow second ''10.0.0.7'' (snd (run rl_step full_limiter Map.empty))))))"
proof -
  have e: "ends_by second full_limiter" by code_simp
  note out = full_limiter_answer
  have d: "second < 59 * second + second div 2" "(59 * second + second div 2) mod second \<noteq> 0"
    and h: "retry_seconds (59 * second + second div 2) = 59"
    by code_simp+
  show ?thesis
    using retry_after_header_too_short [OF e refl pair_state [OF out] d] unfolding h of_nat_numeral
    by (intro conjI refl)
qed

text \<open>The middleware: with no credentials configured it is transparent; otherwise it answers 429
  with the wait, leaving the state behind it unchanged, exactly when the limiter refuses the
  client's address, and hands the request on when the limiter admits it. Neither the path nor
  the credentials of the request count, so requests with a valid key are limited like all
  others.\<close>

theorem rate_limit_middleware_cases:
  "rate_limit_middleware (Some cfg) now nxt r (rl, s) =
     (if \<not> is_enabled cfg then (fst (nxt r s), (rl, snd (nxt r s)))
      else if length (recent now (entry_of rl (client_ip r (behind_proxy cfg)))) < 30 then
        (fst (nxt r s), (snd (allow now (client_ip r (behind_proxy cfg)) rl), snd (nxt r s)))
      else
        (too_many (snd (fst (allow now (client_ip r (behind_proxy cfg)) rl))),
         (snd (allow now (client_ip r (behind_proxy cfg)) rl), s)))"
proof -
  let ?ip = "client_ip r (behind_proxy cfg)"
  obtain b d rl' where al: "allow now ?ip rl = ((b, d), rl')" by (metis prod.collapse)
  then have "b \<longleftrightarrow> length (recent now (entry_of rl ?ip)) < 30"
    using allow_out [of now ?ip rl] by (auto simp: rate_limit_max_def split: if_splits)
  with al show ?thesis
    by (auto simp: rate_limit_middleware_def split: prod.split)
qed

end
