(* ===== verification/Config.thy ===== *)
theory Config
  imports Auth
begin

text \<open>
  \<open>internal/config/config.go\<close>: the configuration read from the environment, a function that gives
  the empty string for a variable that is not set, as \<open>os.Getenv\<close> does.
\<close>

record server_config =
  cfg_listen_addr :: string
  cfg_pi_bin_path :: string
  cfg_pi_args :: "string list"
  cfg_sessions_base_dir :: string
  cfg_default_working_dir :: string
  cfg_auth :: auth_config
  cfg_store_driver :: string
  cfg_store_dsn :: string

type_synonym environment = "string \<Rightarrow> string"

definition listen_addr_from_env :: "environment \<Rightarrow> string" where
  "listen_addr_from_env env =
     (if env ''ZOEA_LISTEN_ADDR'' \<noteq> [] then env ''ZOEA_LISTEN_ADDR'' else '':7777'')"

definition env_or_default :: "environment \<Rightarrow> string \<Rightarrow> string \<Rightarrow> string" where
  "env_or_default env key fallback = (let v = env key in if v = [] then fallback else v)"

definition split_args :: "string \<Rightarrow> string list" where
  "split_args raw =
     (let fs = Go_Strings.fields (trim_space raw) in if length fs = 0 then [''--mode'', ''rpc''] else fs)"

definition load_from_env :: "environment \<Rightarrow> server_config" where
  "load_from_env env =
     \<lparr>cfg_listen_addr = listen_addr_from_env env,
      cfg_pi_bin_path = env_or_default env ''PI_BIN_PATH'' ''pi'',
      cfg_pi_args = split_args (env_or_default env ''PI_DEFAULT_ARGS'' ''--mode rpc''),
      cfg_sessions_base_dir = env_or_default env ''ZOEA_PI_SESSION_DIR'' ''./.zoea-sessions'',
      cfg_default_working_dir = trim_space (env ''ZOEA_WORKING_DIR''),
      cfg_auth =
        \<lparr>api_keys = parse_api_keys (env ''AUTH_API_KEYS''), jwks_url = env ''AUTH_JWKS_URL'',
         jwt_issuer = env ''AUTH_JWT_ISSUER'', jwt_audience = env ''AUTH_JWT_AUDIENCE'',
         behind_proxy = (env ''ZOEA_BEHIND_PROXY'' \<noteq> [])\<rparr>,
      cfg_store_driver = env_or_default env ''STORE_DRIVER'' ''sqlite'',
      cfg_store_dsn = env_or_default env ''ZOEA_STORE_DSN'' ''./.zoea.db''\<rparr>"

lemma split_args_nonempty: "split_args raw \<noteq> []"
  by (simp add: split_args_def Let_def)

lemma load_auth_enabled:
  "is_enabled (cfg_auth (load_from_env env)) \<longleftrightarrow>
     parse_api_keys (env ''AUTH_API_KEYS'') \<noteq> [] \<or> env ''AUTH_JWKS_URL'' \<noteq> []"
  by (simp add: load_from_env_def is_enabled_def)

end
