(* ===== verification/Store.thy ===== *)
theory Store
  imports Timestamps
begin

text \<open>
  \<open>internal/store/store.go\<close>: the records, the two sentinel errors and the \<open>Store\<close> interface. A
  store is a record of operations on a world \<open>'w\<close> that holds whatever the implementation keeps
  (and the faults its database will report). Where the code may read the clock, in \<open>toTS\<close>, the
  operation is given the reading. The locale \<open>store_contract\<close> is what the session manager relies
  on, stated over a view of the world as a map from ids to records.
\<close>

record session_record =
  s_id :: string
  s_user_id :: string
  s_project_id :: string
  s_external_id :: string
  s_status :: string
  s_pi_pid :: int
  s_working_dir :: string
  s_created_at :: go_time
  s_last_active_at :: go_time

record list_sessions_query =
  q_user_id :: string
  q_external_id :: string
  q_working_dir :: string
  q_limit :: int
  q_offset :: int

record message_record =
  m_session_id :: string
  m_role :: string
  m_content :: string
  m_model :: string
  m_usage_json :: string
  m_raw_json :: string
  m_timestamp :: go_time

datatype store_error = Store_Not_Found | Store_Conflict | Store_Failed string

record 'w store_ops =
  st_init :: "'w \<Rightarrow> (store_error + unit) \<times> 'w"
  st_create :: "go_time \<Rightarrow> session_record \<Rightarrow> 'w \<Rightarrow> (store_error + unit) \<times> 'w"
  st_get :: "string \<Rightarrow> 'w \<Rightarrow> (store_error + session_record) \<times> 'w"
  st_list :: "list_sessions_query \<Rightarrow> 'w \<Rightarrow> (store_error + session_record list) \<times> 'w"
  st_delete :: "string \<Rightarrow> 'w \<Rightarrow> (store_error + unit) \<times> 'w"
  st_touch :: "go_time \<Rightarrow> string \<Rightarrow> go_time \<Rightarrow> 'w \<Rightarrow> (store_error + unit) \<times> 'w"
  st_replace :: "go_time \<Rightarrow> string \<Rightarrow> message_record list \<Rightarrow> 'w \<Rightarrow> (store_error + unit) \<times> 'w"
  st_count :: "'w \<Rightarrow> (store_error + int) \<times> 'w"
  st_max_id :: "'w \<Rightarrow> (store_error + string) \<times> 'w"

text \<open>What a store gives back for a record it was given: blank optional fields come back empty, a
  blank status as \<open>active\<close>, a zero time as the time of the call.\<close>

definition blank_to_empty :: "string \<Rightarrow> string" where
  "blank_to_empty v = (if trim_space v = [] then [] else v)"

definition time_or_now :: "go_time \<Rightarrow> go_time \<Rightarrow> go_time" where
  "time_or_now now t = (if t = zero_time then now else t)"

definition stored :: "go_time \<Rightarrow> session_record \<Rightarrow> session_record" where
  "stored now r =
     r\<lparr>s_project_id := blank_to_empty (s_project_id r),
       s_external_id := blank_to_empty (s_external_id r),
       s_status := (if trim_space (s_status r) = [] then ''active'' else s_status r),
       s_working_dir := blank_to_empty (s_working_dir r),
       s_created_at := time_or_now now (s_created_at r),
       s_last_active_at := time_or_now now (s_last_active_at r)\<rparr>"

definition storable :: "go_time \<Rightarrow> session_record \<Rightarrow> bool" where
  "storable now r \<longleftrightarrow> valid_time now \<and> valid_time (s_created_at r) \<and> valid_time (s_last_active_at r)"

lemma stored_simps [simp]:
  "s_id (stored now r) = s_id r" "s_user_id (stored now r) = s_user_id r"
  "s_pi_pid (stored now r) = s_pi_pid r"
  by (simp_all add: stored_def)

text \<open>The ids the session manager gives out, \<open>fmt.Sprintf("s_%06d", n)\<close>, and stores that hold only
  such ids, with numbers of at most six digits.\<close>

definition session_id :: "nat \<Rightarrow> string" where
  "session_id n = ''s_'' @ fmt_06d n"

lemma session_id_inject [simp]: "session_id m = session_id n \<longleftrightarrow> m = n"
  by (simp add: session_id_def)

definition six_digit_ids :: "string set \<Rightarrow> bool" where
  "six_digit_ids ids \<longleftrightarrow> (\<forall>i\<in>ids. \<exists>n<1000000. i = session_id n)"

locale store_contract =
  fixes st :: "'w store_ops"
    and view :: "'w \<Rightarrow> string \<Rightarrow> session_record option"
    and ok :: "'w \<Rightarrow> bool"
  assumes get_view: "view (snd (st_get st sid w)) = view w"
    and get_found: "ok w \<Longrightarrow> fst (st_get st sid w) = Inr r \<Longrightarrow> view w sid = Some r"
    and get_missing: "ok w \<Longrightarrow> fst (st_get st sid w) = Inl Store_Not_Found \<Longrightarrow> view w sid = None"
    and create_done:
      "ok w \<Longrightarrow> storable now r \<Longrightarrow> fst (st_create st now r w) = Inr () \<Longrightarrow>
         view w (s_id r) = None \<and> view (snd (st_create st now r w)) = (view w)(s_id r \<mapsto> stored now r)"
    and create_failed: "fst (st_create st now r w) = Inl e \<Longrightarrow> view (snd (st_create st now r w)) = view w"
    and delete_done:
      "ok w \<Longrightarrow> fst (st_delete st sid w) = Inr () \<Longrightarrow>
         view w sid \<noteq> None \<and> view (snd (st_delete st sid w)) = (view w)(sid := None)"
    and delete_missing:
      "ok w \<Longrightarrow> fst (st_delete st sid w) = Inl Store_Not_Found \<Longrightarrow> view w sid = None"
    and delete_failed: "fst (st_delete st sid w) = Inl e \<Longrightarrow> view (snd (st_delete st sid w)) = view w"
    and touch_done:
      "ok w \<Longrightarrow> valid_time now \<Longrightarrow> valid_time t \<Longrightarrow> fst (st_touch st now sid t w) = Inr () \<Longrightarrow>
         \<exists>r. view w sid = Some r \<and>
           view (snd (st_touch st now sid t w)) = (view w)(sid \<mapsto> r\<lparr>s_last_active_at := time_or_now now t\<rparr>)"
    and touch_failed: "fst (st_touch st now sid t w) = Inl e \<Longrightarrow> view (snd (st_touch st now sid t w)) = view w"
    and list_view: "view (snd (st_list st q w)) = view w"
    and list_records:
      "ok w \<Longrightarrow> fst (st_list st q w) = Inr rs \<Longrightarrow> r \<in> set rs \<Longrightarrow> view w (s_id r) = Some r"
    and max_view: "view (snd (st_max_id st w)) = view w"
    and view_id: "ok w \<Longrightarrow> view w sid = Some r \<Longrightarrow> s_id r = sid"
    and ok_get: "ok w \<Longrightarrow> ok (snd (st_get st sid w))"
    and ok_create: "ok w \<Longrightarrow> ok (snd (st_create st now r w))"
    and ok_delete: "ok w \<Longrightarrow> ok (snd (st_delete st sid w))"
    and ok_touch: "ok w \<Longrightarrow> ok (snd (st_touch st now sid t w))"
    and ok_list: "ok w \<Longrightarrow> ok (snd (st_list st q w))"
    and ok_max: "ok w \<Longrightarrow> ok (snd (st_max_id st w))"
begin

lemma dom_get: "dom (view (snd (st_get st sid w))) = dom (view w)"
  by (simp add: get_view)

lemma create_dom:
  assumes "ok w" "storable now r"
  shows "dom (view (snd (st_create st now r w))) =
    (if fst (st_create st now r w) = Inr () then insert (s_id r) (dom (view w)) else dom (view w))"
  using create_done [OF assms] create_failed by (cases "fst (st_create st now r w)") auto

lemma delete_dom:
  assumes "ok w"
  shows "dom (view (snd (st_delete st sid w))) =
    (if fst (st_delete st sid w) = Inr () then dom (view w) - {sid} else dom (view w))"
  using delete_done [OF assms] delete_failed by (cases "fst (st_delete st sid w)") auto

lemma touch_dom:
  assumes "ok w" "valid_time now" "valid_time t"
  shows "dom (view (snd (st_touch st now sid t w))) = dom (view w)"
proof (cases "fst (st_touch st now sid t w)")
  case (Inr u)
  then show ?thesis using touch_done [OF assms, of sid] by (auto split: if_splits)
qed (simp add: touch_failed)

text \<open>Create, then get: the record as the store normalises it, or the error of the second query.\<close>

lemma create_get:
  assumes "ok w" "storable now r" "fst (st_create st now r w) = Inr ()"
    and "fst (st_get st (s_id r) (snd (st_create st now r w))) = Inr r'"
  shows "r' = stored now r"
  using get_found [OF ok_create [OF assms(1)] assms(4)] create_done [OF assms(1-3)] by simp

text \<open>An id is given to one session at a time.\<close>

lemma create_twice:
  assumes "ok w" "storable now r" "view w (s_id r) \<noteq> None"
  shows "fst (st_create st now r w) \<noteq> Inr ()"
  using create_done [OF assms(1,2)] assms(3) by auto

end

text \<open>A store whose \<open>GetMaxSessionID\<close> finds the largest number, as long as all ids have six digits.\<close>

locale numbered_store = store_contract st view ok
  for st :: "'w store_ops" and view :: "'w \<Rightarrow> string \<Rightarrow> session_record option" and ok :: "'w \<Rightarrow> bool" +
  assumes max_found:
    "ok w \<Longrightarrow> six_digit_ids (dom (view w)) \<Longrightarrow> fst (st_max_id st w) = Inr m \<Longrightarrow>
       (if dom (view w) = {} then m = []
        else \<exists>k<1000000. m = session_id k \<and> m \<in> dom (view w) \<and>
          (\<forall>n. session_id n \<in> dom (view w) \<longrightarrow> n \<le> k))"
begin

lemma max_bounds:
  assumes "ok w" "six_digit_ids (dom (view w))" "fst (st_max_id st w) = Inr (session_id k)"
    and "session_id n \<in> dom (view w)"
  shows "n \<le> k"
  using max_found [OF assms(1-3)] assms(4) by (auto split: if_splits)

end

end
