(* ===== verification/Sqlite.thy ===== *)
theory Sqlite
  imports Store Filepath "HOL-Library.Multiset"
begin

text \<open>
  \<open>internal/store/sqlite.go\<close>. The database is the two tables of the schema, rows in insertion order
  and nullable columns as options; the statements of the file are functions on it with the
  constraints of the schema (primary key, the partial unique index on \<open>external_id\<close>, the foreign
  key with cascade). What the driver reports beyond that (disk, locks, a cancelled context) is the
  list \<open>db_faults\<close>: one entry per statement, the error it fails with before it has an effect. A
  \<open>COMMIT\<close> that fails may leave its transaction open, as SQLite documents for \<open>SQLITE_BUSY\<close>; the
  messages with which it does are \<open>db_keeps_open\<close>, and \<open>db_uncommitted\<close> then holds the tables without it. As the
  pool has one connection (\<open>SetMaxOpenConns(1)\<close>) every later statement runs inside that transaction;
  it ends when the database is closed. The order of rows with equal keys, which \<open>ORDER BY\<close> leaves
  open, is chosen anew for each listing: \<open>db_ties\<close> has for each the ids to be put first.
\<close>

section \<open>Tables\<close>

record session_row =
  row_id :: string
  row_user_id :: string
  row_project_id :: "string option"
  row_external_id :: "string option"
  row_status :: string
  row_pi_pid :: "int option"
  row_working_dir :: "string option"
  row_created_at :: string
  row_last_active_at :: string

record message_row =
  mrow_id :: nat
  mrow_session_id :: string
  mrow_role :: string
  mrow_content :: "string option"
  mrow_model :: "string option"
  mrow_usage_json :: "string option"
  mrow_raw_json :: "string option"
  mrow_timestamp :: string

record db =
  db_closed :: bool
  db_tables :: bool
  db_has_raw :: bool
  db_sessions :: "session_row list"
  db_messages :: "message_row list"
  db_next_message :: nat
  db_faults :: "string option list"
  db_keeps_open :: "string list"
  db_uncommitted :: "(session_row list \<times> message_row list \<times> nat) option"
  db_ties :: "string list list"

definition next_fault :: "db \<Rightarrow> string option \<times> db" where
  "next_fault d =
     (if db_closed d then (Some ''sql: database is closed'', d)
      else (case db_faults d of [] \<Rightarrow> (None, d) | f # fs \<Rightarrow> (f, d\<lparr>db_faults := fs\<rparr>)))"

definition next_ties :: "db \<Rightarrow> string list \<times> db" where
  "next_ties d = (case db_ties d of [] \<Rightarrow> ([], d) | t # ts \<Rightarrow> (t, d\<lparr>db_ties := ts\<rparr>))"

text \<open>The messages of the driver that the code tells apart.\<close>

definition unique_failed :: "string \<Rightarrow> string" where
  "unique_failed col = ''constraint failed: UNIQUE constraint failed: sessions.'' @ col"

definition no_table :: "string \<Rightarrow> string" where
  "no_table t = ''SQL logic error: no such table: '' @ t @ '' (1)''"

definition is_unique_constraint :: "string \<Rightarrow> bool" where
  "is_unique_constraint msg \<longleftrightarrow>
     contains_sub (to_lower msg) ''unique constraint failed'' \<or>
     contains_sub (to_lower msg) ''constraint failed''"

definition is_duplicate_column :: "string \<Rightarrow> bool" where
  "is_duplicate_column msg \<longleftrightarrow> contains_sub (to_lower msg) ''duplicate column name''"

section \<open>Values\<close>

definition nullable_string :: "string \<Rightarrow> string option" where
  "nullable_string v = (if trim_space v = [] then None else Some v)"

definition nullable_int :: "int \<Rightarrow> int option" where
  "nullable_int v = (if v = 0 then None else Some v)"

definition nullable_string_value :: "string option \<Rightarrow> string" where
  "nullable_string_value v = (case v of None \<Rightarrow> [] | Some s \<Rightarrow> s)"

definition default_string :: "string \<Rightarrow> string \<Rightarrow> string" where
  "default_string v fallback = (if trim_space v = [] then fallback else v)"

definition row_of :: "go_time \<Rightarrow> session_record \<Rightarrow> session_row" where
  "row_of now r =
     \<lparr>row_id = s_id r, row_user_id = s_user_id r, row_project_id = nullable_string (s_project_id r),
      row_external_id = nullable_string (s_external_id r),
      row_status = default_string (s_status r) ''active'', row_pi_pid = nullable_int (s_pi_pid r),
      row_working_dir = nullable_string (s_working_dir r), row_created_at = to_ts now (s_created_at r),
      row_last_active_at = to_ts now (s_last_active_at r)\<rparr>"

definition of_row :: "session_row \<Rightarrow> session_record" where
  "of_row w =
     \<lparr>s_id = row_id w, s_user_id = row_user_id w, s_project_id = nullable_string_value (row_project_id w),
      s_external_id = nullable_string_value (row_external_id w), s_status = row_status w,
      s_pi_pid = (case row_pi_pid w of None \<Rightarrow> 0 | Some n \<Rightarrow> n),
      s_working_dir = nullable_string_value (row_working_dir w),
      s_created_at = from_ts (row_created_at w), s_last_active_at = from_ts (row_last_active_at w)\<rparr>"

section \<open>Statements\<close>

definition sql_insert_session :: "session_row \<Rightarrow> db \<Rightarrow> (string + unit) \<times> db" where
  "sql_insert_session w d0 =
     (case next_fault d0 of (fault, d) \<Rightarrow>
        (case fault of
           Some msg \<Rightarrow> (Inl msg, d)
         | None \<Rightarrow>
             if \<not> db_tables d then (Inl (no_table ''sessions''), d)
             else if row_id w \<in> set (map row_id (db_sessions d)) then (Inl (unique_failed ''id''), d)
             else if row_external_id w \<noteq> None \<and>
               row_external_id w \<in> set (map row_external_id (db_sessions d))
             then (Inl (unique_failed ''external_id''), d)
             else (Inr (), d\<lparr>db_sessions := db_sessions d @ [w]\<rparr>)))"

text \<open>A query whose statement or whose iteration over the rows may fail.\<close>

definition sql_query :: "(session_row list \<Rightarrow> 'a) \<Rightarrow> db \<Rightarrow> (string + 'a) \<times> db" where
  "sql_query q d0 =
     (case next_fault d0 of (fault, d) \<Rightarrow>
        (case fault of
           Some msg \<Rightarrow> (Inl msg, d)
         | None \<Rightarrow> if \<not> db_tables d then (Inl (no_table ''sessions''), d) else (Inr (q (db_sessions d)), d)))"

text \<open>\<open>DELETE FROM sessions WHERE id = ?\<close> with \<open>ON DELETE CASCADE\<close>; the result is the number of rows.\<close>

definition sql_delete_session :: "string \<Rightarrow> db \<Rightarrow> (string + nat) \<times> db" where
  "sql_delete_session sid d0 =
     (case next_fault d0 of (fault, d) \<Rightarrow>
        (case fault of
           Some msg \<Rightarrow> (Inl msg, d)
         | None \<Rightarrow>
             if \<not> db_tables d then (Inl (no_table ''sessions''), d)
             else
               (Inr (length (filter (\<lambda>w. row_id w = sid) (db_sessions d))),
                d\<lparr>db_sessions := filter (\<lambda>w. row_id w \<noteq> sid) (db_sessions d),
                  db_messages :=
                    (if sid \<in> set (map row_id (db_sessions d))
                     then filter (\<lambda>m. mrow_session_id m \<noteq> sid) (db_messages d) else db_messages d)\<rparr>)))"

definition sql_update_activity :: "string \<Rightarrow> string \<Rightarrow> db \<Rightarrow> (string + nat) \<times> db" where
  "sql_update_activity ts sid d0 =
     (case next_fault d0 of (fault, d) \<Rightarrow>
        (case fault of
           Some msg \<Rightarrow> (Inl msg, d)
         | None \<Rightarrow>
             if \<not> db_tables d then (Inl (no_table ''sessions''), d)
             else
               (Inr (length (filter (\<lambda>w. row_id w = sid) (db_sessions d))),
                d\<lparr>db_sessions :=
                  map (\<lambda>w. if row_id w = sid then w\<lparr>row_last_active_at := ts\<rparr> else w) (db_sessions d)\<rparr>)))"

section \<open>The store's methods\<close>

definition sqlite_create :: "go_time \<Rightarrow> session_record \<Rightarrow> db \<Rightarrow> (store_error + unit) \<times> db" where
  "sqlite_create now r d =
     (case sql_insert_session (row_of now r) d of
        (Inl msg, d') \<Rightarrow> (Inl (if is_unique_constraint msg then Store_Conflict else Store_Failed msg), d')
      | (Inr u, d') \<Rightarrow> (Inr (), d'))"

definition sqlite_get :: "string \<Rightarrow> db \<Rightarrow> (store_error + session_record) \<times> db" where
  "sqlite_get sid d =
     (case sql_query (find (\<lambda>w. row_id w = sid)) d of
        (Inl msg, d') \<Rightarrow> (Inl (Store_Failed msg), d')
      | (Inr None, d') \<Rightarrow> (Inl Store_Not_Found, d')
      | (Inr (Some w), d') \<Rightarrow> (Inr (of_row w), d'))"

definition page_limit :: "int \<Rightarrow> nat" where
  "page_limit l = (if l \<le> 0 then 50 else if 200 < l then 200 else nat l)"

definition page_offset :: "int \<Rightarrow> nat" where
  "page_offset n = (if n < 0 then 0 else nat n)"

text \<open>The \<open>WHERE\<close> clause the code assembles: a filter for each parameter that is not blank.\<close>

definition matches :: "list_sessions_query \<Rightarrow> session_row \<Rightarrow> bool" where
  "matches q w \<longleftrightarrow>
     (trim_space (q_user_id q) \<noteq> [] \<longrightarrow> row_user_id w = trim_space (q_user_id q)) \<and>
     (trim_space (q_external_id q) \<noteq> [] \<longrightarrow> row_external_id w = Some (trim_space (q_external_id q))) \<and>
     (trim_space (q_working_dir q) \<noteq> [] \<longrightarrow> row_working_dir w = Some (trim_space (q_working_dir q)))"

text \<open>\<open>ORDER BY created_at DESC\<close> on the text. Rows with equal text come in the order of their ids in
  \<open>ties\<close>, which can be any.\<close>

definition tie_rank :: "string list \<Rightarrow> session_row \<Rightarrow> nat" where
  "tie_rank ties w = length (takeWhile (\<lambda>i. i \<noteq> row_id w) ties)"

definition newest_first :: "string list \<Rightarrow> session_row list \<Rightarrow> session_row list" where
  "newest_first ties ws = rev (sort_key row_created_at (rev (sort_key (tie_rank ties) ws)))"

definition select_page :: "list_sessions_query \<Rightarrow> string list \<Rightarrow> session_row list \<Rightarrow> session_row list" where
  "select_page q ties ws =
     take (page_limit (q_limit q)) (drop (page_offset (q_offset q)) (newest_first ties (filter (matches q) ws)))"

definition sqlite_list :: "list_sessions_query \<Rightarrow> db \<Rightarrow> (store_error + session_record list) \<times> db" where
  "sqlite_list q d0 =
     (case next_ties d0 of (ties, d) \<Rightarrow>
        (case sql_query (select_page q ties) d of
           (Inl msg, d') \<Rightarrow> (Inl (Store_Failed msg), d')
         | (Inr ws, d') \<Rightarrow>
             (case next_fault d' of
                (Some msg, d'') \<Rightarrow> (Inl (Store_Failed msg), d'')
              | (None, d'') \<Rightarrow> (Inr (map of_row ws), d''))))"

definition sqlite_delete :: "string \<Rightarrow> db \<Rightarrow> (store_error + unit) \<times> db" where
  "sqlite_delete sid d =
     (case sql_delete_session sid d of
        (Inl msg, d') \<Rightarrow> (Inl (Store_Failed msg), d')
      | (Inr aff, d') \<Rightarrow> if aff = 0 then (Inl Store_Not_Found, d') else (Inr (), d'))"

definition sqlite_touch :: "go_time \<Rightarrow> string \<Rightarrow> go_time \<Rightarrow> db \<Rightarrow> (store_error + unit) \<times> db" where
  "sqlite_touch now sid t d =
     (case sql_update_activity (to_ts now t) sid d of
        (Inl msg, d') \<Rightarrow> (Inl (Store_Failed msg), d')
      | (Inr aff, d') \<Rightarrow> if aff = 0 then (Inl Store_Not_Found, d') else (Inr (), d'))"

definition sqlite_count :: "db \<Rightarrow> (store_error + int) \<times> db" where
  "sqlite_count d =
     (case sql_query (\<lambda>ws. int (length ws)) d of
        (Inl msg, d') \<Rightarrow> (Inl (Store_Failed msg), d')
      | (Inr n, d') \<Rightarrow> (Inr n, d'))"

text \<open>\<open>WHERE id GLOB 's_[0-9]*' ORDER BY id DESC LIMIT 1\<close>\<close>

definition glob_session :: "string \<Rightarrow> bool" where
  "glob_session i \<longleftrightarrow> (case i of a # b # c # cs \<Rightarrow> a = CHR ''s'' \<and> b = CHR ''_'' \<and> is_digit_char c | _ \<Rightarrow> False)"

definition greatest_id :: "session_row list \<Rightarrow> string option" where
  "greatest_id ws =
     (case filter glob_session (map row_id ws) of [] \<Rightarrow> None | i # is \<Rightarrow> Some (fold max is i))"

definition sqlite_max_id :: "db \<Rightarrow> (store_error + string) \<times> db" where
  "sqlite_max_id d =
     (case sql_query greatest_id d of
        (Inl msg, d') \<Rightarrow> (Inl (Store_Failed msg), d')
      | (Inr None, d') \<Rightarrow> (Inr [], d')
      | (Inr (Some i), d') \<Rightarrow> (Inr i, d'))"

section \<open>Messages\<close>

definition message_row_of :: "nat \<Rightarrow> go_time \<Rightarrow> string \<Rightarrow> message_record \<Rightarrow> message_row" where
  "message_row_of n now sid m =
     \<lparr>mrow_id = n, mrow_session_id = sid, mrow_role = m_role m, mrow_content = nullable_string (m_content m),
      mrow_model = nullable_string (m_model m), mrow_usage_json = nullable_string (m_usage_json m),
      mrow_raw_json = nullable_string (m_raw_json m), mrow_timestamp = to_ts now (m_timestamp m)\<rparr>"

fun insert_messages :: "go_time \<Rightarrow> string \<Rightarrow> message_record list \<Rightarrow> db \<Rightarrow> (string + unit) \<times> db" where
  "insert_messages now sid [] d = (Inr (), d)"
| "insert_messages now sid (m # ms) d0 =
     (case next_fault d0 of (fault, d) \<Rightarrow>
        (case fault of
           Some msg \<Rightarrow> (Inl msg, d)
         | None \<Rightarrow>
             if sid \<notin> set (map row_id (db_sessions d))
             then (Inl ''constraint failed: FOREIGN KEY constraint failed (787)'', d)
             else insert_messages now sid ms
               (d\<lparr>db_messages := db_messages d @ [message_row_of (db_next_message d) now sid m],
                  db_next_message := db_next_message d + 1\<rparr>)))"

text \<open>\<open>tx.Rollback()\<close>: the tables as they were when the transaction began.\<close>

definition rollback :: "db \<Rightarrow> db \<Rightarrow> db" where
  "rollback d0 d = d\<lparr>db_sessions := db_sessions d0, db_messages := db_messages d0,
     db_next_message := db_next_message d0\<rparr>"

text \<open>A \<open>tx.Commit()\<close> that fails with \<open>msg\<close>. The transaction is over for \<open>database/sql\<close>, so the deferred
  \<open>Rollback\<close> does nothing: the tables go back only if the error has ended it in SQLite, too.\<close>

definition failed_commit :: "string \<Rightarrow> db \<Rightarrow> db \<Rightarrow> db" where
  "failed_commit msg d0 d =
     (if msg \<in> set (db_keeps_open d)
      then d\<lparr>db_uncommitted := Some (db_sessions d0, db_messages d0, db_next_message d0)\<rparr>
      else rollback d0 d)"

text \<open>\<open>PrepareContext\<close> and the loop over the messages, skipped for an empty list.\<close>

definition insert_all :: "go_time \<Rightarrow> string \<Rightarrow> message_record list \<Rightarrow> db \<Rightarrow> (string + unit) \<times> db" where
  "insert_all now sid msgs d =
     (if msgs = [] then (Inr (), d)
      else
        (case next_fault d of
           (Some msg, d1) \<Rightarrow> (Inl msg, d1)
         | (None, d1) \<Rightarrow>
             if \<not> db_has_raw d1
             then (Inl ''SQL logic error: table session_messages has no column named raw_json (1)'', d1)
             else insert_messages now sid msgs d1))"

definition sqlite_replace ::
  "go_time \<Rightarrow> string \<Rightarrow> message_record list \<Rightarrow> db \<Rightarrow> (store_error + unit) \<times> db" where
  "sqlite_replace now sid msgs d0 =
     (case next_fault d0 of
        (Some msg, d1) \<Rightarrow> (Inl (Store_Failed msg), d1)
      | (None, d1) \<Rightarrow>
          if db_uncommitted d1 \<noteq> None
          then (Inl (Store_Failed ''SQL logic error: cannot start a transaction within a transaction (1)''), d1)
          else
            (case next_fault d1 of
               (Some msg, d2) \<Rightarrow> (Inl (Store_Failed msg), rollback d0 d2)
             | (None, d2) \<Rightarrow>
                 if \<not> db_tables d2 then (Inl (Store_Failed (no_table ''session_messages'')), rollback d0 d2)
                 else
                   (case insert_all now sid msgs
                      (d2\<lparr>db_messages := filter (\<lambda>m. mrow_session_id m \<noteq> sid) (db_messages d2)\<rparr>) of
                      (Inl msg, d3) \<Rightarrow> (Inl (Store_Failed msg), rollback d0 d3)
                    | (Inr u, d3) \<Rightarrow>
                        (case next_fault d3 of
                           (Some msg, d4) \<Rightarrow> (Inl (Store_Failed msg), failed_commit msg d0 d4)
                         | (None, d4) \<Rightarrow> (Inr (), d4)))))"

section \<open>Opening\<close>

definition append_pragma :: "string \<Rightarrow> string \<Rightarrow> string" where
  "append_pragma dsn pragma = (if contains_sub dsn ''?'' then dsn @ ''&'' @ pragma else dsn @ ''?'' @ pragma)"

text \<open>The directory \<open>ensureParentDir\<close> creates, if any.\<close>

definition parent_dir :: "string \<Rightarrow> string option" where
  "parent_dir dsn =
     (let path = trim_prefix (takeWhile (\<lambda>c. c \<noteq> CHR ''?'') dsn) ''file:'' in
        if path = [] \<or> path = '':memory:'' then None
        else if dir_path path = [] \<or> dir_path path = ''.'' then None
        else Some (dir_path path))"

text \<open>\<open>OpenSQLite\<close>: the directory to create first and the DSN handed to the driver.\<close>

definition open_sqlite :: "string \<Rightarrow> string option \<times> string" where
  "open_sqlite dsn0 =
     (let dsn = (if trim_space dsn0 = [] then ''./.zoea.db'' else dsn0) in
        (parent_dir dsn, append_pragma (append_pragma dsn ''_pragma=busy_timeout=5000'') ''_pragma=foreign_keys=on''))"

definition store_open :: "string \<Rightarrow> string \<Rightarrow> string + (string option \<times> string)" where
  "store_open driver dsn =
     (if driver = [] \<or> driver = ''sqlite'' then Inr (open_sqlite dsn)
      else Inl (''unsupported store driver: '' @ driver))"

definition sqlite_migrate :: "db \<Rightarrow> (string + unit) \<times> db" where
  "sqlite_migrate d0 =
     (let alter =
        (case next_fault d0 of
           (Some msg, d) \<Rightarrow> (Some msg, d)
         | (None, d) \<Rightarrow>
             if db_has_raw d then (Some ''SQL logic error: duplicate column name: raw_json (1)'', d)
             else (None, d\<lparr>db_has_raw := True\<rparr>))
      in (case alter of
            (None, d) \<Rightarrow> (Inr (), d)
          | (Some msg, d) \<Rightarrow>
              if is_duplicate_column msg then (Inr (), d)
              else (Inl (''apply migration \"ALTER TABLE session_messages ADD COLUMN raw_json TEXT\": '' @ msg), d)))"

definition sqlite_init :: "db \<Rightarrow> (store_error + unit) \<times> db" where
  "sqlite_init d0 =
     (case next_fault d0 of
        (Some msg, d) \<Rightarrow> (Inl (Store_Failed (''init sqlite schema: '' @ msg)), d)
      | (None, d) \<Rightarrow>
          (case sqlite_migrate (if db_tables d then d else d\<lparr>db_tables := True, db_has_raw := True\<rparr>) of
             (Inl msg, d') \<Rightarrow> (Inl (Store_Failed (''migrate sqlite schema: '' @ msg)), d')
           | (Inr u, d') \<Rightarrow> (Inr (), d')))"

text \<open>Closing the connection ends a transaction that is still open, without its changes.\<close>

definition sqlite_close :: "db \<Rightarrow> db" where
  "sqlite_close d =
     (case db_uncommitted d of
        None \<Rightarrow> d\<lparr>db_closed := True\<rparr>
      | Some (ss, ms, n) \<Rightarrow>
          d\<lparr>db_closed := True, db_sessions := ss, db_messages := ms, db_next_message := n, db_uncommitted := None\<rparr>)"

definition sqlite_store :: "db store_ops" where
  "sqlite_store =
     \<lparr>st_init = sqlite_init, st_create = sqlite_create, st_get = sqlite_get, st_list = sqlite_list,
      st_delete = sqlite_delete, st_touch = sqlite_touch, st_replace = sqlite_replace,
      st_count = sqlite_count, st_max_id = sqlite_max_id\<rparr>"

section \<open>The view and the invariant\<close>

definition sqlite_view :: "db \<Rightarrow> string \<Rightarrow> session_record option" where
  "sqlite_view d sid = map_option of_row (find (\<lambda>w. row_id w = sid) (db_sessions d))"

definition external_ids :: "db \<Rightarrow> string option list" where
  "external_ids d = filter (\<lambda>e. e \<noteq> None) (map row_external_id (db_sessions d))"

definition db_ok :: "db \<Rightarrow> bool" where
  "db_ok d \<longleftrightarrow>
     distinct (map row_id (db_sessions d)) \<and> distinct (external_ids d) \<and>
     (\<forall>m\<in>set (db_messages d). mrow_session_id m \<in> set (map row_id (db_sessions d)) \<and>
        mrow_id m < db_next_message d) \<and>
     distinct (map mrow_id (db_messages d))"

lemma next_fault_fields [simp]:
  "db_sessions (snd (next_fault d)) = db_sessions d" "db_messages (snd (next_fault d)) = db_messages d"
  "db_next_message (snd (next_fault d)) = db_next_message d" "db_tables (snd (next_fault d)) = db_tables d"
  "db_has_raw (snd (next_fault d)) = db_has_raw d" "db_closed (snd (next_fault d)) = db_closed d"
  "db_keeps_open (snd (next_fault d)) = db_keeps_open d" "db_uncommitted (snd (next_fault d)) = db_uncommitted d"
  by (auto simp: next_fault_def split: list.split)

lemma next_ties_fields [simp]:
  "db_sessions (snd (next_ties d)) = db_sessions d" "db_messages (snd (next_ties d)) = db_messages d"
  "db_next_message (snd (next_ties d)) = db_next_message d" "db_tables (snd (next_ties d)) = db_tables d"
  "db_has_raw (snd (next_ties d)) = db_has_raw d" "db_closed (snd (next_ties d)) = db_closed d"
  "db_uncommitted (snd (next_ties d)) = db_uncommitted d" "db_faults (snd (next_ties d)) = db_faults d"
  by (auto simp: next_ties_def split: list.split)

lemma db_ok_cong:
  "db_sessions d' = db_sessions d \<Longrightarrow> db_messages d' = db_messages d \<Longrightarrow>
   db_next_message d' = db_next_message d \<Longrightarrow> db_ok d' \<longleftrightarrow> db_ok d"
  by (simp add: db_ok_def external_ids_def)

lemma db_ok_next [simp]: "db_ok (snd (next_fault d)) \<longleftrightarrow> db_ok d" "db_ok (snd (next_ties d)) \<longleftrightarrow> db_ok d"
  by (rule db_ok_cong; simp)+

lemma find_row_id: "find (\<lambda>w. row_id w = sid) ws = Some w \<Longrightarrow> w \<in> set ws \<and> row_id w = sid"
  by (induction ws) (auto split: if_splits)

lemma find_row_None: "find (\<lambda>w. row_id w = sid) ws = None \<longleftrightarrow> sid \<notin> row_id ` set ws"
  by (induction ws) auto

lemma find_append: "find P (xs @ ys) = (case find P xs of None \<Rightarrow> find P ys | Some x \<Rightarrow> Some x)"
  by (induction xs) auto

lemma sqlite_view_cong: "db_sessions d' = db_sessions d \<Longrightarrow> sqlite_view d' = sqlite_view d"
  by (simp add: sqlite_view_def fun_eq_iff)

lemma dom_sqlite_view: "dom (sqlite_view d) = set (map row_id (db_sessions d))"
  by (auto simp: sqlite_view_def dom_def find_row_None split: option.splits)

lemma of_row_row_of:
  assumes "storable now r"
  shows "of_row (row_of now r) = stored now r"
proof -
  have "nullable_string_value (nullable_string v) = blank_to_empty v" for v
    by (simp add: nullable_string_value_def nullable_string_def blank_to_empty_def)
  then show ?thesis
    using assms
    by (simp add: of_row_def row_of_def stored_def storable_def from_ts_to_ts time_or_now_def
        default_string_def nullable_int_def)
qed

lemma row_of_id [simp]: "row_id (row_of now r) = s_id r"
  by (simp add: row_of_def)

lemma of_row_id [simp]: "s_id (of_row w) = row_id w"
  by (simp add: of_row_def)

section \<open>Each operation by its outcomes\<close>


lemma sqlite_create_cases:
  obtains (success) "sqlite_create now r d =
      (Inr (), (snd (next_fault d))\<lparr>db_sessions := db_sessions d @ [row_of now r]\<rparr>)"
    "s_id r \<notin> set (map row_id (db_sessions d))"
    "row_external_id (row_of now r) \<notin> set (external_ids d)"
  | (failed) e where "sqlite_create now r d = (Inl e, snd (next_fault d))"
proof -
  have "(sqlite_create now r d =
      (Inr (), (snd (next_fault d))\<lparr>db_sessions := db_sessions d @ [row_of now r]\<rparr>) \<and>
      s_id r \<notin> set (map row_id (db_sessions d)) \<and>
      row_external_id (row_of now r) \<notin> set (external_ids d)) \<or>
    (\<exists>e. sqlite_create now r d = (Inl e, snd (next_fault d)))"
    by (auto simp: sqlite_create_def sql_insert_session_def case_prod_beta external_ids_def
      split: option.split sum.split)
  then show thesis using that by blast
qed

lemma sqlite_get_cases:
  obtains (found) r where "sqlite_get sid d = (Inr r, snd (next_fault d))" "sqlite_view d sid = Some r"
  | (missing) "sqlite_get sid d = (Inl Store_Not_Found, snd (next_fault d))" "sqlite_view d sid = None"
  | (failed) msg where "sqlite_get sid d = (Inl (Store_Failed msg), snd (next_fault d))"
proof -
  have "(\<exists>r. sqlite_get sid d = (Inr r, snd (next_fault d)) \<and> sqlite_view d sid = Some r) \<or>
    (sqlite_get sid d = (Inl Store_Not_Found, snd (next_fault d)) \<and> sqlite_view d sid = None) \<or>
    (\<exists>msg. sqlite_get sid d = (Inl (Store_Failed msg), snd (next_fault d)))"
    by (auto simp: sqlite_get_def sql_query_def sqlite_view_def case_prod_beta split: option.split)
  then show thesis using that by blast
qed

definition without_session :: "string \<Rightarrow> db \<Rightarrow> db" where
  "without_session sid d =
     d\<lparr>db_sessions := filter (\<lambda>w. row_id w \<noteq> sid) (db_sessions d),
       db_messages := filter (\<lambda>m. mrow_session_id m \<noteq> sid) (db_messages d)\<rparr>"

lemma affected_zero: "length (filter (\<lambda>w. row_id w = sid) ws) = 0 \<longleftrightarrow> sid \<notin> set (map row_id ws)"
  by (auto simp: filter_empty_conv)

lemma affected_pos: "filter (\<lambda>w. row_id w = sid) ws = [] \<longleftrightarrow> sid \<notin> set (map row_id ws)"
  by (auto simp: filter_empty_conv)

lemma filter_absent: "sid \<notin> set (map row_id ws) \<Longrightarrow> filter (\<lambda>w. row_id w \<noteq> sid) ws = ws"
  by (auto simp: filter_id_conv)

lemma sqlite_delete_cases:
  obtains (success) "sqlite_delete sid d = (Inr (), without_session sid (snd (next_fault d)))"
    "sid \<in> set (map row_id (db_sessions d))"
  | (missing) "sqlite_delete sid d = (Inl Store_Not_Found, snd (next_fault d))"
    "sid \<notin> set (map row_id (db_sessions d))"
  | (failed) msg where "sqlite_delete sid d = (Inl (Store_Failed msg), snd (next_fault d))"
proof -
  have "(sqlite_delete sid d = (Inr (), without_session sid (snd (next_fault d))) \<and>
      sid \<in> set (map row_id (db_sessions d))) \<or>
    (sqlite_delete sid d = (Inl Store_Not_Found, snd (next_fault d)) \<and>
      sid \<notin> set (map row_id (db_sessions d))) \<or>
    (\<exists>msg. sqlite_delete sid d = (Inl (Store_Failed msg), snd (next_fault d)))"
    by (auto simp: sqlite_delete_def sql_delete_session_def case_prod_beta without_session_def
        affected_pos filter_absent simp del: set_map split: option.split)
  then show thesis using that by blast
qed

definition with_activity :: "string \<Rightarrow> string \<Rightarrow> db \<Rightarrow> db" where
  "with_activity sid ts d =
     d\<lparr>db_sessions := map (\<lambda>w. if row_id w = sid then w\<lparr>row_last_active_at := ts\<rparr> else w) (db_sessions d)\<rparr>"

lemma sqlite_touch_cases:
  obtains (success) "sqlite_touch now sid t d = (Inr (), with_activity sid (to_ts now t) (snd (next_fault d)))"
    "sid \<in> set (map row_id (db_sessions d))"
  | (missing) "sqlite_touch now sid t d = (Inl Store_Not_Found, snd (next_fault d))"
    "sid \<notin> set (map row_id (db_sessions d))"
  | (failed) msg where "sqlite_touch now sid t d = (Inl (Store_Failed msg), snd (next_fault d))"
proof -
  have same: "map (\<lambda>w. if row_id w = sid then w\<lparr>row_last_active_at := to_ts now t\<rparr> else w) ws = ws"
    if "sid \<notin> set (map row_id ws)" for ws
    using that by (intro map_idI) auto
  have "(sqlite_touch now sid t d = (Inr (), with_activity sid (to_ts now t) (snd (next_fault d))) \<and>
      sid \<in> set (map row_id (db_sessions d))) \<or>
    (sqlite_touch now sid t d = (Inl Store_Not_Found, snd (next_fault d)) \<and>
      sid \<notin> set (map row_id (db_sessions d))) \<or>
    (\<exists>msg. sqlite_touch now sid t d = (Inl (Store_Failed msg), snd (next_fault d)))"
    by (auto simp: sqlite_touch_def sql_update_activity_def case_prod_beta with_activity_def
        affected_pos same simp del: set_map split: option.split)
  then show thesis using that by blast
qed

lemma sqlite_list_cases:
  obtains (success) "sqlite_list q d =
      (Inr (map of_row (select_page q (fst (next_ties d)) (db_sessions d))),
       snd (next_fault (snd (next_fault (snd (next_ties d))))))"
  | (failed) msg d' where "sqlite_list q d = (Inl (Store_Failed msg), d')"
    "d' = snd (next_fault (snd (next_ties d))) \<or> d' = snd (next_fault (snd (next_fault (snd (next_ties d)))))"
proof -
  have "sqlite_list q d =
      (Inr (map of_row (select_page q (fst (next_ties d)) (db_sessions d))),
       snd (next_fault (snd (next_fault (snd (next_ties d)))))) \<or>
    (\<exists>msg d'. sqlite_list q d = (Inl (Store_Failed msg), d') \<and>
      (d' = snd (next_fault (snd (next_ties d))) \<or> d' = snd (next_fault (snd (next_fault (snd (next_ties d)))))))"
    by (auto simp: sqlite_list_def sql_query_def case_prod_beta split: option.split)
  then show thesis using that by blast
qed

lemma sqlite_max_id_cases:
  obtains (success) "sqlite_max_id d =
      (Inr (case greatest_id (db_sessions d) of None \<Rightarrow> [] | Some i \<Rightarrow> i), snd (next_fault d))"
  | (failed) msg where "sqlite_max_id d = (Inl (Store_Failed msg), snd (next_fault d))"
proof -
  have "sqlite_max_id d =
      (Inr (case greatest_id (db_sessions d) of None \<Rightarrow> [] | Some i \<Rightarrow> i), snd (next_fault d)) \<or>
    (\<exists>msg. sqlite_max_id d = (Inl (Store_Failed msg), snd (next_fault d)))"
    by (auto simp: sqlite_max_id_def sql_query_def case_prod_beta split: option.split)
  then show thesis using that by blast
qed

section \<open>The contract\<close>

lemma view_next [simp]: "sqlite_view (snd (next_fault d)) = sqlite_view d" "sqlite_view (snd (next_ties d)) = sqlite_view d"
  by (simp_all add: sqlite_view_def fun_eq_iff)

lemma view_append:
  assumes "db_sessions d' = db_sessions d @ [w]" "row_id w \<notin> set (map row_id (db_sessions d))"
  shows "sqlite_view d' = (sqlite_view d)(row_id w \<mapsto> of_row w)"
proof
  fix sid
  have "find (\<lambda>v. row_id v = row_id w) (db_sessions d) = None"
    using assms(2) by (simp add: find_row_None)
  then show "sqlite_view d' sid = ((sqlite_view d)(row_id w \<mapsto> of_row w)) sid"
    using assms(1) by (auto simp: sqlite_view_def find_append split: option.split)
qed

lemma ok_append:
  assumes "db_ok d" "row_id w \<notin> set (map row_id (db_sessions d))"
    and "row_external_id w \<notin> set (external_ids d)"
    and "db_sessions d' = db_sessions d @ [w]" "db_messages d' = db_messages d"
      "db_next_message d' = db_next_message d"
  shows "db_ok d'"
  using assms by (auto simp: db_ok_def external_ids_def)

lemma find_filter_row:
  "find (\<lambda>w. row_id w = i) (filter (\<lambda>w. row_id w \<noteq> sid) ws) =
     (if i = sid then None else find (\<lambda>w. row_id w = i) ws)"
  by (induction ws) auto

lemma view_without: "sqlite_view (without_session sid d) = (sqlite_view d)(sid := None)"
  by (simp add: fun_eq_iff sqlite_view_def without_session_def find_filter_row)

lemma distinct_map_filter_sub: "distinct (map f xs) \<Longrightarrow> distinct (map f (filter P xs))"
  by (induction xs) auto

lemma ok_without:
  assumes "db_ok d"
  shows "db_ok (without_session sid d)"
proof -
  have "external_ids (without_session sid d) =
      map row_external_id (filter (\<lambda>w. row_id w \<noteq> sid) (filter (\<lambda>w. row_external_id w \<noteq> None) (db_sessions d)))"
    by (simp add: external_ids_def without_session_def filter_map o_def conj_commute)
  moreover have "external_ids d = map row_external_id (filter (\<lambda>w. row_external_id w \<noteq> None) (db_sessions d))"
    by (simp add: external_ids_def filter_map o_def)
  ultimately have "distinct (external_ids (without_session sid d))"
    using assms by (simp only: db_ok_def distinct_map_filter_sub)
  then show ?thesis
    using assms by (auto simp: db_ok_def without_session_def distinct_map_filter_sub)
qed

lemma find_map_row:
  "find (\<lambda>w. row_id w = i) (map (\<lambda>w. if row_id w = sid then w\<lparr>row_last_active_at := ts\<rparr> else w) ws) =
     (if i = sid then map_option (\<lambda>w. w\<lparr>row_last_active_at := ts\<rparr>) (find (\<lambda>w. row_id w = sid) ws)
      else find (\<lambda>w. row_id w = i) ws)"
  by (induction ws) auto

lemma of_row_activity: "of_row (w\<lparr>row_last_active_at := ts\<rparr>) = (of_row w)\<lparr>s_last_active_at := from_ts ts\<rparr>"
  by (simp add: of_row_def)

lemma view_activity:
  "sqlite_view (with_activity sid ts d) i =
     (if i = sid then map_option (\<lambda>r. r\<lparr>s_last_active_at := from_ts ts\<rparr>) (sqlite_view d sid)
      else sqlite_view d i)"
  by (simp add: sqlite_view_def with_activity_def find_map_row option.map_comp o_def of_row_activity)

lemma ok_activity:
  assumes "db_ok d"
  shows "db_ok (with_activity sid ts d)"
proof -
  have ids: "map row_id (db_sessions (with_activity sid ts d)) = map row_id (db_sessions d)"
    "map row_external_id (db_sessions (with_activity sid ts d)) = map row_external_id (db_sessions d)"
    by (simp_all add: with_activity_def)
  moreover have "db_messages (with_activity sid ts d) = db_messages d"
    "db_next_message (with_activity sid ts d) = db_next_message d"
    by (simp_all add: with_activity_def)
  ultimately show ?thesis
    using assms unfolding db_ok_def external_ids_def by (simp del: set_map)
qed

lemma set_newest_first [simp]: "set (newest_first ties ws) = set ws"
  by (simp add: newest_first_def)

lemma select_page_subset: "set (select_page q ties ws) \<subseteq> {w \<in> set ws. matches q w}"
proof -
  have "set (select_page q ties ws) \<subseteq> set (newest_first ties (filter (matches q) ws))"
    unfolding select_page_def by (meson in_set_dropD in_set_takeD subsetI)
  then show ?thesis by auto
qed

lemma in_page: "w \<in> set (select_page q ties ws) \<Longrightarrow> w \<in> set ws \<and> matches q w"
  using select_page_subset [of q ties ws] by blast

lemma view_row:
  assumes "db_ok d" "w \<in> set (db_sessions d)"
  shows "sqlite_view d (row_id w) = Some (of_row w)"
proof -
  have "distinct (map row_id ws) \<Longrightarrow> w \<in> set ws \<Longrightarrow> find (\<lambda>v. row_id v = row_id w) ws = Some w" for ws
    by (induction ws) auto
  then show ?thesis using assms by (simp add: sqlite_view_def db_ok_def)
qed

lemma create_stores:
  assumes "storable now r" "fst (sqlite_create now r d) = Inr ()"
  shows "sqlite_view d (s_id r) = None \<and>
    sqlite_view (snd (sqlite_create now r d)) = (sqlite_view d)(s_id r \<mapsto> stored now r)"
  using assms
proof (cases rule: sqlite_create_cases [of now r d])
  case success
  have "sqlite_view (snd (sqlite_create now r d)) = (sqlite_view d)(s_id r \<mapsto> stored now r)"
    using success view_append [of _ d "row_of now r"] assms(1) by (simp add: of_row_row_of)
  then show ?thesis using success by (simp add: sqlite_view_def find_row_None)
qed simp

lemma touch_stores:
  assumes "valid_time now" "valid_time t" "fst (sqlite_touch now sid t d) = Inr ()"
  shows "\<exists>r. sqlite_view d sid = Some r \<and> sqlite_view (snd (sqlite_touch now sid t d)) =
    (sqlite_view d)(sid \<mapsto> r\<lparr>s_last_active_at := time_or_now now t\<rparr>)"
  using assms
proof (cases rule: sqlite_touch_cases [of now sid t d])
  case success
  then obtain r where r: "sqlite_view d sid = Some r"
    by (auto simp: sqlite_view_def find_row_None split: option.splits) (metis find_row_None image_eqI not_None_eq)
  then show ?thesis
    using success assms(1,2) by (auto simp: view_activity fun_eq_iff from_ts_to_ts time_or_now_def)
qed simp_all

lemma sqlite_contract: "store_contract sqlite_store sqlite_view db_ok"
proof
  fix sid d r
  show "sqlite_view (snd (st_get sqlite_store sid d)) = sqlite_view d"
    by (cases rule: sqlite_get_cases [of sid d]) (simp_all add: sqlite_store_def)
  show "fst (st_get sqlite_store sid d) = Inr r \<Longrightarrow> sqlite_view d sid = Some r"
    by (cases rule: sqlite_get_cases [of sid d]) (simp_all add: sqlite_store_def)
  show "fst (st_get sqlite_store sid d) = Inl Store_Not_Found \<Longrightarrow> sqlite_view d sid = None"
    by (cases rule: sqlite_get_cases [of sid d]) (simp_all add: sqlite_store_def)
  show "db_ok d \<Longrightarrow> db_ok (snd (st_get sqlite_store sid d))"
    by (cases rule: sqlite_get_cases [of sid d]) (simp_all add: sqlite_store_def)
next
  fix now r d e
  show "db_ok d \<Longrightarrow> db_ok (snd (st_create sqlite_store now r d))"
    by (cases rule: sqlite_create_cases [of now r d])
      (auto simp: sqlite_store_def intro!: ok_append [where d = d])
  show "fst (st_create sqlite_store now r d) = Inl e \<Longrightarrow>
      sqlite_view (snd (st_create sqlite_store now r d)) = sqlite_view d"
    by (cases rule: sqlite_create_cases [of now r d]) (simp_all add: sqlite_store_def)
  assume "storable now r" "fst (st_create sqlite_store now r d) = Inr ()"
  then show "sqlite_view d (s_id r) = None \<and>
      sqlite_view (snd (st_create sqlite_store now r d)) = (sqlite_view d)(s_id r \<mapsto> stored now r)"
    by (simp add: sqlite_store_def create_stores)
next
  fix sid d e
  show "db_ok d \<Longrightarrow> db_ok (snd (st_delete sqlite_store sid d))"
    by (cases rule: sqlite_delete_cases [of sid d]) (simp_all add: sqlite_store_def ok_without)
  show "fst (st_delete sqlite_store sid d) = Inl e \<Longrightarrow>
      sqlite_view (snd (st_delete sqlite_store sid d)) = sqlite_view d"
    by (cases rule: sqlite_delete_cases [of sid d]) (simp_all add: sqlite_store_def)
  show "fst (st_delete sqlite_store sid d) = Inl Store_Not_Found \<Longrightarrow> sqlite_view d sid = None"
    by (cases rule: sqlite_delete_cases [of sid d])
      (simp_all add: sqlite_store_def sqlite_view_def find_row_None)
  show "fst (st_delete sqlite_store sid d) = Inr () \<Longrightarrow>
      sqlite_view d sid \<noteq> None \<and> sqlite_view (snd (st_delete sqlite_store sid d)) = (sqlite_view d)(sid := None)"
    by (cases rule: sqlite_delete_cases [of sid d])
      (auto simp: sqlite_store_def view_without sqlite_view_def find_row_None)
next
  fix now sid t d e
  show "db_ok d \<Longrightarrow> db_ok (snd (st_touch sqlite_store now sid t d))"
    by (cases rule: sqlite_touch_cases [of now sid t d]) (simp_all add: sqlite_store_def ok_activity)
  show "fst (st_touch sqlite_store now sid t d) = Inl e \<Longrightarrow>
      sqlite_view (snd (st_touch sqlite_store now sid t d)) = sqlite_view d"
    by (cases rule: sqlite_touch_cases [of now sid t d]) (simp_all add: sqlite_store_def)
  assume "valid_time now" "valid_time t" "fst (st_touch sqlite_store now sid t d) = Inr ()"
  then show "\<exists>r. sqlite_view d sid = Some r \<and> sqlite_view (snd (st_touch sqlite_store now sid t d)) =
      (sqlite_view d)(sid \<mapsto> r\<lparr>s_last_active_at := time_or_now now t\<rparr>)"
    by (simp add: sqlite_store_def touch_stores)
next
  fix q d rs r
  show "db_ok d \<Longrightarrow> db_ok (snd (st_list sqlite_store q d))"
    by (cases rule: sqlite_list_cases [of q d]) (auto simp: sqlite_store_def)
  show "sqlite_view (snd (st_list sqlite_store q d)) = sqlite_view d"
    by (cases rule: sqlite_list_cases [of q d]) (auto simp: sqlite_store_def)
  show "db_ok d \<Longrightarrow> fst (st_list sqlite_store q d) = Inr rs \<Longrightarrow> r \<in> set rs \<Longrightarrow> sqlite_view d (s_id r) = Some r"
    by (cases rule: sqlite_list_cases [of q d]) (auto simp: sqlite_store_def view_row dest!: in_page)
next
  fix d
  show "sqlite_view (snd (st_max_id sqlite_store d)) = sqlite_view d"
    by (cases rule: sqlite_max_id_cases [of d]) (simp_all add: sqlite_store_def)
  show "db_ok d \<Longrightarrow> db_ok (snd (st_max_id sqlite_store d))"
    by (cases rule: sqlite_max_id_cases [of d]) (simp_all add: sqlite_store_def)
next
  fix d sid r
  show "sqlite_view d sid = Some r \<Longrightarrow> s_id r = sid"
    by (auto simp: sqlite_view_def dest: find_row_id)
qed

lemma session_id_glob: "glob_session (session_id n)"
proof -
  obtain c cs where c: "fmt_06d n = c # cs"
    using fmt_nat_nonempty [of n] by (cases "fmt_06d n") (auto simp: fmt_06d_def pad_zeros_def)
  moreover have "is_digit_char c" using fmt_06d_digits [of n] c by simp
  ultimately show ?thesis by (simp add: glob_session_def session_id_def)
qed

lemma session_id_order:
  assumes "m < 1000000" "n < 1000000"
  shows "session_id m \<le> session_id n \<longleftrightarrow> m \<le> n"
proof -
  have "fmt_06d n < fmt_06d m \<longleftrightarrow> n < m"
    using dec_text_order [of "fmt_06d n" "fmt_06d m"] assms by (simp add: length_fmt_06d)
  then show ?thesis by (simp add: session_id_def not_less [symmetric])
qed

lemma greatest_id_Max:
  assumes "S = {i \<in> row_id ` set ws. glob_session i}"
  shows "greatest_id ws = (if S = {} then None else Some (Max S))"
proof -
  have S: "set (filter glob_session (map row_id ws)) = S" using assms by auto
  show ?thesis
  proof (cases "filter glob_session (map row_id ws)")
    case Nil
    with S show ?thesis by (simp add: greatest_id_def)
  next
    case (Cons i js)
    then have "S = insert i (set js)" using S by simp
    moreover have "fold max js i = Max (insert i (set js))"
      by (metis Max.set_eq_fold list.simps(15))
    ultimately show ?thesis using Cons by (simp add: greatest_id_def)
  qed
qed

lemma greatest_six_digit:
  assumes "six_digit_ids (row_id ` set ws)" "ws \<noteq> []"
  shows "\<exists>k<1000000. greatest_id ws = Some (session_id k) \<and> session_id k \<in> row_id ` set ws \<and>
    (\<forall>n. session_id n \<in> row_id ` set ws \<longrightarrow> n \<le> k)"
proof -
  let ?S = "row_id ` set ws"
  have glob: "{i \<in> ?S. glob_session i} = ?S"
    using assms(1) session_id_glob by (auto simp: six_digit_ids_def)
  have fin: "finite ?S" "?S \<noteq> {}" using assms(2) by auto
  then obtain k where k: "k < 1000000" "Max ?S = session_id k"
    using bspec [OF assms(1) [unfolded six_digit_ids_def] Max_in [OF fin]] by blast
  moreover have "n \<le> k" if mem: "session_id n \<in> ?S" for n
  proof -
    obtain n' where "n' < 1000000" "session_id n = session_id n'"
      using bspec [OF assms(1) [unfolded six_digit_ids_def] mem] by blast
    then have "n < 1000000" by simp
    then show ?thesis
      using Max_ge [OF fin(1) mem] k session_id_order [of n k] by simp
  qed
  moreover have "greatest_id ws = Some (session_id k)"
    using fin k greatest_id_Max [OF glob [symmetric]] by simp
  ultimately show ?thesis using Max_in [OF fin] by auto
qed

interpretation sqlite_db: numbered_store sqlite_store sqlite_view db_ok
proof (intro numbered_store.intro numbered_store_axioms.intro)
  show "store_contract sqlite_store sqlite_view db_ok" by (rule sqlite_contract)
  fix d m
  assume six: "six_digit_ids (dom (sqlite_view d))" and m: "fst (st_max_id sqlite_store d) = Inr m"
  show "if dom (sqlite_view d) = {} then m = []
        else \<exists>k<1000000. m = session_id k \<and> m \<in> dom (sqlite_view d) \<and>
          (\<forall>n. session_id n \<in> dom (sqlite_view d) \<longrightarrow> n \<le> k)"
  proof (cases "db_sessions d = []")
    case True
    then show ?thesis
      using m by (cases rule: sqlite_max_id_cases [of d])
        (auto simp: sqlite_store_def dom_sqlite_view greatest_id_def)
  next
    case False
    then obtain k where "k < 1000000" "greatest_id (db_sessions d) = Some (session_id k)"
      "session_id k \<in> dom (sqlite_view d)" "\<forall>n. session_id n \<in> dom (sqlite_view d) \<longrightarrow> n \<le> k"
      using greatest_six_digit [of "db_sessions d"] six by (auto simp: dom_sqlite_view)
    then show ?thesis
      using m by (cases rule: sqlite_max_id_cases [of d]) (auto simp: sqlite_store_def)
  qed
qed

section \<open>Replacing the messages of a session\<close>

fun message_rows :: "go_time \<Rightarrow> string \<Rightarrow> nat \<Rightarrow> message_record list \<Rightarrow> message_row list" where
  "message_rows now sid n [] = []"
| "message_rows now sid n (m # ms) = message_row_of n now sid m # message_rows now sid (n + 1) ms"

lemma message_rows_facts:
  assumes "m \<in> set (message_rows now sid n ms)"
  shows "mrow_session_id m = sid \<and> n \<le> mrow_id m \<and> mrow_id m < n + length ms"
  using assms by (induction ms arbitrary: n) (fastforce simp: message_row_of_def)+

lemma distinct_message_rows: "distinct (map mrow_id (message_rows now sid n ms))"
proof (induction ms arbitrary: n)
  case (Cons m ms)
  then show ?case using message_rows_facts [of _ now sid "n + 1" ms] by (fastforce simp: message_row_of_def)
qed simp

definition same_but_messages :: "db \<Rightarrow> db \<Rightarrow> bool" where
  "same_but_messages d d' \<longleftrightarrow> db_sessions d' = db_sessions d \<and> db_tables d' = db_tables d \<and>
     db_has_raw d' = db_has_raw d \<and> db_closed d' = db_closed d \<and> db_keeps_open d' = db_keeps_open d"

lemma insert_messages_result:
  "same_but_messages d (snd (insert_messages now sid ms d)) \<and>
   db_uncommitted (snd (insert_messages now sid ms d)) = db_uncommitted d \<and>
   (fst (insert_messages now sid ms d) = Inr () \<longrightarrow>
      db_messages (snd (insert_messages now sid ms d)) =
        db_messages d @ message_rows now sid (db_next_message d) ms \<and>
      db_next_message (snd (insert_messages now sid ms d)) = db_next_message d + length ms \<and>
      (ms \<noteq> [] \<longrightarrow> sid \<in> set (map row_id (db_sessions d))))"
proof (induction ms arbitrary: d)
  case (Cons m ms)
  then show ?case
    by (simp add: case_prod_beta same_but_messages_def split: option.split)
qed (simp add: same_but_messages_def)

lemma insert_all_result:
  "same_but_messages d (snd (insert_all now sid ms d)) \<and>
   db_uncommitted (snd (insert_all now sid ms d)) = db_uncommitted d \<and>
   (fst (insert_all now sid ms d) = Inr () \<longrightarrow>
      db_messages (snd (insert_all now sid ms d)) =
        db_messages d @ message_rows now sid (db_next_message d) ms \<and>
      db_next_message (snd (insert_all now sid ms d)) = db_next_message d + length ms \<and>
      (ms \<noteq> [] \<longrightarrow> sid \<in> set (map row_id (db_sessions d))))"
  using insert_messages_result [of "snd (next_fault d)" now sid ms]
  by (simp add: insert_all_def case_prod_beta same_but_messages_def split: option.split)

text \<open>The messages of \<open>sid\<close> are the new ones; and the tables of a transaction that has not ended.\<close>

definition replaced :: "go_time \<Rightarrow> string \<Rightarrow> message_record list \<Rightarrow> db \<Rightarrow> db \<Rightarrow> bool" where
  "replaced now sid ms d d' \<longleftrightarrow>
     db_messages d' = filter (\<lambda>m. mrow_session_id m \<noteq> sid) (db_messages d) @ message_rows now sid (db_next_message d) ms \<and>
     db_next_message d' = db_next_message d + length ms \<and>
     (ms \<noteq> [] \<longrightarrow> sid \<in> set (map row_id (db_sessions d)))"

definition left_open :: "string \<Rightarrow> db \<Rightarrow> db \<Rightarrow> bool" where
  "left_open msg d d' \<longleftrightarrow> msg \<in> set (db_keeps_open d) \<and> db_uncommitted d = None \<and>
     db_uncommitted d' = Some (db_sessions d, db_messages d, db_next_message d)"

lemma sqlite_replace_cases:
  obtains (success) d' where "sqlite_replace now sid ms d = (Inr (), d')" "same_but_messages d d'"
    "replaced now sid ms d d'" "db_uncommitted d = None" "db_uncommitted d' = None"
  | (nothing) msg d' where "sqlite_replace now sid ms d = (Inl (Store_Failed msg), d')" "same_but_messages d d'"
    "db_messages d' = db_messages d" "db_next_message d' = db_next_message d" "db_uncommitted d' = db_uncommitted d"
  | (stuck) msg d' where "sqlite_replace now sid ms d = (Inl (Store_Failed msg), d')" "same_but_messages d d'"
    "replaced now sid ms d d'" "left_open msg d d'"
proof -
  define d2 where "d2 = snd (next_fault (snd (next_fault d)))"
  define dd where "dd = d2\<lparr>db_messages := filter (\<lambda>m. mrow_session_id m \<noteq> sid) (db_messages d2)\<rparr>"
  have d2: "db_tables d2 = db_tables d" "db_has_raw d2 = db_has_raw d" "db_closed d2 = db_closed d"
    "db_keeps_open d2 = db_keeps_open d" "db_uncommitted d2 = db_uncommitted d"
    by (simp_all add: d2_def)
  have dd: "db_sessions dd = db_sessions d" "db_tables dd = db_tables d" "db_has_raw dd = db_has_raw d"
    "db_closed dd = db_closed d" "db_next_message dd = db_next_message d" "db_keeps_open dd = db_keeps_open d"
    "db_messages dd = filter (\<lambda>m. mrow_session_id m \<noteq> sid) (db_messages d)" "db_uncommitted dd = db_uncommitted d"
    by (simp_all add: dd_def d2_def)
  note ins = insert_all_result [of dd now sid ms, unfolded same_but_messages_def dd]
  let ?res = "sqlite_replace now sid ms d"
  have "(fst ?res = Inr () \<and> same_but_messages d (snd ?res) \<and> replaced now sid ms d (snd ?res) \<and>
      db_uncommitted d = None \<and> db_uncommitted (snd ?res) = None) \<or>
    (\<exists>msg. fst ?res = Inl (Store_Failed msg) \<and> same_but_messages d (snd ?res) \<and>
      db_messages (snd ?res) = db_messages d \<and> db_next_message (snd ?res) = db_next_message d \<and>
      db_uncommitted (snd ?res) = db_uncommitted d) \<or>
    (\<exists>msg. fst ?res = Inl (Store_Failed msg) \<and> same_but_messages d (snd ?res) \<and> replaced now sid ms d (snd ?res) \<and>
      left_open msg d (snd ?res))"
    using ins
    by (cases "db_uncommitted d")
      (simp_all add: sqlite_replace_def case_prod_beta same_but_messages_def rollback_def failed_commit_def replaced_def
        left_open_def d2_def [symmetric] dd_def [symmetric] d2 split: option.split sum.split)
  then show thesis using that by (metis prod.collapse)
qed

lemma ok_replaced:
  assumes "db_ok d" "replaced now sid ms d d'" "same_but_messages d d'"
  shows "db_ok d'"
proof -
  let ?rows = "message_rows now sid (db_next_message d) ms"
  have res: "db_sessions d' = db_sessions d" "db_next_message d' = db_next_message d + length ms"
    "db_messages d' = filter (\<lambda>m. mrow_session_id m \<noteq> sid) (db_messages d) @ ?rows"
    "ms \<noteq> [] \<longrightarrow> sid \<in> set (map row_id (db_sessions d))"
    using assms(2,3) by (simp_all add: same_but_messages_def replaced_def)
  have old: "\<forall>m\<in>set (db_messages d). mrow_session_id m \<in> set (map row_id (db_sessions d)) \<and>
      mrow_id m < db_next_message d"
    using assms(1) by (simp add: db_ok_def)
  have new: "\<forall>m\<in>set ?rows. mrow_session_id m = sid \<and> db_next_message d \<le> mrow_id m \<and>
      mrow_id m < db_next_message d + length ms"
    using message_rows_facts by blast
  have ne: "ms \<noteq> []" if "m \<in> set ?rows" for m using that by (cases ms) auto
  have "mrow_session_id m \<in> set (map row_id (db_sessions d')) \<and> mrow_id m < db_next_message d'"
    if "m \<in> set (db_messages d')" for m
  proof (cases "m \<in> set ?rows")
    case True
    then show ?thesis using new ne res by auto
  next
    case False
    then show ?thesis using that old by (fastforce simp: res)
  qed
  moreover have "distinct (map mrow_id (db_messages d'))"
  proof -
    have "distinct (map mrow_id (filter (\<lambda>m. mrow_session_id m \<noteq> sid) (db_messages d)))"
      using assms(1) by (simp add: db_ok_def distinct_map_filter_sub)
    then show ?thesis using old new distinct_message_rows by (fastforce simp: res)
  qed
  ultimately show ?thesis
    using assms(1) by (simp add: db_ok_def external_ids_def res(1))
qed

lemma ok_replace:
  assumes "db_ok d"
  shows "db_ok (snd (sqlite_replace now sid ms d))"
proof (cases rule: sqlite_replace_cases [of now sid ms d])
  case (nothing msg d')
  then show ?thesis using assms db_ok_cong [of d' d] by (simp add: same_but_messages_def)
qed (use ok_replaced [OF assms] in auto)

section \<open>Properties\<close>

text \<open>A database that answers: open, with its tables, and no fault reported from here on.\<close>

definition healthy :: "db \<Rightarrow> bool" where
  "healthy d \<longleftrightarrow> \<not> db_closed d \<and> db_tables d \<and> db_has_raw d \<and> db_faults d = [] \<and>
     db_uncommitted d = None"

lemma next_fault_healthy [simp]: "healthy d \<Longrightarrow> next_fault d = (None, d)"
  by (simp add: healthy_def next_fault_def)

lemma unique_failed_conflict [simp]: "is_unique_constraint (unique_failed col)"
proof -
  have "to_lower ''constraint failed: UNIQUE constraint failed: sessions.'' =
      ''constraint failed: unique constraint failed: sessions.''"
    by code_simp
  then have "to_lower (unique_failed col) = ''constraint failed: unique constraint failed: sessions.'' @ to_lower col"
    by (simp only: unique_failed_def to_lower_def map_append)
  then show ?thesis
    by (simp add: is_unique_constraint_def has_prefix_def)
qed

lemma create_get_healthy:
  assumes "db_ok d" "healthy d" "storable now r"
  shows "if sqlite_view d (s_id r) \<noteq> None \<or>
      nullable_string (s_external_id r) \<in> set (external_ids d)
    then sqlite_create now r d = (Inl Store_Conflict, d)
    else \<exists>d'. sqlite_create now r d = (Inr (), d') \<and> db_ok d' \<and> healthy d' \<and>
      sqlite_get (s_id r) d' = (Inr (stored now r), d') \<and>
      sqlite_view d' = (sqlite_view d)(s_id r \<mapsto> stored now r)"
proof -
  have taken: "sqlite_view d (s_id r) \<noteq> None \<longleftrightarrow> s_id r \<in> set (map row_id (db_sessions d))"
    by (simp add: sqlite_view_def find_row_None)
  have ext: "nullable_string (s_external_id r) \<in> set (external_ids d) \<longleftrightarrow>
      row_external_id (row_of now r) \<noteq> None \<and>
      row_external_id (row_of now r) \<in> set (map row_external_id (db_sessions d))"
    by (auto simp: external_ids_def row_of_def)
  have ready: "db_tables d" using assms(2) by (simp add: healthy_def)
  show ?thesis
  proof (cases "sqlite_view d (s_id r) \<noteq> None \<or> nullable_string (s_external_id r) \<in> set (external_ids d)")
    case True
    with assms(2) ready show ?thesis
      unfolding taken ext by (auto simp: sqlite_create_def sql_insert_session_def)
  next
    case False
    define d' where "d' = d\<lparr>db_sessions := db_sessions d @ [row_of now r]\<rparr>"
    have new: "s_id r \<notin> set (map row_id (db_sessions d))"
      "row_external_id (row_of now r) \<notin> set (external_ids d)"
      using False unfolding taken by (auto simp: row_of_def)
    have "sqlite_create now r d = (Inr (), d')"
      using False assms(2) ready unfolding taken ext
      by (auto simp: sqlite_create_def sql_insert_session_def d'_def)
    moreover have "db_ok d'"
      by (rule ok_append [OF assms(1), of "row_of now r"]) (use new in \<open>simp_all add: d'_def\<close>)
    moreover have h: "healthy d'" using assms(2) by (simp add: healthy_def d'_def)
    moreover have v: "sqlite_view d' = (sqlite_view d)(s_id r \<mapsto> stored now r)"
      using view_append [of d' d "row_of now r"] new assms(3) by (simp add: d'_def of_row_row_of)
    moreover have "sqlite_get (s_id r) d' = (Inr (stored now r), d')"
      by (cases rule: sqlite_get_cases [of "s_id r" d'])
        (use h v in \<open>auto simp: sqlite_get_def sql_query_def healthy_def split: option.splits\<close>)
    ultimately show ?thesis using False by auto
  qed
qed

text \<open>Creating a session on a working database: a conflict exactly when the id is taken or the
  external id (not blank) belongs to another session, and then nothing changes; otherwise the
  row is added and reading it back gives the record, with blank fields and the status
  defaulted.\<close>

theorem sqlite_create_get:
  assumes "db_ok d" "healthy d" "storable now r"
  shows "if sqlite_view d (s_id r) \<noteq> None \<or>
      nullable_string (s_external_id r) \<in> set (external_ids d)
    then sqlite_create now r d = (Inl Store_Conflict, d)
    else \<exists>d'. sqlite_create now r d = (Inr (), d') \<and> db_ok d' \<and> healthy d' \<and>
      sqlite_get (s_id r) d' = (Inr (stored now r), d') \<and>
      sqlite_view d' = (sqlite_view d)(s_id r \<mapsto> stored now r)"
  by (rule create_get_healthy [OF assms])

definition fresh_db :: db where
  "fresh_db = \<lparr>db_closed = False, db_tables = True, db_has_raw = True, db_sessions = [], db_messages = [],
     db_next_message = 1, db_faults = [], db_keeps_open = [''database is locked (5) (SQLITE_BUSY)''],
     db_uncommitted = None, db_ties = []\<rparr>"

definition sample_record :: "nat \<Rightarrow> string \<Rightarrow> session_record" where
  "sample_record n ext =
     \<lparr>s_id = session_id n, s_user_id = ''u1'', s_project_id = '' '', s_external_id = ext, s_status = [],
      s_pi_pid = 0, s_working_dir = ''/w'', s_created_at = noon n 500, s_last_active_at = noon n 500\<rparr>"

definition one_session :: db where
  "one_session = snd (sqlite_create (noon 1 0) (sample_record 1 ''e1'') fresh_db)"

theorem sqlite_create_get_witness:
  "fst (sqlite_create (noon 1 0) (sample_record 2 ''e1'') one_session) = Inl Store_Conflict \<and>
   (\<exists>d'. sqlite_create (noon 1 0) (sample_record 2 ''e2'') one_session = (Inr (), d') \<and>
      fst (sqlite_get ''s_000002'' d') = Inr ((sample_record 2 ''e2'')\<lparr>s_project_id := [], s_status := ''active''\<rparr>))"
proof -
  have st: "db_ok one_session" "healthy one_session" "storable (noon 1 0) (sample_record 2 ''e1'')"
    "storable (noon 1 0) (sample_record 2 ''e2'')"
    by code_simp+
  have "nullable_string (s_external_id (sample_record 2 ''e1'')) \<in> set (external_ids one_session)"
    by code_simp
  then have "fst (sqlite_create (noon 1 0) (sample_record 2 ''e1'') one_session) = Inl Store_Conflict"
    using sqlite_create_get [OF st(1-3)] by simp
  moreover have "\<not> (sqlite_view one_session (s_id (sample_record 2 ''e2'')) \<noteq> None \<or>
      nullable_string (s_external_id (sample_record 2 ''e2'')) \<in> set (external_ids one_session))"
    "s_id (sample_record 2 ''e2'') = ''s_000002''"
    "stored (noon 1 0) (sample_record 2 ''e2'') =
      (sample_record 2 ''e2'')\<lparr>s_project_id := [], s_status := ''active''\<rparr>"
    by code_simp+
  ultimately show ?thesis using sqlite_create_get [OF st(1,2,4)] by auto
qed

text \<open>Deleting a session removes its row and, through the foreign key, every message of it, and
  touches nothing else; deleting an unknown session is reported as not found.\<close>

theorem sqlite_delete_cascades:
  assumes "db_ok d" "healthy d"
  shows "sqlite_delete sid d =
    (if sqlite_view d sid = None then (Inl Store_Not_Found, d)
     else (Inr (), d\<lparr>db_sessions := filter (\<lambda>w. row_id w \<noteq> sid) (db_sessions d),
                      db_messages := filter (\<lambda>m. mrow_session_id m \<noteq> sid) (db_messages d)\<rparr>)) \<and>
    db_ok (snd (sqlite_delete sid d))"
proof -
  have "sqlite_delete sid d =
    (if sqlite_view d sid = None then (Inl Store_Not_Found, d) else (Inr (), without_session sid d))"
    using assms(2)
    by (cases rule: sqlite_delete_cases [of sid d])
      (auto simp: sqlite_view_def find_row_None sqlite_delete_def sql_delete_session_def healthy_def
        split: option.splits if_splits)
  then show ?thesis using assms(1) ok_without by (simp add: without_session_def)
qed

theorem sqlite_delete_cascades_witness:
  "fst (sqlite_delete ''s_000001'' one_session) = Inr () \<and>
   fst (sqlite_delete ''s_000009'' one_session) = Inl Store_Not_Found"
proof -
  have "db_ok one_session" "healthy one_session" by code_simp+
  note d = sqlite_delete_cascades [OF this]
  have "sqlite_view one_session ''s_000001'' \<noteq> None" "sqlite_view one_session ''s_000009'' = None"
    by code_simp+
  then show ?thesis using d [of "''s_000001''"] d [of "''s_000009''"] by simp
qed

text \<open>C22: Replacing the messages of a session is all or nothing: sessions and the messages of other
  sessions stay as they are; on success the session has exactly the given messages, in order, and
  no transaction is open; on an error, at whichever statement, all tables are as before, or the
  \<open>COMMIT\<close> failed and left its transaction open, and then the session has all the given messages,
  never a part of them. The invariant is kept.\<close>

theorem sqlite_replace_atomic:
  assumes "db_ok d"
  shows "(case sqlite_replace now sid ms d of (res, d') \<Rightarrow>
      db_sessions d' = db_sessions d \<and>
      filter (\<lambda>m. mrow_session_id m \<noteq> sid) (db_messages d') = filter (\<lambda>m. mrow_session_id m \<noteq> sid) (db_messages d) \<and>
      (case res of
         Inr u \<Rightarrow>
           filter (\<lambda>m. mrow_session_id m = sid) (db_messages d') = message_rows now sid (db_next_message d) ms \<and>
           db_uncommitted d' = None
       | Inl e \<Rightarrow>
           db_messages d' = db_messages d \<and> db_uncommitted d' = db_uncommitted d \<or>
           (\<exists>msg. e = Store_Failed msg \<and> msg \<in> set (db_keeps_open d) \<and>
              filter (\<lambda>m. mrow_session_id m = sid) (db_messages d') = message_rows now sid (db_next_message d) ms \<and>
              db_uncommitted d' = Some (db_sessions d, db_messages d, db_next_message d)))) \<and>
    db_ok (snd (sqlite_replace now sid ms d))"
proof -
  have "filter (\<lambda>m. mrow_session_id m = sid) (message_rows now sid n ms) = message_rows now sid n ms"
    "filter (\<lambda>m. mrow_session_id m \<noteq> sid) (message_rows now sid n ms) = []" for n
    using message_rows_facts by (fastforce simp: filter_id_conv filter_empty_conv)+
  then show ?thesis
    using ok_replace [OF assms, of now sid ms]
    by (cases rule: sqlite_replace_cases [of now sid ms d])
      (auto simp: same_but_messages_def replaced_def left_open_def)
qed

definition sample_message :: message_record where
  "sample_message = \<lparr>m_session_id = ''s_000001'', m_role = ''user'', m_content = ''hi'', m_model = [],
     m_usage_json = [], m_raw_json = [], m_timestamp = noon 3 0\<rparr>"

theorem sqlite_replace_atomic_witness:
  "db_messages (snd (sqlite_replace (noon 4 0) ''s_000001'' [sample_message, sample_message] one_session)) =
     message_rows (noon 4 0) ''s_000001'' 1 [sample_message, sample_message] \<and>
   db_messages (snd (sqlite_replace (noon 4 0) ''s_000001'' [sample_message, sample_message]
     (one_session\<lparr>db_faults := [None, None, None, None, Some ''disk I/O error'']\<rparr>))) = []"
proof -
  let ?ms = "[sample_message, sample_message]"
  let ?bad = "one_session\<lparr>db_faults := [None, None, None, None, Some ''disk I/O error'']\<rparr>"
  have "db_ok one_session" "db_ok ?bad" by code_simp+
  note r = this [THEN sqlite_replace_atomic [where now = "noon 4 0" and sid = "''s_000001''" and ms = ?ms]]
  obtain d' where d': "sqlite_replace (noon 4 0) ''s_000001'' ?ms one_session = (Inr (), d')"
    "filter (\<lambda>m. mrow_session_id m \<noteq> ''s_000001'') (db_messages d') = []"
  proof
    have "fst (sqlite_replace (noon 4 0) ''s_000001'' ?ms one_session) = Inr ()" by code_simp
    then show "sqlite_replace (noon 4 0) ''s_000001'' ?ms one_session =
        (Inr (), snd (sqlite_replace (noon 4 0) ''s_000001'' ?ms one_session))"
      by (simp add: prod_eq_iff)
  qed code_simp
  have "db_next_message one_session = 1" by code_simp
  with r(1) d' have "db_messages d' = message_rows (noon 4 0) ''s_000001'' 1 ?ms"
    by (auto simp: filter_empty_conv filter_id_conv)
  moreover have "fst (sqlite_replace (noon 4 0) ''s_000001'' ?ms ?bad) = Inl (Store_Failed ''disk I/O error'')"
    "db_messages ?bad = []" "''disk I/O error'' \<notin> set (db_keeps_open ?bad)"
    by code_simp+
  ultimately show ?thesis
    using r(2) d'(1) by (auto split: prod.splits)
qed

lemma sorted_newest_first: "sorted_wrt (\<lambda>v w. row_created_at w \<le> row_created_at v) (newest_first ties ws)"
proof -
  have "sorted (map row_created_at (sort_key row_created_at (rev (sort_key (tie_rank ties) ws))))" by simp
  then show ?thesis by (simp add: newest_first_def sorted_wrt_rev sorted_wrt_map)
qed

lemma page_limit_bounds: "1 \<le> page_limit l \<and> page_limit l \<le> 200"
  by (auto simp: page_limit_def)

text \<open>C29: A page of the listing holds at most 200 records, all of them matching the filters, in
  descending order of the stored timestamp text.\<close>

theorem sqlite_list_page:
  assumes "db_ok d" "sqlite_list q d = (Inr rs, d')"
  shows "\<exists>ws. rs = map of_row ws \<and> length ws \<le> 200 \<and> set ws \<subseteq> set (db_sessions d) \<and>
    list_all (matches q) ws \<and> sorted_wrt (\<lambda>v w. row_created_at w \<le> row_created_at v) ws"
proof -
  let ?ws = "select_page q (fst (next_ties d)) (db_sessions d)"
  have rs: "rs = map of_row ?ws"
    using assms(2) by (cases rule: sqlite_list_cases [of q d]) auto
  have "length ?ws \<le> 200" using page_limit_bounds [of "q_limit q"] by (simp add: select_page_def min_le_iff_disj)
  moreover have "sorted_wrt (\<lambda>v w. row_created_at w \<le> row_created_at v) ?ws"
    by (simp add: select_page_def sorted_newest_first sorted_wrt_take sorted_wrt_drop)
  moreover have "list_all (matches q) ?ws" "set ?ws \<subseteq> set (db_sessions d)"
    by (auto simp: list_all_iff dest: in_page)
  ultimately show ?thesis using rs by blast
qed

definition any_query :: "int \<Rightarrow> int \<Rightarrow> list_sessions_query" where
  "any_query l n = \<lparr>q_user_id = [], q_external_id = [], q_working_dir = [], q_limit = l, q_offset = n\<rparr>"

theorem sqlite_list_page_witness:
  "\<exists>ws. length ws \<le> 200 \<and> set ws \<subseteq> set (db_sessions one_session) \<and> ws \<noteq> []"
proof -
  have "db_ok one_session" by code_simp
  moreover obtain rs where "sqlite_list (any_query 0 0) one_session = (Inr rs, one_session)" "rs \<noteq> []"
    by (rule that [of "map of_row (db_sessions one_session)"]) code_simp+
  ultimately show ?thesis using sqlite_list_page by fastforce
qed

section \<open>Paging\<close>

text \<open>A client that pages: \<open>n\<close> listings, each at the offset where the one before ended.\<close>

fun list_pages :: "list_sessions_query \<Rightarrow> nat \<Rightarrow> nat \<Rightarrow> db \<Rightarrow> (store_error + session_record list) list \<times> db" where
  "list_pages q k 0 d = ([], d)"
| "list_pages q k (Suc n) d =
     (case sqlite_list (q\<lparr>q_offset := int (k * page_limit (q_limit q))\<rparr>) d of (res, d') \<Rightarrow>
        (case list_pages q (Suc k) n d' of (rest, d'') \<Rightarrow> (res # rest, d'')))"

text \<open>What the client asks for, in terms of the records it gets.\<close>

definition asked_for :: "list_sessions_query \<Rightarrow> session_record \<Rightarrow> bool" where
  "asked_for q r \<longleftrightarrow>
     (trim_space (q_user_id q) \<noteq> [] \<longrightarrow> s_user_id r = trim_space (q_user_id q)) \<and>
     (trim_space (q_external_id q) \<noteq> [] \<longrightarrow> s_external_id r = trim_space (q_external_id q)) \<and>
     (trim_space (q_working_dir q) \<noteq> [] \<longrightarrow> s_working_dir r = trim_space (q_working_dir q))"

lemma matches_asked_for: "matches q w \<longleftrightarrow> asked_for q (of_row w)"
  by (cases "row_external_id w"; cases "row_working_dir w")
    (auto simp: matches_def asked_for_def of_row_def nullable_string_value_def)

lemma ran_sqlite_view:
  assumes "db_ok d"
  shows "ran (sqlite_view d) = of_row ` set (db_sessions d)"
proof -
  have "sqlite_view d (row_id w) = Some (of_row w)" if "w \<in> set (db_sessions d)" for w
    using view_row assms that by blast
  then show ?thesis by (auto simp: ran_def sqlite_view_def dest: find_row_id) metis
qed

lemma list_pages_length: "length (fst (list_pages q k n d)) = n"
  by (induction n arbitrary: k d) (simp_all add: case_prod_beta)

lemma mset_newest_first: "mset (newest_first ties ws) = mset ws"
  by (simp add: newest_first_def)

text \<open>Rows with different creation times have one order only.\<close>

lemma newest_first_unique:
  assumes "distinct (map row_created_at ws)"
  shows "newest_first ties ws = newest_first [] ws"
proof -
  let ?us = "rev (newest_first ties ws)" and ?vs = "rev (newest_first [] ws)"
  have inj: "inj_on row_created_at (set ws)" using assms by (simp add: distinct_map)
  have "sorted (map row_created_at ?us)" "sorted (map row_created_at ?vs)" by (simp_all add: newest_first_def)
  moreover have "mset ?us = mset ws" "mset ?vs = mset ws" by (simp_all add: mset_newest_first)
  ultimately have "sort_key row_created_at ws = ?us" "sort_key row_created_at ws = ?vs"
    using inj by (metis sort_key_inj_key_eq)+
  then show ?thesis by simp
qed

lemma concat_pages:
  "concat (map (\<lambda>i. take l (drop (i * l) xs)) [k..<k + n]) = take (n * l) (drop (k * l) xs)"
proof (induction n)
  case (Suc n)
  have "Suc n * l = n * l + l" "drop (n * l) (drop (k * l) xs) = drop ((k + n) * l) xs"
    by (simp_all add: add_mult_distrib add.commute)
  then have "take (Suc n * l) (drop (k * l) xs) = take (n * l) (drop (k * l) xs) @ take l (drop ((k + n) * l) xs)"
    by (simp only: take_add)
  then show ?case using Suc by (simp del: mult_Suc)
qed simp

lemma list_step:
  assumes "healthy d"
  shows "sqlite_list q d = (Inr (map of_row (select_page q (fst (next_ties d)) (db_sessions d))), snd (next_ties d))"
    and "healthy (snd (next_ties d))"
  using assms by (simp_all add: healthy_def sqlite_list_def sql_query_def next_fault_def case_prod_beta)

lemma list_pages_results:
  assumes "healthy d" "distinct (map row_created_at (filter (matches q) (db_sessions d)))"
  shows "fst (list_pages q k n d) = map (\<lambda>i. Inr (map of_row (take (page_limit (q_limit q))
    (drop (i * page_limit (q_limit q)) (newest_first [] (filter (matches q) (db_sessions d))))))) [k..<k + n]"
  using assms
proof (induction n arbitrary: k d)
  case (Suc n)
  let ?q = "q\<lparr>q_offset := int (k * page_limit (q_limit q))\<rparr>"
  have "matches ?q = matches q" by (simp add: matches_def fun_eq_iff)
  moreover have "page_offset (q_offset ?q) = k * page_limit (q_limit q)" by (simp add: page_offset_def del: of_nat_mult)
  ultimately have "select_page ?q ties (db_sessions d) = take (page_limit (q_limit q))
      (drop (k * page_limit (q_limit q)) (newest_first [] (filter (matches q) (db_sessions d))))" for ties
    using newest_first_unique [OF Suc.prems(2), of ties] by (simp add: select_page_def)
  moreover have "[k..<k + Suc n] = k # [Suc k..<Suc k + n]" by (simp add: upt_conv_Cons)
  ultimately show ?case
    using Suc.IH [OF list_step(2) [OF Suc.prems(1)], of "Suc k"] Suc.prems(2)
    by (simp add: list_step(1) [OF Suc.prems(1)] case_prod_beta del: of_nat_mult upt_Suc)
qed simp


definition two_sessions :: "string list list \<Rightarrow> db" where
  "two_sessions ties = (snd (sqlite_create (noon 1 0) (sample_record 2 ''e2'') one_session))\<lparr>db_ties := ties\<rparr>"


text \<open>With equal creation times it can miss one: of two such sessions the database may return the same
  one on both pages, as \<open>ORDER BY created_at\<close> alone does not fix their order.\<close>

theorem paging_can_miss:
  assumes "healthy d" "filter (matches q) (db_sessions d) = [v, w]" "row_created_at v = row_created_at w"
    and "row_id v \<noteq> row_id w" "q_limit q = 1" "db_ties d = [[row_id v], [row_id w]]"
  shows "fst (list_pages q 0 2 d) = [Inr [of_row v], Inr [of_row v]]"
proof -
  let ?q = "\<lambda>n. q\<lparr>q_offset := n\<rparr>"
  let ?d = "snd (next_ties d)"
  have m: "matches (?q n) = matches q" for n by (simp add: matches_def fun_eq_iff)
  have ties: "fst (next_ties d) = [row_id v]" "fst (next_ties ?d) = [row_id w]"
    using assms(6) by (simp_all add: next_ties_def)
  have "newest_first [row_id v] [v, w] = [v, w]" "newest_first [row_id w] [v, w] = [w, v]"
    using assms(3,4) by (simp_all add: newest_first_def tie_rank_def)
  then have "select_page (?q 0) [row_id v] (db_sessions d) = [v]" "select_page (?q 1) [row_id w] (db_sessions d) = [v]"
    using assms(2,5) m by (simp_all add: select_page_def page_limit_def page_offset_def)
  then show ?thesis
    using list_step(1) [OF assms(1), of "?q 0"] list_step(1) [OF list_step(2) [OF assms(1)], of "?q 1"] ties assms(5)
    by (simp add: numeral_2_eq_2 page_limit_def case_prod_beta)
qed

theorem paging_can_miss_witness:
  "\<exists>w. fst (list_pages (any_query 1 0) 0 2
     (fresh_db\<lparr>db_sessions := map (\<lambda>n. row_of (noon 1 0) ((sample_record n [])\<lparr>s_created_at := noon 1 0\<rparr>)) [1, 2],
        db_ties := [[''s_000001''], [''s_000002'']]\<rparr>)) = [Inr [w], Inr [w]]"
proof -
  let ?w = "\<lambda>n. row_of (noon 1 0) ((sample_record n [])\<lparr>s_created_at := noon 1 0\<rparr>)"
  let ?d = "fresh_db\<lparr>db_sessions := map ?w [1, 2], db_ties := [[''s_000001''], [''s_000002'']]\<rparr>"
  have "healthy ?d" "row_id (?w 1) = ''s_000001''" "row_id (?w 2) = ''s_000002''" "row_id (?w 1) \<noteq> row_id (?w 2)"
    "filter (matches (any_query 1 0)) (db_sessions ?d) = [?w 1, ?w 2]" "row_created_at (?w 1) = row_created_at (?w 2)"
    "q_limit (any_query 1 0) = 1" "db_ties ?d = [[''s_000001''], [''s_000002'']]"
    by code_simp+
  then show ?thesis using paging_can_miss [of ?d "any_query 1 0" "?w 1" "?w 2"] by auto
qed

text \<open>Initialising an open database that reports no fault succeeds, leaves it ready with its rows
  untouched, whether it was new, current or from before the \<open>raw_json\<close> column, and doing it
  again changes nothing.\<close>

theorem sqlite_init_ready:
  assumes "\<not> db_closed d" "db_faults d = []" "db_uncommitted d = None"
  shows "sqlite_init d = (Inr (), d\<lparr>db_tables := True, db_has_raw := True\<rparr>) \<and>
    healthy (d\<lparr>db_tables := True, db_has_raw := True\<rparr>) \<and>
    sqlite_init (d\<lparr>db_tables := True, db_has_raw := True\<rparr>) =
      (Inr (), d\<lparr>db_tables := True, db_has_raw := True\<rparr>)"
proof -
  have dup: "is_duplicate_column ''SQL logic error: duplicate column name: raw_json (1)''" by code_simp
  have nf: "next_fault e = (None, e)" if "\<not> db_closed e" "db_faults e = []" for e
    using that by (simp add: next_fault_def)
  have "sqlite_init e = (Inr (), e\<lparr>db_tables := True, db_has_raw := True\<rparr>)"
    if "\<not> db_closed e" "db_faults e = []" for e :: db
    using that dup by (simp add: sqlite_init_def sqlite_migrate_def nf Let_def)
  then show ?thesis using assms by (simp add: healthy_def)
qed

theorem sqlite_init_ready_witness:
  "sqlite_init (one_session\<lparr>db_has_raw := False\<rparr>) = (Inr (), one_session)"
proof -
  let ?d = "one_session\<lparr>db_has_raw := False\<rparr>"
  have "\<not> db_closed ?d" "db_faults ?d = []" "db_uncommitted ?d = None" "?d\<lparr>db_tables := True, db_has_raw := True\<rparr> = one_session"
    by code_simp+
  then show ?thesis using sqlite_init_ready [of ?d] by simp
qed

text \<open>While the manager's ids have six digits, \<open>GetMaxSessionID\<close> returns the id with the largest
  number, and nothing for an empty store: text order and number order agree.\<close>

theorem max_session_id_found:
  assumes "db_ok d" "healthy d" "six_digit_ids (dom (sqlite_view d))"
  shows "\<exists>m. sqlite_max_id d = (Inr m, d) \<and>
    (if dom (sqlite_view d) = {} then m = []
     else \<exists>k<1000000. m = session_id k \<and> m \<in> dom (sqlite_view d) \<and>
       (\<forall>n. session_id n \<in> dom (sqlite_view d) \<longrightarrow> n \<le> k))"
proof -
  have "\<exists>m. sqlite_max_id d = (Inr m, d)"
    using assms(2) by (cases "greatest_id (db_sessions d)") (auto simp: sqlite_max_id_def sql_query_def healthy_def)
  then obtain m where m: "sqlite_max_id d = (Inr m, d)" ..
  then have "fst (st_max_id sqlite_store d) = Inr m" by (simp add: sqlite_store_def)
  from sqlite_db.max_found [OF assms(1,3) this] m show ?thesis by blast
qed

theorem max_session_id_found_witness: "sqlite_max_id one_session = (Inr ''s_000001'', one_session)"
proof -
  have "db_ok one_session" "healthy one_session" by code_simp+
  moreover have dom: "dom (sqlite_view one_session) = {session_id 1}"
    unfolding dom_sqlite_view by code_simp
  then have "six_digit_ids (dom (sqlite_view one_session))"
    by (auto simp: six_digit_ids_def intro!: exI [of _ 1])
  ultimately obtain m where "sqlite_max_id one_session = (Inr m, one_session)" "m \<in> {session_id 1}"
    using max_session_id_found [of one_session] dom by auto
  moreover have "session_id 1 = ''s_000001''" by code_simp
  ultimately show ?thesis by simp
qed

text \<open>As text, ids of seven digits up to \<open>s_8999999\<close> sort below \<open>s_999999\<close>.\<close>

lemma session_id_below:
  assumes "n < 9000000"
  shows "session_id n \<le> session_id 999999"
proof (cases "n < 1000000")
  case True
  then show ?thesis using session_id_order [of n 999999] by simp
next
  case False
  then have "length (fmt_nat n) = 7"
    using length_fmt_nat_bound [of n 7] length_fmt_nat_lower [of 6 n] assms by simp
  then have six: "fmt_06d n = fmt_nat n" by (simp add: fmt_06d_def pad_zeros_def)
  obtain c cs where c: "fmt_nat n = c # cs" "length cs = 6" "is_digit_char c" "\<forall>x\<in>set cs. is_digit_char x"
    using \<open>length (fmt_nat n) = 7\<close> fmt_nat_digits [of n] by (cases "fmt_nat n") auto
  have "n = digit_val c * 10 ^ 6 + dec_val cs"
    using dec_val_fmt [of n] c by (simp add: dec_val_Cons)
  then have "digit_val c < 9" using assms by simp
  then have "c < CHR ''9''"
    using digit_less_iff [OF c(3), of "CHR ''9''"] by (simp add: is_digit_char_def digit_val_def)
  moreover have "fmt_06d 999999 = ''999999''" by code_simp
  ultimately have "session_id n < session_id 999999"
    using c(1) six by (simp add: session_id_def)
  then show ?thesis by (rule less_imp_le)
qed

lemma max_id_seven_digits:
  assumes "healthy d" "dom (sqlite_view d) \<subseteq> session_id ` {..<9000000}" "session_id 999999 \<in> dom (sqlite_view d)"
  shows "sqlite_max_id d = (Inr (session_id 999999), d)"
proof -
  let ?S = "dom (sqlite_view d)"
  have S: "?S = row_id ` set (db_sessions d)" by (simp add: dom_sqlite_view)
  have "glob_session i" if "i \<in> ?S" for i using that assms(2) session_id_glob by blast
  then have glob: "?S = {i \<in> row_id ` set (db_sessions d). glob_session i}" using S by blast
  have below: "i \<le> session_id 999999" if "i \<in> ?S" for i
  proof -
    from subsetD [OF assms(2) that] obtain n where "i = session_id n" "n < 9000000" by auto
    then show ?thesis using session_id_below by simp
  qed
  have fin: "finite ?S" by (simp add: S)
  have "Max ?S = session_id 999999" by (rule Max_eqI [OF fin below assms(3)])
  moreover have "?S \<noteq> {}" using assms(3) by blast
  ultimately have "greatest_id (db_sessions d) = Some (session_id 999999)"
    using greatest_id_Max [OF glob] by simp
  then show ?thesis using assms(1) by (simp add: sqlite_max_id_def sql_query_def healthy_def)
qed

text \<open>Past a million sessions that breaks: ids of seven digits sort below \<open>s_999999\<close> as text, so from
  any store that holds \<open>s_999999\<close> and no number from nine million on, \<open>GetMaxSessionID\<close> returns
  \<open>s_999999\<close>.\<close>

theorem max_session_id_seven_digits:
  assumes "healthy d" "dom (sqlite_view d) \<subseteq> session_id ` {..<9000000}" "session_id 999999 \<in> dom (sqlite_view d)"
  shows "sqlite_max_id d = (Inr (session_id 999999), d)"
  by (rule max_id_seven_digits [OF assms])

text \<open>The database of a server that has created \<open>n\<close> sessions.\<close>

definition many_sessions :: "nat \<Rightarrow> db" where
  "many_sessions n = fresh_db\<lparr>db_sessions := map (\<lambda>k. row_of (noon 1 0) (sample_record k [])) [1..<Suc n]\<rparr>"

lemma many_sessions_facts:
  "healthy (many_sessions n)" "dom (sqlite_view (many_sessions n)) = session_id ` {1..n}"
proof -
  show "healthy (many_sessions n)" by (simp add: many_sessions_def fresh_db_def healthy_def)
  have "map row_id (db_sessions (many_sessions n)) = map session_id [1..<Suc n]"
    by (simp add: many_sessions_def sample_record_def del: upt_Suc)
  moreover have "set [1..<Suc n] = {1..n}" by auto
  ultimately show "dom (sqlite_view (many_sessions n)) = session_id ` {1..n}"
    by (simp only: dom_sqlite_view set_map)
qed

theorem max_session_id_seven_digits_witness:
  "sqlite_max_id (many_sessions 1000000) = (Inr ''s_999999'', many_sessions 1000000)"
proof -
  have "session_id 999999 = ''s_999999''" by code_simp
  moreover have "session_id ` {1..1000000} \<subseteq> session_id ` {..<9000000}" by (intro image_mono) auto
  moreover have "session_id 999999 \<in> session_id ` {1..1000000}" by (intro imageI) simp
  ultimately show ?thesis
    using max_session_id_seven_digits [OF many_sessions_facts(1), of 1000000]
    by (simp only: many_sessions_facts(2))
qed

end
