(* ===== verification/Store_Spec.thy ===== *)
theory Store_Spec
  imports Sqlite Refinement
begin

text \<open>
  What the sessions database means: a finite map from ids to sessions and, for every session, the
  list of its messages. No tables, rows, nullable columns, text timestamps or foreign keys. On a
  database that answers, the methods of \<open>sqlite.go\<close> give the replies of this map for every sequence
  of calls, and the database is at each moment the map the calls have made. \<open>ListSessions\<close> is not
  among the calls: it orders by the stored texts of the times, and \<open>Sqlite\<close> states what it returns. The
  last section follows a database on which a \<open>COMMIT\<close> failed and left its transaction open.
\<close>

section \<open>The map\<close>

record store_model =
  sm_sessions :: "string \<rightharpoonup> session_record"
  sm_messages :: "string \<Rightarrow> message_row list"

datatype store_call =
    Call_Create go_time session_record
  | Call_Get string
  | Call_Delete string
  | Call_Touch go_time string go_time
  | Call_Replace go_time string "message_record list"
  | Call_Count
  | Call_Max_Id

datatype store_reply =
    Status "store_error + unit"
  | Found "store_error + session_record"
  | Number "store_error + int"
  | Name "store_error + string"

definition empty_model :: store_model where
  "empty_model = \<lparr>sm_sessions = Map.empty, sm_messages = (\<lambda>_. [])\<rparr>"

text \<open>A blank external id is none; another one belongs to at most one session.\<close>

definition external_taken :: "string \<Rightarrow> store_model \<Rightarrow> bool" where
  "external_taken ext m \<longleftrightarrow> trim_space ext \<noteq> [] \<and> (\<exists>r\<in>ran (sm_sessions m). s_external_id r = ext)"

text \<open>A message as it is kept, without the number of its row.\<close>

definition stored_message :: "go_time \<Rightarrow> string \<Rightarrow> message_record \<Rightarrow> message_row" where
  "stored_message now sid msg = message_row_of 0 now sid msg"

definition numbered_ids :: "store_model \<Rightarrow> string set" where
  "numbered_ids m = {i \<in> dom (sm_sessions m). glob_session i}"

fun model_step :: "store_call \<Rightarrow> store_model \<Rightarrow> store_reply \<times> store_model" where
  "model_step (Call_Create now r) m =
     (if s_id r \<in> dom (sm_sessions m) \<or> external_taken (s_external_id r) m
      then (Status (Inl Store_Conflict), m)
      else (Status (Inr ()), m\<lparr>sm_sessions := (sm_sessions m)(s_id r \<mapsto> stored now r)\<rparr>))"
| "model_step (Call_Get sid) m =
     (case sm_sessions m sid of None \<Rightarrow> (Found (Inl Store_Not_Found), m) | Some r \<Rightarrow> (Found (Inr r), m))"
| "model_step (Call_Delete sid) m =
     (case sm_sessions m sid of
        None \<Rightarrow> (Status (Inl Store_Not_Found), m)
      | Some r \<Rightarrow>
          (Status (Inr ()), m\<lparr>sm_sessions := (sm_sessions m)(sid := None), sm_messages := (sm_messages m)(sid := [])\<rparr>))"
| "model_step (Call_Touch now sid t) m =
     (case sm_sessions m sid of
        None \<Rightarrow> (Status (Inl Store_Not_Found), m)
      | Some r \<Rightarrow>
          (Status (Inr ()),
           m\<lparr>sm_sessions := (sm_sessions m)(sid \<mapsto> r\<lparr>s_last_active_at := time_or_now now t\<rparr>)\<rparr>))"
| "model_step (Call_Replace now sid msgs) m =
     (if msgs \<noteq> [] \<and> sid \<notin> dom (sm_sessions m)
      then (Status (Inl (Store_Failed ''constraint failed: FOREIGN KEY constraint failed (787)'')), m)
      else (Status (Inr ()), m\<lparr>sm_messages := (sm_messages m)(sid := map (stored_message now sid) msgs)\<rparr>))"
| "model_step Call_Count m = (Number (Inr (int (card (dom (sm_sessions m))))), m)"
| "model_step Call_Max_Id m =
     (Name (Inr (if numbered_ids m = {} then [] else Max (numbered_ids m))), m)"

fun sqlite_step :: "store_call \<Rightarrow> db \<Rightarrow> store_reply \<times> db" where
  "sqlite_step (Call_Create now r) d = map_prod Status (\<lambda>x. x) (sqlite_create now r d)"
| "sqlite_step (Call_Get sid) d = map_prod Found (\<lambda>x. x) (sqlite_get sid d)"
| "sqlite_step (Call_Delete sid) d = map_prod Status (\<lambda>x. x) (sqlite_delete sid d)"
| "sqlite_step (Call_Touch now sid t) d = map_prod Status (\<lambda>x. x) (sqlite_touch now sid t d)"
| "sqlite_step (Call_Replace now sid msgs) d = map_prod Status (\<lambda>x. x) (sqlite_replace now sid msgs d)"
| "sqlite_step Call_Count d = map_prod Number (\<lambda>x. x) (sqlite_count d)"
| "sqlite_step Call_Max_Id d = map_prod Name (\<lambda>x. x) (sqlite_max_id d)"

text \<open>Times the store can write and read back.\<close>

fun storable_call :: "store_call \<Rightarrow> bool" where
  "storable_call (Call_Create now r) = storable now r"
| "storable_call (Call_Touch now sid t) = (valid_time now \<and> valid_time t)"
| "storable_call _ = True"

definition model_of :: "db \<Rightarrow> store_model" where
  "model_of d =
     \<lparr>sm_sessions = sqlite_view d,
      sm_messages = (\<lambda>sid. map (\<lambda>w. w\<lparr>mrow_id := 0\<rparr>) (filter (\<lambda>w. mrow_session_id w = sid) (db_messages d)))\<rparr>"

definition stands_for :: "db \<Rightarrow> store_model \<Rightarrow> bool" where
  "stands_for d m \<longleftrightarrow> db_ok d \<and> healthy d \<and> model_of d = m"

section \<open>Each call on a database that answers\<close>

lemma model_of_simps [simp]: "sm_sessions (model_of d) = sqlite_view d"
  by (simp add: model_of_def)

lemma healthy_fields: "healthy d \<Longrightarrow> db_tables d \<and> db_has_raw d \<and> db_uncommitted d = None"
  by (simp add: healthy_def)

lemma healthy_cong:
  "healthy d \<Longrightarrow> db_closed d' = db_closed d \<Longrightarrow> db_tables d' = db_tables d \<Longrightarrow> db_has_raw d' = db_has_raw d \<Longrightarrow>
     db_faults d' = db_faults d \<Longrightarrow> db_uncommitted d' = db_uncommitted d \<Longrightarrow> healthy d'"
  by (simp add: healthy_def)

lemma model_of_cong:
  "sqlite_view d' = sqlite_view d \<Longrightarrow> db_messages d' = db_messages d \<Longrightarrow> model_of d' = model_of d"
  by (simp add: model_of_def)

lemma external_taken_iff:
  assumes "db_ok d"
  shows "external_taken ext (model_of d) \<longleftrightarrow> nullable_string ext \<in> set (external_ids d)"
proof -
  have blank: "trim_space [] = []" by code_simp
  have "ran (sqlite_view d) = of_row ` set (db_sessions d)" by (rule ran_sqlite_view [OF assms])
  moreover have "s_external_id (of_row w) = ext \<longleftrightarrow> row_external_id w = Some ext" if "trim_space ext \<noteq> []" for w
    using that blank by (cases "row_external_id w") (auto simp: of_row_def nullable_string_value_def)
  ultimately show ?thesis
    by (force simp: external_taken_def external_ids_def nullable_string_def)
qed

lemma create_step:
  assumes "db_ok d" "healthy d" "storable now r"
  shows "fst (sqlite_step (Call_Create now r) d) = fst (model_step (Call_Create now r) (model_of d))"
    and "stands_for (snd (sqlite_step (Call_Create now r) d)) (snd (model_step (Call_Create now r) (model_of d)))"
proof -
  let ?clash = "sqlite_view d (s_id r) \<noteq> None \<or> nullable_string (s_external_id r) \<in> set (external_ids d)"
  have clash: "s_id r \<in> dom (sm_sessions (model_of d)) \<or> external_taken (s_external_id r) (model_of d) \<longleftrightarrow> ?clash"
    using external_taken_iff [OF assms(1)] by auto
  have "fst (sqlite_step (Call_Create now r) d) = fst (model_step (Call_Create now r) (model_of d)) \<and>
    stands_for (snd (sqlite_step (Call_Create now r) d)) (snd (model_step (Call_Create now r) (model_of d)))"
  proof (cases ?clash)
    case True
    then have "sqlite_create now r d = (Inl Store_Conflict, d)" using create_get_healthy [OF assms] by simp
    then show ?thesis using True clash assms by (simp add: stands_for_def)
  next
    case False
    then obtain d' where d': "sqlite_create now r d = (Inr (), d')" "db_ok d'" "healthy d'"
      "sqlite_view d' = (sqlite_view d)(s_id r \<mapsto> stored now r)"
      using create_get_healthy [OF assms] by auto
    have "db_messages d' = db_messages d"
      using d'(1) by (cases rule: sqlite_create_cases [of now r d]) auto
    then have "model_of d' = (model_of d)\<lparr>sm_sessions := (sqlite_view d)(s_id r \<mapsto> stored now r)\<rparr>"
      using d'(4) by (simp add: model_of_def)
    then show ?thesis using False clash d' by (simp add: stands_for_def)
  qed
  then show "fst (sqlite_step (Call_Create now r) d) = fst (model_step (Call_Create now r) (model_of d))"
    "stands_for (snd (sqlite_step (Call_Create now r) d)) (snd (model_step (Call_Create now r) (model_of d)))"
    by blast+
qed

lemma get_step:
  assumes "healthy d"
  shows "sqlite_get sid d = (case sqlite_view d sid of None \<Rightarrow> (Inl Store_Not_Found, d) | Some r \<Rightarrow> (Inr r, d))"
  using assms
  by (auto simp: sqlite_get_def sql_query_def sqlite_view_def dest: healthy_fields split: option.split)

lemma messages_without:
  "sm_messages (model_of (without_session sid d)) = (sm_messages (model_of d))(sid := [])"
  by (rule ext) (auto simp: model_of_def without_session_def intro!: arg_cong [where f = "map _"] filter_cong)

lemma delete_step:
  assumes "healthy d"
  shows "sqlite_delete sid d =
    (case sqlite_view d sid of None \<Rightarrow> (Inl Store_Not_Found, d) | Some r \<Rightarrow> (Inr (), without_session sid d))"
  using assms
  by (cases rule: sqlite_delete_cases [of sid d])
    (auto simp: sqlite_view_def find_row_None sqlite_delete_def sql_delete_session_def healthy_def
      split: option.splits if_splits)

lemma touch_step:
  assumes "healthy d"
  shows "sqlite_touch now sid t d =
    (case sqlite_view d sid of
       None \<Rightarrow> (Inl Store_Not_Found, d) | Some r \<Rightarrow> (Inr (), with_activity sid (to_ts now t) d))"
  using assms
  by (cases rule: sqlite_touch_cases [of now sid t d])
    (auto simp: sqlite_view_def find_row_None sqlite_touch_def sql_update_activity_def healthy_def
      split: option.splits if_splits)

lemma insert_messages_healthy:
  assumes "healthy d" "sid \<in> set (map row_id (db_sessions d))"
  shows "insert_messages now sid ms d =
    (Inr (), d\<lparr>db_messages := db_messages d @ message_rows now sid (db_next_message d) ms,
               db_next_message := db_next_message d + length ms\<rparr>)"
  using assms
proof (induction ms arbitrary: d)
  case (Cons m ms)
  let ?d = "d\<lparr>db_messages := db_messages d @ [message_row_of (db_next_message d) now sid m],
              db_next_message := db_next_message d + 1\<rparr>"
  have "healthy ?d" by (rule healthy_cong [OF Cons.prems(1)]) simp_all
  from Cons.IH [OF this] Cons.prems show ?case by simp
qed simp

lemma message_rows_stored:
  "map (\<lambda>w. w\<lparr>mrow_id := 0\<rparr>) (message_rows now sid n ms) = map (stored_message now sid) ms"
  by (induction ms arbitrary: n) (simp_all add: stored_message_def message_row_of_def)

lemma replace_step:
  assumes "healthy d" "db_ok d"
  shows "if msgs \<noteq> [] \<and> sid \<notin> dom (sqlite_view d)
    then sqlite_replace now sid msgs d =
      (Inl (Store_Failed ''constraint failed: FOREIGN KEY constraint failed (787)''), d)
    else \<exists>d'. sqlite_replace now sid msgs d = (Inr (), d') \<and> stands_for d'
      ((model_of d)\<lparr>sm_messages := (sm_messages (model_of d))(sid := map (stored_message now sid) msgs)\<rparr>)"
proof -
  let ?d1 = "d\<lparr>db_messages := filter (\<lambda>m. mrow_session_id m \<noteq> sid) (db_messages d)\<rparr>"
  let ?rows = "message_rows now sid (db_next_message d) msgs"
  have h1: "healthy ?d1" by (rule healthy_cong [OF assms(1)]) simp_all
  have dom: "sid \<in> dom (sqlite_view d) \<longleftrightarrow> sid \<in> set (map row_id (db_sessions d))"
    by (simp only: dom_sqlite_view)
  show ?thesis
  proof (cases "msgs \<noteq> [] \<and> sid \<notin> dom (sqlite_view d)")
    case True
    then obtain m ms where "msgs = m # ms" by (cases msgs) auto
    then have "insert_all now sid msgs ?d1 = (Inl ''constraint failed: FOREIGN KEY constraint failed (787)'', ?d1)"
      using True h1 assms(1) healthy_fields unfolding dom by (auto simp: insert_all_def)
    moreover have "rollback d ?d1 = d" by (simp add: rollback_def)
    ultimately show ?thesis
      using True assms(1) healthy_fields by (auto simp: sqlite_replace_def)
  next
    case False
    let ?d2 = "d\<lparr>db_messages := filter (\<lambda>m. mrow_session_id m \<noteq> sid) (db_messages d) @ ?rows,
                 db_next_message := db_next_message d + length msgs\<rparr>"
    have "insert_all now sid msgs ?d1 = (Inr (), ?d2)"
      using False h1 healthy_fields [OF h1] insert_messages_healthy [OF h1, of sid now msgs] unfolding dom
      by (cases "msgs = []") (auto simp: insert_all_def)
    moreover have h2: "healthy ?d2" by (rule healthy_cong [OF assms(1)]) simp_all
    ultimately have res: "sqlite_replace now sid msgs d = (Inr (), ?d2)"
      using assms(1) healthy_fields by (simp add: sqlite_replace_def)
    have ok: "db_ok ?d2" using ok_replace [OF assms(2), of now sid msgs] res by simp
    have rows: "filter (\<lambda>w. mrow_session_id w = i) ?rows = (if i = sid then ?rows else [])" for i
      using message_rows_facts by (fastforce simp: filter_id_conv filter_empty_conv)
    have old: "filter (\<lambda>w. mrow_session_id w = i) (filter (\<lambda>w. mrow_session_id w \<noteq> sid) (db_messages d)) =
        (if i = sid then [] else filter (\<lambda>w. mrow_session_id w = i) (db_messages d))" for i
      by (auto simp: filter_empty_conv intro!: filter_cong)
    have msgs: "sm_messages (model_of ?d2) = (sm_messages (model_of d))(sid := map (stored_message now sid) msgs)"
    proof
      fix i
      show "sm_messages (model_of ?d2) i = ((sm_messages (model_of d))(sid := map (stored_message now sid) msgs)) i"
        using rows [of i] old [of i] by (simp add: model_of_def message_rows_stored)
    qed
    have "sqlite_view ?d2 = sqlite_view d" by (rule sqlite_view_cong) simp
    then have "model_of ?d2 =
        (model_of d)\<lparr>sm_messages := (sm_messages (model_of d))(sid := map (stored_message now sid) msgs)\<rparr>"
      using msgs by (intro store_model.equality) simp_all
    then show ?thesis using False res ok h2 by (auto simp: stands_for_def)
  qed
qed

lemma count_step:
  assumes "healthy d" "db_ok d"
  shows "sqlite_count d = (Inr (int (card (dom (sqlite_view d)))), d)"
proof -
  have "card (dom (sqlite_view d)) = length (db_sessions d)"
    using assms(2) distinct_card [of "map row_id (db_sessions d)"] unfolding dom_sqlite_view db_ok_def by simp
  then show ?thesis
    using assms(1) healthy_fields by (auto simp: sqlite_count_def sql_query_def)
qed

lemma max_step:
  assumes "healthy d"
  shows "sqlite_max_id d = (Inr (if numbered_ids (model_of d) = {} then [] else Max (numbered_ids (model_of d))), d)"
proof -
  have "numbered_ids (model_of d) = {i \<in> row_id ` set (db_sessions d). glob_session i}"
    by (simp add: numbered_ids_def dom_sqlite_view)
  from greatest_id_Max [OF this] show ?thesis
    using assms healthy_fields by (auto simp: sqlite_max_id_def sql_query_def)
qed

interpretation sqlite_model: simulation sqlite_step model_step stands_for "\<lambda>e m. storable_call e"
proof unfold_locales
  fix d m e
  assume st: "stands_for d m" "storable_call e"
  have d: "db_ok d" "healthy d" "m = model_of d" using st(1) by (auto simp: stands_for_def)
  have "fst (sqlite_step e d) = fst (model_step e m) \<and> stands_for (snd (sqlite_step e d)) (snd (model_step e m))"
  proof (cases e)
    case (Call_Create now r)
    then show ?thesis using create_step [OF d(1,2)] st(2) d(3) by simp
  next
    case (Call_Get sid)
    then show ?thesis using get_step [OF d(2)] st(1) d(3) by (simp split: option.split)
  next
    case (Call_Delete sid)
    have "healthy (without_session sid d)"
      by (rule healthy_cong [OF d(2)]) (simp_all add: without_session_def)
    moreover have "model_of (without_session sid d) = (model_of d)\<lparr>sm_sessions := (sqlite_view d)(sid := None),
        sm_messages := (sm_messages (model_of d))(sid := [])\<rparr>"
      using messages_without view_without by (intro store_model.equality) simp_all
    ultimately show ?thesis
      using Call_Delete delete_step [OF d(2)] st(1) d ok_without by (simp add: stands_for_def split: option.split)
  next
    case (Call_Touch now sid t)
    then have ts: "from_ts (to_ts now t) = time_or_now now t"
      using st(2) by (simp add: from_ts_to_ts time_or_now_def)
    have "healthy (with_activity sid (to_ts now t) d)"
      by (rule healthy_cong [OF d(2)]) (simp_all add: with_activity_def)
    moreover have "model_of (with_activity sid (to_ts now t) d) = (model_of d)\<lparr>sm_sessions := (sqlite_view d)
        (sid \<mapsto> r\<lparr>s_last_active_at := time_or_now now t\<rparr>)\<rparr>" if "sqlite_view d sid = Some r" for r
    proof (rule store_model.equality)
      show "sm_sessions (model_of (with_activity sid (to_ts now t) d)) = sm_sessions ((model_of d)\<lparr>sm_sessions :=
          (sqlite_view d)(sid \<mapsto> r\<lparr>s_last_active_at := time_or_now now t\<rparr>)\<rparr>)"
        using that ts by (simp add: fun_eq_iff view_activity)
    qed (simp_all add: model_of_def with_activity_def)
    ultimately show ?thesis
      using Call_Touch touch_step [OF d(2)] st(1) d ok_activity by (simp add: stands_for_def split: option.split)
  next
    case (Call_Replace now sid msgs)
    then show ?thesis using replace_step [OF d(2,1), of msgs sid now] st(1) d(3) by (auto split: if_splits)
  next
    case Call_Count
    then show ?thesis using count_step [OF d(2,1)] st(1) d(3) by simp
  next
    case Call_Max_Id
    then show ?thesis using max_step [OF d(2)] st(1) d(3) by simp
  qed
  then show "fst (sqlite_step e d) = fst (model_step e m)"
    "stands_for (snd (sqlite_step e d)) (snd (model_step e m))" by blast+
qed

lemma enabled_storable: "enabled (\<lambda>e m. storable_call e) step es m \<longleftrightarrow> (\<forall>e\<in>set es. storable_call e)"
  by (induction es arbitrary: m) auto

section \<open>Properties\<close>

text \<open>C4: On a database that answers, whatever the calls (all but \<open>ListSessions\<close>) and their order, the SQLite store replies as a
  map from ids to sessions with a message list each would, and its tables stand for that map at the
  end: no update is lost, no conflict missed or invented, nothing left of a deleted session.\<close>

theorem sqlite_refines_map:
  assumes "db_ok d" "healthy d" "\<forall>e\<in>set calls. storable_call e"
  shows "fst (run sqlite_step calls d) = fst (run model_step calls (model_of d)) \<and>
    model_of (snd (run sqlite_step calls d)) = snd (run model_step calls (model_of d)) \<and>
    db_ok (snd (run sqlite_step calls d)) \<and> healthy (snd (run sqlite_step calls d))"
proof -
  have rel: "stands_for d (model_of d)" using assms(1,2) by (simp add: stands_for_def)
  have "enabled (\<lambda>e m. storable_call e) model_step calls (model_of d)" using assms(3) by (simp add: enabled_storable)
  then show ?thesis
    using sqlite_model.run_out [OF rel] sqlite_model.run_rel [OF rel] by (auto simp: stands_for_def)
qed

definition sample_calls :: "store_call list" where
  "sample_calls =
     [Call_Create (noon 1 0) (sample_record 2 ''e1''), Call_Create (noon 1 0) (sample_record 2 ''e2''),
      Call_Replace (noon 2 0) ''s_000002'' [sample_message], Call_Max_Id, Call_Delete ''s_000002'',
      Call_Get ''s_000002'', Call_Replace (noon 3 0) ''s_000002'' [sample_message], Call_Count]"

theorem sqlite_refines_map_witness:
  "fst (run model_step sample_calls (model_of one_session)) =
     [Status (Inl Store_Conflict), Status (Inr ()), Status (Inr ()), Name (Inr ''s_000002''), Status (Inr ()),
      Found (Inl Store_Not_Found),
      Status (Inl (Store_Failed ''constraint failed: FOREIGN KEY constraint failed (787)'')), Number (Inr 1)] \<and>
   sqlite_view (snd (run sqlite_step sample_calls one_session)) = sqlite_view one_session"
proof -
  have st: "db_ok one_session" "healthy one_session" "\<forall>e\<in>set sample_calls. storable_call e"
    by code_simp+
  have "fst (run sqlite_step sample_calls one_session) =
    [Status (Inl Store_Conflict), Status (Inr ()), Status (Inr ()), Name (Inr ''s_000002''), Status (Inr ()),
      Found (Inl Store_Not_Found),
      Status (Inl (Store_Failed ''constraint failed: FOREIGN KEY constraint failed (787)'')), Number (Inr 1)]"
    by code_simp
  moreover have "db_sessions (snd (run sqlite_step sample_calls one_session)) = db_sessions one_session"
    by code_simp
  ultimately show ?thesis
    unfolding sqlite_refines_map [OF st, THEN conjunct1, symmetric] by (intro conjI sqlite_view_cong)
qed

section \<open>After a failed commit\<close>

lemma open_transaction_stays:
  assumes "db_uncommitted d = Some saved"
  shows "db_uncommitted (snd (sqlite_step c d)) = Some saved"
proof (cases c)
  case (Call_Create now r)
  then show ?thesis using assms by (cases rule: sqlite_create_cases [of now r d]) simp_all
next
  case (Call_Get sid)
  then show ?thesis using assms by (cases rule: sqlite_get_cases [of sid d]) simp_all
next
  case (Call_Delete sid)
  then show ?thesis using assms by (cases rule: sqlite_delete_cases [of sid d]) (simp_all add: without_session_def)
next
  case (Call_Touch now sid t)
  then show ?thesis using assms by (cases rule: sqlite_touch_cases [of now sid t d]) (simp_all add: with_activity_def)
next
  case (Call_Replace now sid msgs)
  then show ?thesis using assms by (cases rule: sqlite_replace_cases [of now sid msgs d]) (simp_all add: left_open_def)
next
  case Call_Count
  then show ?thesis using assms by (simp add: sqlite_count_def sql_query_def case_prod_beta split: option.split)
next
  case Call_Max_Id
  then show ?thesis using assms by (cases rule: sqlite_max_id_cases [of d]) simp_all
qed

lemma open_transaction_run:
  "db_uncommitted d = Some saved \<Longrightarrow> db_uncommitted (snd (run sqlite_step calls d)) = Some saved"
proof (induction calls arbitrary: d)
  case (Cons c calls)
  then show ?case using open_transaction_stays [OF Cons.prems, of c] by (simp add: case_prod_beta)
qed simp


text \<open>A database whose first \<open>COMMIT\<close> finds it locked.\<close>

definition busy_db :: db where
  "busy_db = one_session\<lparr>db_faults := [None, None, None, None, Some ''database is locked (5) (SQLITE_BUSY)'']\<rparr>"


end
