(* ===== verification/Process.thy ===== *)
theory Process
  imports Gateway_Events "HOL-Library.Word"
begin

text \<open>
  \<open>internal/process/types.go\<close>: what the server asks of agent processes. A handle is a value \<open>'h\<close>
  (the pointer of the code); the interfaces \<open>AgentHandle\<close> and \<open>Manager\<close> are records of operations
  on a process world \<open>'p\<close> that holds the processes and their handles. Errors are their messages. \<open>Subscribe\<close> gives the
  subscription's id and the address of its channel; the closure it returns is \<open>ah_unsubscribe\<close>.
\<close>

record start_options =
  so_session_id :: string
  so_user_id :: string
  so_project_id :: string
  so_working_dir :: string

record prompt_request =
  pr_message :: string
  pr_streaming_behavior :: string

record agent_state =
  as_streaming :: bool
  as_model :: string
  as_thinking_level :: string

record chat_message =
  cm_role :: string
  cm_content :: string

text \<open>\<open>Value any\<close> is a JSON value, \<open>JNull\<close> for \<open>nil\<close>.\<close>

record ui_response =
  ui_id :: string
  ui_value :: json
  ui_confirmed :: "bool option"
  ui_cancelled :: bool

record ('h, 'p) agent_handle =
  ah_prompt :: "'h \<Rightarrow> prompt_request \<Rightarrow> 'p \<Rightarrow> (string + unit) \<times> 'p"
  ah_abort :: "'h \<Rightarrow> 'p \<Rightarrow> (string + unit) \<times> 'p"
  ah_get_state :: "'h \<Rightarrow> 'p \<Rightarrow> (string + agent_state) \<times> 'p"
  ah_get_messages :: "'h \<Rightarrow> 'p \<Rightarrow> (string + chat_message list) \<times> 'p"
  ah_get_messages_raw :: "'h \<Rightarrow> 'p \<Rightarrow> (string + json list option) \<times> 'p"
  ah_subscribe :: "'h \<Rightarrow> 'p \<Rightarrow> (64 word \<times> nat) \<times> 'p"
  ah_unsubscribe :: "'h \<Rightarrow> 64 word \<Rightarrow> 'p \<Rightarrow> 'p"
  ah_send_ui_response :: "'h \<Rightarrow> ui_response \<Rightarrow> 'p \<Rightarrow> (string + unit) \<times> 'p"
  ah_close :: "'h \<Rightarrow> 'p \<Rightarrow> (string + unit) \<times> 'p"

record ('h, 'p) process_manager = "('h, 'p) agent_handle" +
  pm_start :: "start_options \<Rightarrow> 'p \<Rightarrow> (string + 'h) \<times> 'p"
  pm_resolve_working_dir :: "start_options \<Rightarrow> 'p \<Rightarrow> string + string"

text \<open>The JSON encodings of \<open>State\<close> and \<open>Message\<close>.\<close>

definition agent_state_json :: "agent_state \<Rightarrow> json" where
  "agent_state_json s =
     JObj ((''is_streaming'', JBool (as_streaming s)) #
       omit_if (as_model s = []) ''model'' (JStr (as_model s)) @
       omit_if (as_thinking_level s = []) ''thinking_level'' (JStr (as_thinking_level s)))"

definition chat_message_json :: "chat_message \<Rightarrow> json" where
  "chat_message_json m = JObj [(''role'', JStr (cm_role m)), (''content'', JStr (cm_content m))]"

end
