(* ===== verification/Broker.thy ===== *)
theory Broker
  imports Process "HOL-Library.AList"
begin

text \<open>
  The event fan-out that \<open>noop_manager.go\<close> and \<open>rpc_manager.go\<close> both have: a counter, a map from
  subscription ids to channels, a non-blocking send to each of them. Channels live in a heap (a
  list, the address is the index) so that a channel that left the map can still be read by its
  subscriber and is known to be closed. An operation that would panic in Go (a send on a closed
  channel, a second close) is \<open>None\<close>. The map is an association list; its order stands for the
  iteration order, on which nothing here depends.
\<close>

record 'e chan =
  ch_buf :: "'e list"
  ch_closed :: bool

definition new_chan :: "'e chan" where
  "new_chan = \<lparr>ch_buf = [], ch_closed = False\<rparr>"

type_synonym 'e chan_heap = "'e chan list"

text \<open>\<open>select { case ch <- e: default: }\<close> on a channel of the given capacity.\<close>

definition try_send :: "nat \<Rightarrow> 'e \<Rightarrow> nat \<Rightarrow> 'e chan_heap \<Rightarrow> 'e chan_heap option" where
  "try_send cap e a h =
     (if length h \<le> a \<or> ch_closed (h ! a) then None
      else if length (ch_buf (h ! a)) < cap then Some (h[a := (h ! a)\<lparr>ch_buf := ch_buf (h ! a) @ [e]\<rparr>])
      else Some h)"

definition close_chan :: "nat \<Rightarrow> 'e chan_heap \<Rightarrow> 'e chan_heap option" where
  "close_chan a h =
     (if length h \<le> a \<or> ch_closed (h ! a) then None else Some (h[a := (h ! a)\<lparr>ch_closed := True\<rparr>]))"

text \<open>A receive: a value, the end of a closed and drained channel, or it blocks.\<close>

datatype 'e received = Value 'e | Closed | Blocks

definition recv :: "nat \<Rightarrow> 'e chan_heap \<Rightarrow> 'e received \<times> 'e chan_heap" where
  "recv a h =
     (case ch_buf (h ! a) of
        e # es \<Rightarrow> (Value e, h[a := (h ! a)\<lparr>ch_buf := es\<rparr>])
      | [] \<Rightarrow> (if ch_closed (h ! a) then Closed else Blocks, h))"

record 'e broker =
  bk_next :: "64 word"
  bk_subs :: "(64 word \<times> nat) list"
  bk_heap :: "'e chan_heap"

definition new_broker :: "'e broker" where
  "new_broker = \<lparr>bk_next = 0, bk_subs = [], bk_heap = []\<rparr>"

text \<open>\<open>Subscribe\<close>: the id and the address of the new channel.\<close>

definition bk_subscribe :: "'e broker \<Rightarrow> (64 word \<times> nat) \<times> 'e broker" where
  "bk_subscribe b =
     ((bk_next b + 1, length (bk_heap b)),
      b\<lparr>bk_next := bk_next b + 1,
        bk_subs := AList.update (bk_next b + 1) (length (bk_heap b)) (bk_subs b),
        bk_heap := bk_heap b @ [new_chan]\<rparr>)"

text \<open>The closure \<open>unsubscribe\<close>; called by the subscriber and by the goroutine behind the context,
  in any order and any number of times.\<close>

definition bk_unsubscribe :: "64 word \<Rightarrow> 'e broker \<Rightarrow> 'e broker option" where
  "bk_unsubscribe i b =
     (case map_of (bk_subs b) i of
        None \<Rightarrow> Some b
      | Some a \<Rightarrow>
          (case close_chan a (bk_heap b) of
             None \<Rightarrow> None
           | Some h \<Rightarrow> Some (b\<lparr>bk_subs := AList.delete i (bk_subs b), bk_heap := h\<rparr>)))"

fun send_each :: "nat \<Rightarrow> 'e \<Rightarrow> nat list \<Rightarrow> 'e chan_heap \<Rightarrow> 'e chan_heap option" where
  "send_each cap e [] h = Some h"
| "send_each cap e (a # as) h =
     (case try_send cap e a h of None \<Rightarrow> None | Some h' \<Rightarrow> send_each cap e as h')"

definition bk_broadcast :: "nat \<Rightarrow> 'e \<Rightarrow> 'e broker \<Rightarrow> 'e broker option" where
  "bk_broadcast cap e b =
     (case send_each cap e (map snd (bk_subs b)) (bk_heap b) of
        None \<Rightarrow> None | Some h \<Rightarrow> Some (b\<lparr>bk_heap := h\<rparr>))"

fun close_each :: "nat list \<Rightarrow> 'e chan_heap \<Rightarrow> 'e chan_heap option" where
  "close_each [] h = Some h"
| "close_each (a # as) h = (case close_chan a h of None \<Rightarrow> None | Some h' \<Rightarrow> close_each as h')"

definition bk_close_all :: "'e broker \<Rightarrow> 'e broker option" where
  "bk_close_all b =
     (case close_each (map snd (bk_subs b)) (bk_heap b) of
        None \<Rightarrow> None | Some h \<Rightarrow> Some (b\<lparr>bk_subs := [], bk_heap := h\<rparr>))"

definition bk_recv :: "nat \<Rightarrow> 'e broker \<Rightarrow> 'e received \<times> 'e broker" where
  "bk_recv a b = (case recv a (bk_heap b) of (r, h) \<Rightarrow> (r, b\<lparr>bk_heap := h\<rparr>))"

section \<open>Invariant\<close>

text \<open>The registered channels are distinct and exactly the open ones; no buffer exceeds the capacity.\<close>

definition broker_ok :: "nat \<Rightarrow> 'e broker \<Rightarrow> bool" where
  "broker_ok cap b \<longleftrightarrow>
     distinct (map fst (bk_subs b)) \<and> distinct (map snd (bk_subs b)) \<and>
     (\<forall>a. a \<in> set (map snd (bk_subs b)) \<longleftrightarrow> a < length (bk_heap b) \<and> \<not> ch_closed (bk_heap b ! a)) \<and>
     (\<forall>c\<in>set (bk_heap b). length (ch_buf c) \<le> cap)"

text \<open>The counter has not wrapped round: the next id is not in use.\<close>

definition next_unused :: "'e broker \<Rightarrow> bool" where
  "next_unused b \<longleftrightarrow> bk_next b + 1 \<notin> set (map fst (bk_subs b))"

lemma new_broker_ok [simp]: "broker_ok cap new_broker"
  by (simp add: broker_ok_def new_broker_def)

lemma update_absent: "k \<notin> set (map fst xs) \<Longrightarrow> AList.update k v xs = xs @ [(k, v)]"
  by (induction xs) auto

lemma subscribe_ok:
  assumes "broker_ok cap b" "next_unused b"
  shows "broker_ok cap (snd (bk_subscribe b))"
proof -
  let ?b = "snd (bk_subscribe b)"
  have subs: "bk_subs ?b = bk_subs b @ [(bk_next b + 1, length (bk_heap b))]"
    "bk_heap ?b = bk_heap b @ [new_chan]"
    using assms(2) by (simp_all add: bk_subscribe_def update_absent next_unused_def)
  have "length (bk_heap b) \<notin> set (map snd (bk_subs b))"
    using assms(1) by (simp add: broker_ok_def)
  then show ?thesis
    using assms unfolding broker_ok_def next_unused_def subs
    by (auto simp: nth_append new_chan_def less_Suc_eq)
qed

lemma subscribe_lookup:
  "map_of (bk_subs (snd (bk_subscribe b))) (fst (fst (bk_subscribe b))) = Some (snd (fst (bk_subscribe b)))"
  by (simp add: bk_subscribe_def update_conv')

lemma close_chan_open:
  "a < length h \<Longrightarrow> \<not> ch_closed (h ! a) \<Longrightarrow> close_chan a h = Some (h[a := (h ! a)\<lparr>ch_closed := True\<rparr>])"
  by (simp add: close_chan_def)

lemma open_registered:
  "broker_ok cap b \<Longrightarrow> (i, a) \<in> set (bk_subs b) \<Longrightarrow> a < length (bk_heap b) \<and> \<not> ch_closed (bk_heap b ! a)"
  unfolding broker_ok_def by force

lemma delete_snd:
  assumes "distinct (map snd xs)" "distinct (map fst xs)" "map_of xs i = Some a"
  shows "set (map snd (AList.delete i xs)) = set (map snd xs) - {a}"
proof -
  have ia: "(i, a) \<in> set xs" using assms(3) by (rule map_of_SomeD)
  have "k = i" if "(k, a) \<in> set xs" for k
    using assms(1) ia that by (metis distinct_map inj_onD prod.inject snd_conv)
  moreover have "v = a" if "(i, v) \<in> set xs" for v
    using assms(2,3) that by simp
  moreover have "set (map snd (AList.delete i xs)) = {v. \<exists>k. (k, v) \<in> set xs \<and> k \<noteq> i}"
    by (auto simp: AList.delete_eq image_iff)
  moreover have "set (map snd xs) = {v. \<exists>k. (k, v) \<in> set xs}" by force
  ultimately show ?thesis using ia by blast
qed

lemma unsubscribe_ok:
  assumes "broker_ok cap b"
  shows "\<exists>b'. bk_unsubscribe i b = Some b' \<and> broker_ok cap b' \<and> i \<notin> set (map fst (bk_subs b')) \<and>
    bk_next b' = bk_next b \<and> length (bk_heap b') = length (bk_heap b)"
proof (cases "map_of (bk_subs b) i")
  case None
  then have "i \<notin> set (map fst (bk_subs b))" by (simp add: map_of_eq_None_iff)
  with None show ?thesis using assms by (simp add: bk_unsubscribe_def)
next
  case (Some a)
  let ?h = "(bk_heap b)[a := (bk_heap b ! a)\<lparr>ch_closed := True\<rparr>]"
    and ?subs = "AList.delete i (bk_subs b)"
  have a: "a < length (bk_heap b)" "\<not> ch_closed (bk_heap b ! a)"
    using open_registered [OF assms map_of_SomeD [OF Some]] by simp_all
  have d: "distinct (map fst (bk_subs b))" "distinct (map snd (bk_subs b))"
    and reg: "\<And>a. a \<in> set (map snd (bk_subs b)) \<longleftrightarrow> a < length (bk_heap b) \<and> \<not> ch_closed (bk_heap b ! a)"
    and buf: "\<forall>c\<in>set (bk_heap b). length (ch_buf c) \<le> cap"
    using assms by (auto simp: broker_ok_def)
  have "distinct (map snd ?subs)" "distinct (map fst ?subs)"
    using d by (simp_all add: AList.delete_eq distinct_map_filter)
  moreover have "c \<in> set (map snd ?subs) \<longleftrightarrow> c < length ?h \<and> \<not> ch_closed (?h ! c)" for c
    using delete_snd [OF d(2,1) Some] reg [of c] a by (auto simp: nth_list_update)
  moreover have "\<forall>c\<in>set ?h. length (ch_buf c) \<le> cap"
    using buf a by (auto dest!: subsetD [OF set_update_subset_insert])
  ultimately have "broker_ok cap (b\<lparr>bk_subs := ?subs, bk_heap := ?h\<rparr>)"
    by (simp add: broker_ok_def)
  moreover have "i \<notin> set (map fst ?subs)" by (simp only: AList.delete_keys) simp
  ultimately show ?thesis
    using Some a by (simp add: bk_unsubscribe_def close_chan_open)
qed

text \<open>A second call of the closure finds nothing to do.\<close>

lemma unsubscribe_twice:
  assumes "broker_ok cap b" "bk_unsubscribe i b = Some b'"
  shows "bk_unsubscribe i b' = Some b'"
proof -
  have "i \<notin> set (map fst (bk_subs b'))"
    using unsubscribe_ok [OF assms(1), of i] assms(2) by auto
  then have "map_of (bk_subs b') i = None" by (simp add: map_of_eq_None_iff)
  then show ?thesis by (simp add: bk_unsubscribe_def)
qed

section \<open>Broadcast\<close>

definition put :: "nat \<Rightarrow> 'e \<Rightarrow> 'e chan \<Rightarrow> 'e chan" where
  "put cap e c = (if length (ch_buf c) < cap then c\<lparr>ch_buf := ch_buf c @ [e]\<rparr> else c)"

lemma put_simps [simp]: "ch_closed (put cap e c) = ch_closed c"
  by (simp add: put_def)

lemma put_bound: "length (ch_buf c) \<le> cap \<Longrightarrow> length (ch_buf (put cap e c)) \<le> cap"
  by (auto simp: put_def)

lemma try_send_open:
  "a < length h \<Longrightarrow> \<not> ch_closed (h ! a) \<Longrightarrow> try_send cap e a h = Some (h[a := put cap e (h ! a)])"
  by (simp add: try_send_def put_def)

lemma send_each_open:
  assumes "distinct as" "\<forall>a\<in>set as. a < length h \<and> \<not> ch_closed (h ! a)"
  shows "\<exists>h'. send_each cap e as h = Some h' \<and> length h' = length h \<and>
    (\<forall>i<length h. h' ! i = (if i \<in> set as then put cap e (h ! i) else h ! i))"
  using assms
proof (induction as arbitrary: h)
  case (Cons a as)
  let ?h = "h[a := put cap e (h ! a)]"
  have "try_send cap e a h = Some ?h" using Cons.prems by (simp add: try_send_open)
  moreover have "\<forall>x\<in>set as. x < length ?h \<and> \<not> ch_closed (?h ! x)"
    using Cons.prems by (auto simp: nth_list_update)
  then obtain h' where h': "send_each cap e as ?h = Some h'" "length h' = length ?h"
    "\<forall>i<length ?h. h' ! i = (if i \<in> set as then put cap e (?h ! i) else ?h ! i)"
    using Cons.IH [of ?h] Cons.prems(1) by auto
  moreover have "a < length h" using Cons.prems(2) by simp
  ultimately show ?case
    using Cons.prems(1) by (auto simp: nth_list_update)
qed simp

lemma broadcast_ok:
  assumes "broker_ok cap b"
  shows "\<exists>b'. bk_broadcast cap e b = Some b' \<and> broker_ok cap b' \<and> bk_subs b' = bk_subs b \<and>
    bk_next b' = bk_next b \<and> length (bk_heap b') = length (bk_heap b) \<and>
    (\<forall>a<length (bk_heap b). bk_heap b' ! a =
       (if a \<in> set (map snd (bk_subs b)) then put cap e (bk_heap b ! a) else bk_heap b ! a))"
proof -
  let ?as = "map snd (bk_subs b)"
  have "distinct ?as" "\<forall>a\<in>set ?as. a < length (bk_heap b) \<and> \<not> ch_closed (bk_heap b ! a)"
    using assms by (auto simp: broker_ok_def)
  from send_each_open [OF this, of cap e] obtain h where h: "send_each cap e ?as (bk_heap b) = Some h"
    "length h = length (bk_heap b)"
    "\<forall>i<length (bk_heap b). h ! i = (if i \<in> set ?as then put cap e (bk_heap b ! i) else bk_heap b ! i)"
    by blast
  have closed: "ch_closed (h ! i) = ch_closed (bk_heap b ! i)" if "i < length (bk_heap b)" for i
    using h(3) that by simp
  have "length (ch_buf (h ! i)) \<le> cap" if "i < length h" for i
    using h(2,3) that assms by (auto simp: broker_ok_def intro!: put_bound)
  then have "\<forall>c\<in>set h. length (ch_buf c) \<le> cap" by (auto simp: in_set_conv_nth)
  then have "broker_ok cap (b\<lparr>bk_heap := h\<rparr>)"
    using assms h(2) closed unfolding broker_ok_def by auto
  then show ?thesis using h by (simp add: bk_broadcast_def)
qed

section \<open>Closing\<close>

lemma close_each_open:
  assumes "distinct as" "\<forall>a\<in>set as. a < length h \<and> \<not> ch_closed (h ! a)"
  shows "\<exists>h'. close_each as h = Some h' \<and> length h' = length h \<and>
    (\<forall>i<length h. h' ! i = (if i \<in> set as then (h ! i)\<lparr>ch_closed := True\<rparr> else h ! i))"
  using assms
proof (induction as arbitrary: h)
  case (Cons a as)
  let ?h = "h[a := (h ! a)\<lparr>ch_closed := True\<rparr>]"
  have "close_chan a h = Some ?h" using Cons.prems by (simp add: close_chan_open)
  moreover have "\<forall>x\<in>set as. x < length ?h \<and> \<not> ch_closed (?h ! x)"
    using Cons.prems by (auto simp: nth_list_update)
  then obtain h' where h': "close_each as ?h = Some h'" "length h' = length ?h"
    "\<forall>i<length ?h. h' ! i = (if i \<in> set as then (?h ! i)\<lparr>ch_closed := True\<rparr> else ?h ! i)"
    using Cons.IH [of ?h] Cons.prems(1) by auto
  moreover have "a < length h" using Cons.prems(2) by simp
  ultimately show ?case
    using Cons.prems(1) by (auto simp: nth_list_update)
qed simp

lemma broker_bound: "broker_ok cap b \<Longrightarrow> i < length (bk_heap b) \<Longrightarrow> length (ch_buf (bk_heap b ! i)) \<le> cap"
  by (simp add: broker_ok_def)

lemma close_all_ok:
  assumes "broker_ok cap b"
  shows "\<exists>b'. bk_close_all b = Some b' \<and> broker_ok cap b' \<and> bk_subs b' = [] \<and> bk_next b' = bk_next b \<and>
    length (bk_heap b') = length (bk_heap b) \<and> (\<forall>c\<in>set (bk_heap b'). ch_closed c) \<and>
    (\<forall>i<length (bk_heap b). ch_buf (bk_heap b' ! i) = ch_buf (bk_heap b ! i))"
proof -
  let ?as = "map snd (bk_subs b)"
  have "distinct ?as" "\<forall>a\<in>set ?as. a < length (bk_heap b) \<and> \<not> ch_closed (bk_heap b ! a)"
    using assms by (auto simp: broker_ok_def)
  from close_each_open [OF this] obtain h where h: "close_each ?as (bk_heap b) = Some h"
    "length h = length (bk_heap b)"
    "\<forall>i<length (bk_heap b). h ! i = (if i \<in> set ?as then (bk_heap b ! i)\<lparr>ch_closed := True\<rparr> else bk_heap b ! i)"
    by blast
  have all: "ch_closed (h ! i) \<and> ch_buf (h ! i) = ch_buf (bk_heap b ! i)" if "i < length h" for i
    using h(2,3) that assms by (auto simp: broker_ok_def)
  then have closed: "\<forall>c\<in>set h. ch_closed c" by (auto simp: in_set_conv_nth)
  have "\<forall>c\<in>set h. length (ch_buf c) \<le> cap"
    using all h(2) broker_bound [OF assms] by (auto simp: in_set_conv_nth)
  then have "broker_ok cap (b\<lparr>bk_subs := [], bk_heap := h\<rparr>)"
    using all by (auto simp: broker_ok_def)
  then show ?thesis using h all closed by (simp add: bk_close_all_def)
qed

lemma recv_ok:
  assumes "broker_ok cap b"
  shows "broker_ok cap (snd (bk_recv a b)) \<and> bk_subs (snd (bk_recv a b)) = bk_subs b \<and>
    bk_next (snd (bk_recv a b)) = bk_next b \<and> length (bk_heap (snd (bk_recv a b))) = length (bk_heap b)"
proof (cases "ch_buf (bk_heap b ! a)")
  case Nil
  then show ?thesis using assms by (simp add: bk_recv_def recv_def)
next
  case (Cons e es)
  let ?h = "(bk_heap b)[a := (bk_heap b ! a)\<lparr>ch_buf := es\<rparr>]"
  have st: "snd (bk_recv a b) = b\<lparr>bk_heap := ?h\<rparr>" using Cons by (simp add: bk_recv_def recv_def)
  have "ch_closed (?h ! i) = ch_closed (bk_heap b ! i)" for i
    by (cases "i = a"; cases "a < length (bk_heap b)") (auto simp: list_update_beyond)
  moreover have "\<forall>c\<in>set ?h. length (ch_buf c) \<le> cap"
  proof (cases "a < length (bk_heap b)")
    case True
    then have "bk_heap b ! a \<in> set (bk_heap b)" by simp
    then have "length (e # es) \<le> cap" using assms Cons unfolding broker_ok_def by metis
    then show ?thesis
      using assms by (auto simp: broker_ok_def dest!: subsetD [OF set_update_subset_insert])
  next
    case False
    then show ?thesis using assms by (simp add: broker_ok_def list_update_beyond)
  qed
  ultimately show ?thesis using assms by (simp add: st broker_ok_def)
qed

section \<open>Delivery\<close>

text \<open>A subscriber that does not read gets the events of a sequence of broadcasts in order, up to the
  capacity; later ones are dropped for it alone.\<close>

fun broadcast_all :: "nat \<Rightarrow> 'e list \<Rightarrow> 'e broker \<Rightarrow> 'e broker option" where
  "broadcast_all cap [] b = Some b"
| "broadcast_all cap (e # es) b =
     (case bk_broadcast cap e b of None \<Rightarrow> None | Some b' \<Rightarrow> broadcast_all cap es b')"

lemma broadcast_all_ok:
  assumes "broker_ok cap b"
  shows "\<exists>b'. broadcast_all cap es b = Some b' \<and> broker_ok cap b' \<and> bk_subs b' = bk_subs b \<and>
    bk_next b' = bk_next b \<and> length (bk_heap b') = length (bk_heap b) \<and>
    (\<forall>a\<in>set (map snd (bk_subs b)). ch_buf (bk_heap b' ! a) = take cap (ch_buf (bk_heap b ! a) @ es))"
  using assms
proof (induction es arbitrary: b)
  case Nil
  have "take cap (ch_buf (bk_heap b ! a)) = ch_buf (bk_heap b ! a)" if "a \<in> set (map snd (bk_subs b))" for a
    using Nil that by (auto simp: broker_ok_def)
  then show ?case using Nil by simp
next
  case (Cons e es)
  obtain b1 where b1: "bk_broadcast cap e b = Some b1" "broker_ok cap b1" "bk_subs b1 = bk_subs b"
    "bk_next b1 = bk_next b" "length (bk_heap b1) = length (bk_heap b)"
    "\<forall>a<length (bk_heap b). bk_heap b1 ! a =
       (if a \<in> set (map snd (bk_subs b)) then put cap e (bk_heap b ! a) else bk_heap b ! a)"
    using broadcast_ok [OF Cons.prems] by blast
  obtain b2 where b2: "broadcast_all cap es b1 = Some b2" "broker_ok cap b2" "bk_subs b2 = bk_subs b1"
    "bk_next b2 = bk_next b1" "length (bk_heap b2) = length (bk_heap b1)"
    "\<forall>a\<in>set (map snd (bk_subs b1)). ch_buf (bk_heap b2 ! a) = take cap (ch_buf (bk_heap b1 ! a) @ es)"
    using Cons.IH [OF b1(2)] by blast
  have "ch_buf (bk_heap b2 ! a) = take cap (ch_buf (bk_heap b ! a) @ e # es)"
    if a: "a \<in> set (map snd (bk_subs b))" for a
  proof -
    have "a < length (bk_heap b)" using a Cons.prems by (simp add: broker_ok_def)
    moreover from this have "length (ch_buf (bk_heap b ! a)) \<le> cap"
      using Cons.prems by (simp add: broker_ok_def)
    moreover have "ch_buf (bk_heap b2 ! a) = take cap (ch_buf (bk_heap b1 ! a) @ es)"
      using bspec [OF b2(6), of a] a b1(3) by (simp del: set_map)
    moreover have "bk_heap b1 ! a = put cap e (bk_heap b ! a)"
      using a b1(6) calculation(1) by (simp del: set_map)
    ultimately show ?thesis by (auto simp: put_def take_Cons')
  qed
  then show ?case using b1 b2 by auto
qed

end
