(* ===== verification/Noop_Manager.thy ===== *)
theory Noop_Manager
  imports Broker Refinement
begin

text \<open>
  \<open>internal/process/noop_manager.go\<close>: the in-memory process manager. The world is the list of the
  handles made so far, a handle is its index. \<open>NewEvent\<close> reads the clock, so the operations that
  broadcast are given the formatted reading. The operations on one handle are options, \<open>None\<close> for
  a panic; they are proved not to panic in any order.
\<close>

record noop_handle =
  nh_messages :: "chat_message list"
  nh_state :: agent_state
  nh_broker :: "event broker"

definition noop_capacity :: nat where "noop_capacity = 32"

definition new_noop_handle :: noop_handle where
  "new_noop_handle =
     \<lparr>nh_messages = [], nh_state = \<lparr>as_streaming = False, as_model = [], as_thinking_level = []\<rparr>,
      nh_broker = new_broker\<rparr>"

section \<open>One handle\<close>

definition noop_events :: "string \<Rightarrow> event list" where
  "noop_events now =
     [new_event now ''agent.run.start'' RunStart,
      new_event now ''agent.text.delta'' (TextDelta 0 ''[scaffold] prompt accepted'' None None),
      new_event now ''agent.run.end'' (RunEnd None)]"

definition noop_broadcast :: "event \<Rightarrow> noop_handle \<Rightarrow> noop_handle option" where
  "noop_broadcast e h =
     (case bk_broadcast noop_capacity e (nh_broker h) of
        None \<Rightarrow> None | Some b \<Rightarrow> Some (h\<lparr>nh_broker := b\<rparr>))"

fun noop_broadcasts :: "event list \<Rightarrow> noop_handle \<Rightarrow> noop_handle option" where
  "noop_broadcasts [] h = Some h"
| "noop_broadcasts (e # es) h =
     (case noop_broadcast e h of None \<Rightarrow> None | Some h' \<Rightarrow> noop_broadcasts es h')"

definition noop_prompt :: "string \<Rightarrow> prompt_request \<Rightarrow> noop_handle \<Rightarrow> noop_handle option" where
  "noop_prompt now req h =
     noop_broadcasts (noop_events now)
       (h\<lparr>nh_messages := nh_messages h @
            [\<lparr>cm_role = ''user'', cm_content = pr_message req\<rparr>,
             \<lparr>cm_role = ''assistant'', cm_content = ''[scaffold] prompt accepted: '' @ pr_message req\<rparr>],
          nh_state := (nh_state h)\<lparr>as_streaming := False\<rparr>\<rparr>)"

definition noop_abort :: "noop_handle \<Rightarrow> noop_handle" where
  "noop_abort h = h\<lparr>nh_state := (nh_state h)\<lparr>as_streaming := False\<rparr>\<rparr>"

definition noop_get_state :: "noop_handle \<Rightarrow> agent_state" where
  "noop_get_state h = nh_state h"

definition noop_get_messages :: "noop_handle \<Rightarrow> chat_message list" where
  "noop_get_messages h = nh_messages h"

definition noop_get_messages_raw :: "noop_handle \<Rightarrow> json list" where
  "noop_get_messages_raw h =
     map (\<lambda>m. json_map [(''role'', JStr (cm_role m)),
        (''content'', JArr [json_map [(''type'', JStr ''text''), (''text'', JStr (cm_content m))]])])
       (nh_messages h)"

definition noop_subscribe :: "noop_handle \<Rightarrow> (64 word \<times> nat) \<times> noop_handle" where
  "noop_subscribe h = (case bk_subscribe (nh_broker h) of (sub, b) \<Rightarrow> (sub, h\<lparr>nh_broker := b\<rparr>))"

definition noop_unsubscribe :: "64 word \<Rightarrow> noop_handle \<Rightarrow> noop_handle option" where
  "noop_unsubscribe i h =
     (case bk_unsubscribe i (nh_broker h) of None \<Rightarrow> None | Some b \<Rightarrow> Some (h\<lparr>nh_broker := b\<rparr>))"

definition noop_close :: "noop_handle \<Rightarrow> noop_handle option" where
  "noop_close h = (case bk_close_all (nh_broker h) of None \<Rightarrow> None | Some b \<Rightarrow> Some (h\<lparr>nh_broker := b\<rparr>))"

definition noop_recv :: "nat \<Rightarrow> noop_handle \<Rightarrow> event received \<times> noop_handle" where
  "noop_recv a h = (case bk_recv a (nh_broker h) of (r, b) \<Rightarrow> (r, h\<lparr>nh_broker := b\<rparr>))"

section \<open>The manager\<close>

type_synonym noop_world = "noop_handle list"

definition noop_start :: "start_options \<Rightarrow> noop_world \<Rightarrow> (string + nat) \<times> noop_world" where
  "noop_start opts p = (Inr (length p), p @ [new_noop_handle])"

definition noop_resolve_working_dir :: "start_options \<Rightarrow> noop_world \<Rightarrow> string + string" where
  "noop_resolve_working_dir opts p = Inr (so_working_dir opts)"

definition on_handle :: "nat \<Rightarrow> (noop_handle \<Rightarrow> noop_handle option) \<Rightarrow> noop_world \<Rightarrow> (string + unit) \<times> noop_world" where
  "on_handle i f p =
     (if length p \<le> i then (Inl ''panic'', p)
      else (case f (p ! i) of None \<Rightarrow> (Inl ''panic'', p) | Some h \<Rightarrow> (Inr (), p[i := h])))"

definition noop_manager :: "string \<Rightarrow> (nat, noop_world) process_manager" where
  "noop_manager now =
     \<lparr>ah_prompt = (\<lambda>i req. on_handle i (noop_prompt now req)),
      ah_abort = (\<lambda>i. on_handle i (\<lambda>h. Some (noop_abort h))),
      ah_get_state = (\<lambda>i p. (Inr (noop_get_state (p ! i)), p)),
      ah_get_messages = (\<lambda>i p. (Inr (noop_get_messages (p ! i)), p)),
      ah_get_messages_raw = (\<lambda>i p. (Inr (Some (noop_get_messages_raw (p ! i))), p)),
      ah_subscribe = (\<lambda>i p. case noop_subscribe (p ! i) of (sub, h) \<Rightarrow> (sub, p[i := h])),
      ah_unsubscribe = (\<lambda>i s p. snd (on_handle i (noop_unsubscribe s) p)),
      ah_send_ui_response = (\<lambda>i r p. (Inr (), p)),
      ah_close = (\<lambda>i. on_handle i noop_close),
      pm_start = noop_start,
      pm_resolve_working_dir = noop_resolve_working_dir\<rparr>"

section \<open>Any sequence of operations on a handle\<close>

datatype noop_op =
    Noop_Prompt string prompt_request
  | Noop_Abort
  | Noop_Subscribe
  | Noop_Unsubscribe "64 word"
  | Noop_Recv nat
  | Noop_Close

text \<open>The state \<open>None\<close> is a panic; it stays one. The output says whether the operation panicked.\<close>

fun noop_apply :: "noop_op \<Rightarrow> noop_handle \<Rightarrow> noop_handle option" where
  "noop_apply (Noop_Prompt now req) h = noop_prompt now req h"
| "noop_apply Noop_Abort h = Some (noop_abort h)"
| "noop_apply Noop_Subscribe h = Some (snd (noop_subscribe h))"
| "noop_apply (Noop_Unsubscribe i) h = noop_unsubscribe i h"
| "noop_apply (Noop_Recv a) h = Some (snd (noop_recv a h))"
| "noop_apply Noop_Close h = noop_close h"

definition noop_step :: "noop_op \<Rightarrow> noop_handle option \<Rightarrow> bool \<times> noop_handle option" where
  "noop_step e s = (case s of None \<Rightarrow> (True, None) | Some h \<Rightarrow> (noop_apply e h = None, noop_apply e h))"

definition noop_ok :: "noop_handle option \<Rightarrow> bool" where
  "noop_ok s \<longleftrightarrow> (\<exists>h. s = Some h \<and> broker_ok noop_capacity (nh_broker h))"

text \<open>Subscription ids are not reused while in use: fewer than \<open>2 ^ 64\<close> subscriptions.\<close>

definition noop_pre :: "noop_op \<Rightarrow> noop_handle option \<Rightarrow> bool" where
  "noop_pre e s \<longleftrightarrow> (case s of None \<Rightarrow> True | Some h \<Rightarrow> next_unused (nh_broker h))"

section \<open>Facts\<close>

lemma noop_broadcasts_all:
  "noop_broadcasts es h =
     (case broadcast_all noop_capacity es (nh_broker h) of None \<Rightarrow> None | Some b \<Rightarrow> Some (h\<lparr>nh_broker := b\<rparr>))"
proof (induction es arbitrary: h)
  case (Cons e es)
  then show ?case by (auto simp: noop_broadcast_def split: option.split)
qed simp

lemma noop_prompt_ok:
  assumes "broker_ok noop_capacity (nh_broker h)"
  shows "\<exists>h'. noop_prompt now req h = Some h' \<and> broker_ok noop_capacity (nh_broker h') \<and>
    bk_subs (nh_broker h') = bk_subs (nh_broker h) \<and> bk_next (nh_broker h') = bk_next (nh_broker h) \<and>
    nh_messages h' = nh_messages h @
      [\<lparr>cm_role = ''user'', cm_content = pr_message req\<rparr>,
       \<lparr>cm_role = ''assistant'', cm_content = ''[scaffold] prompt accepted: '' @ pr_message req\<rparr>] \<and>
    (\<forall>a\<in>set (map snd (bk_subs (nh_broker h))). ch_buf (bk_heap (nh_broker h') ! a) =
       take noop_capacity (ch_buf (bk_heap (nh_broker h) ! a) @ noop_events now))"
proof -
  obtain b where "broadcast_all noop_capacity (noop_events now) (nh_broker h) = Some b"
    "broker_ok noop_capacity b" "bk_subs b = bk_subs (nh_broker h)" "bk_next b = bk_next (nh_broker h)"
    "\<forall>a\<in>set (map snd (bk_subs (nh_broker h))). ch_buf (bk_heap b ! a) =
       take noop_capacity (ch_buf (bk_heap (nh_broker h) ! a) @ noop_events now)"
    using broadcast_all_ok [OF assms] by blast
  then show ?thesis by (simp add: noop_prompt_def noop_broadcasts_all)
qed

lemma noop_apply_ok:
  assumes "broker_ok noop_capacity (nh_broker h)" "next_unused (nh_broker h)"
  shows "\<exists>h'. noop_apply e h = Some h' \<and> broker_ok noop_capacity (nh_broker h')"
proof (cases e)
  case (Noop_Prompt now req)
  then show ?thesis using noop_prompt_ok [OF assms(1)] by fastforce
next
  case Noop_Abort
  then show ?thesis using assms by (simp add: noop_abort_def)
next
  case Noop_Subscribe
  then show ?thesis using subscribe_ok [OF assms] by (simp add: noop_subscribe_def case_prod_beta)
next
  case (Noop_Unsubscribe i)
  then show ?thesis using unsubscribe_ok [OF assms(1), of i] by (auto simp: noop_unsubscribe_def)
next
  case (Noop_Recv a)
  then show ?thesis using recv_ok [OF assms(1), of a] by (simp add: noop_recv_def case_prod_beta)
next
  case Noop_Close
  then show ?thesis using close_all_ok [OF assms(1)] by (auto simp: noop_close_def)
qed

interpretation noop_inv: step_invariant noop_step noop_ok noop_pre
proof
  fix s e
  assume "noop_ok s" "noop_pre e s"
  then obtain h where h: "s = Some h" "broker_ok noop_capacity (nh_broker h)" "next_unused (nh_broker h)"
    by (auto simp: noop_ok_def noop_pre_def)
  then show "noop_ok (snd (noop_step e s))"
    using noop_apply_ok [OF h(2,3), of e] by (simp add: noop_step_def noop_ok_def)
qed

text \<open>A handle never panics: over any sequence of prompts, aborts, subscriptions, receives, closes
  and unsubscriptions (of any id, any number of times), no send hits a closed channel and no
  channel is closed twice; the registered channels stay exactly the open ones.\<close>

theorem noop_never_panics:
  assumes "enabled noop_pre noop_step es (Some new_noop_handle)"
  shows "\<exists>h. snd (run noop_step es (Some new_noop_handle)) = Some h \<and> broker_ok noop_capacity (nh_broker h)"
proof -
  have "noop_ok (Some new_noop_handle)" by (simp add: noop_ok_def new_noop_handle_def)
  from noop_inv.run_inv [OF this assms] show ?thesis by (simp add: noop_ok_def)
qed

theorem noop_never_panics_witness:
  "\<exists>h. snd (run noop_step [Noop_Subscribe, Noop_Close, Noop_Unsubscribe 1, Noop_Unsubscribe 1,
     Noop_Prompt [] \<lparr>pr_message = ''hi'', pr_streaming_behavior = []\<rparr>] (Some new_noop_handle)) = Some h \<and>
   broker_ok noop_capacity (nh_broker h)"
proof (rule noop_never_panics)
  show "enabled noop_pre noop_step [Noop_Subscribe, Noop_Close, Noop_Unsubscribe 1, Noop_Unsubscribe 1,
     Noop_Prompt [] \<lparr>pr_message = ''hi'', pr_streaming_behavior = []\<rparr>] (Some new_noop_handle)"
    by code_simp
qed

text \<open>A prompt is recorded with its answer, and every subscriber with room for them gets the run's
  three events, start, text and end, in that order behind what it has not read yet.\<close>

theorem noop_prompt_streams:
  assumes "broker_ok noop_capacity (nh_broker h)" "(i, a) \<in> set (bk_subs (nh_broker h))"
    and "length (ch_buf (bk_heap (nh_broker h) ! a)) + 3 \<le> noop_capacity"
  shows "\<exists>h'. noop_prompt now req h = Some h' \<and>
    ch_buf (bk_heap (nh_broker h') ! a) = ch_buf (bk_heap (nh_broker h) ! a) @ noop_events now \<and>
    map cm_content (noop_get_messages h') = map cm_content (noop_get_messages h) @
      [pr_message req, ''[scaffold] prompt accepted: '' @ pr_message req]"
proof -
  obtain h' where h': "noop_prompt now req h = Some h'"
    "nh_messages h' = nh_messages h @
      [\<lparr>cm_role = ''user'', cm_content = pr_message req\<rparr>,
       \<lparr>cm_role = ''assistant'', cm_content = ''[scaffold] prompt accepted: '' @ pr_message req\<rparr>]"
    "\<forall>a\<in>set (map snd (bk_subs (nh_broker h))). ch_buf (bk_heap (nh_broker h') ! a) =
       take noop_capacity (ch_buf (bk_heap (nh_broker h) ! a) @ noop_events now)"
    using noop_prompt_ok [OF assms(1)] by blast
  have "a \<in> set (map snd (bk_subs (nh_broker h)))" using assms(2) by force
  with h'(3) have "ch_buf (bk_heap (nh_broker h') ! a) =
      take noop_capacity (ch_buf (bk_heap (nh_broker h) ! a) @ noop_events now)"
    by blast
  moreover have "length (noop_events now) = 3" by (simp add: noop_events_def)
  ultimately show ?thesis using h'(1,2) assms(3) by (simp add: noop_get_messages_def)
qed

theorem noop_prompt_streams_witness:
  "\<exists>h'. noop_prompt ''t'' \<lparr>pr_message = ''hi'', pr_streaming_behavior = []\<rparr> (snd (noop_subscribe new_noop_handle)) = Some h' \<and>
     ch_buf (bk_heap (nh_broker h') ! 0) = noop_events ''t''"
proof -
  let ?h = "snd (noop_subscribe new_noop_handle)"
  have "nh_broker ?h = snd (bk_subscribe new_broker)"
    by (simp add: noop_subscribe_def new_noop_handle_def case_prod_beta)
  moreover have "broker_ok noop_capacity (snd (bk_subscribe (new_broker :: event broker)))"
    by (rule subscribe_ok [OF new_broker_ok]) (simp add: next_unused_def new_broker_def)
  ultimately have "broker_ok noop_capacity (nh_broker ?h)" by simp
  moreover have "(1, 0) \<in> set (bk_subs (nh_broker ?h))"
    "length (ch_buf (bk_heap (nh_broker ?h) ! 0)) + 3 \<le> noop_capacity"
    "ch_buf (bk_heap (nh_broker ?h) ! 0) = []"
    by code_simp+
  ultimately show ?thesis using noop_prompt_streams [of ?h 1 0] by fastforce
qed

end
