(* ===== verification/Rpc_Args.thy ===== *)
theory Rpc_Args
  imports Process Filepath
begin

text \<open>
  \<open>internal/process/rpc_manager.go\<close>, the manager: which directory an agent process runs in, where
  its session directory is, with which arguments it is started. The file system and the operating
  system are the parameter \<open>os_env\<close>: the current directory, \<open>Stat\<close> (is it a directory),
  \<open>MkdirAll\<close>, \<open>ReadDir\<close> and the start of a process with its pipes, each with its error text.
\<close>

record launch =
  la_bin :: string
  la_args :: "string list"
  la_dir :: string
  la_session_dir :: string

record 'h os_env =
  os_getwd :: "string + string"
  os_stat_is_dir :: "string \<Rightarrow> string + bool"
  os_mkdir_all :: "string \<Rightarrow> string option"
  os_read_dir :: "string \<Rightarrow> (string \<times> bool) list option"
  os_spawn :: "launch \<Rightarrow> string + 'h"

record rpc_manager =
  rm_bin_path :: string
  rm_base_args :: "string list"
  rm_sessions_base_dir :: string
  rm_default_working_dir :: string

definition new_rpc_manager :: "string \<Rightarrow> string list \<Rightarrow> string \<Rightarrow> string \<Rightarrow> rpc_manager" where
  "new_rpc_manager bin args base dflt =
     \<lparr>rm_bin_path = bin, rm_base_args = args, rm_sessions_base_dir = base,
      rm_default_working_dir = trim_space dflt\<rparr>"

section \<open>Directories\<close>

text \<open>\<open>filepath.Abs\<close>: only a relative path needs the current directory.\<close>

definition os_abs :: "'h os_env \<Rightarrow> string \<Rightarrow> string + string" where
  "os_abs env p =
     (if is_abs p then Inr (clean_path p)
      else (case os_getwd env of Inl e \<Rightarrow> Inl e | Inr wd \<Rightarrow> Inr (join_path [wd, p])))"

definition resolve_working_dir :: "'h os_env \<Rightarrow> rpc_manager \<Rightarrow> start_options \<Rightarrow> string + string" where
  "resolve_working_dir env m opts =
     (let candidate =
        (if rm_default_working_dir m \<noteq> [] then rm_default_working_dir m
         else if trim_space (so_working_dir opts) \<noteq> [] then trim_space (so_working_dir opts)
         else [])
      in if candidate = [] then Inr []
         else
           (case os_abs env candidate of
              Inl e \<Rightarrow> Inl (''resolve working dir: '' @ e)
            | Inr p \<Rightarrow>
                (case os_stat_is_dir env p of
                   Inl e \<Rightarrow> Inl (''stat working dir: '' @ e)
                 | Inr is_dir \<Rightarrow>
                     if \<not> is_dir then Inl (''working dir is not a directory: '' @ p) else Inr p)))"

definition slug_char :: "char \<Rightarrow> char" where
  "slug_char c = (if c = CHR ''/'' \<or> c = CHR 0x5C \<or> c = CHR '':'' then CHR ''-'' else c)"

definition encode_cwd_slug :: "string \<Rightarrow> string" where
  "encode_cwd_slug wd =
     (if wd = [] then ''__default__''
      else ''--'' @ map slug_char (trim_left wd [CHR ''/'', CHR 0x5C]) @ ''--'')"

definition session_dir_path :: "rpc_manager \<Rightarrow> start_options \<Rightarrow> string \<Rightarrow> string" where
  "session_dir_path m opts wd =
     join_path [rm_sessions_base_dir m, so_user_id opts, encode_cwd_slug wd, so_session_id opts]"

section \<open>Arguments\<close>

text \<open>The loop of \<open>withArgValue\<close>, from the current argument on.\<close>

fun with_arg_value :: "string list \<Rightarrow> string \<Rightarrow> string \<Rightarrow> string list" where
  "with_arg_value [] key value = [key, value]"
| "with_arg_value (a # as) key value =
     (if a \<noteq> key then a # with_arg_value as key value
      else (case as of b # bs \<Rightarrow> a # value # bs | [] \<Rightarrow> [a, value]))"

definition ensure_flag :: "string list \<Rightarrow> string \<Rightarrow> string list" where
  "ensure_flag args flag = (if flag \<in> set args then args else args @ [flag])"

fun transcript_entry :: "(string \<times> bool) list \<Rightarrow> bool" where
  "transcript_entry [] = False"
| "transcript_entry ((name, is_dir) # es) =
     (if is_dir then transcript_entry es
      else if has_suffix name ''.jsonl'' then True else transcript_entry es)"

definition session_dir_has_transcript :: "'h os_env \<Rightarrow> string \<Rightarrow> bool" where
  "session_dir_has_transcript env dir =
     (case os_read_dir env dir of None \<Rightarrow> False | Some es \<Rightarrow> transcript_entry es)"

section \<open>Start\<close>

text \<open>Everything up to \<open>exec.Command\<close>, then the start of the process.\<close>

definition plan_launch :: "'h os_env \<Rightarrow> rpc_manager \<Rightarrow> start_options \<Rightarrow> string + launch" where
  "plan_launch env m opts =
     (case resolve_working_dir env m opts of
        Inl e \<Rightarrow> Inl e
      | Inr wd \<Rightarrow>
          (case os_mkdir_all env (session_dir_path m opts wd) of
             Some e \<Rightarrow> Inl (''create session dir: '' @ e)
           | None \<Rightarrow>
               (case os_abs env (session_dir_path m opts wd) of
                  Inl e \<Rightarrow> Inl (''resolve session dir: '' @ e)
                | Inr dir \<Rightarrow>
                    (let args = with_arg_value (rm_base_args m) ''--session-dir'' dir in
                       Inr \<lparr>la_bin = rm_bin_path m,
                            la_args = (if session_dir_has_transcript env dir
                                       then ensure_flag args ''--continue'' else args),
                            la_dir = (if wd = [] then dir else wd),
                            la_session_dir = dir\<rparr>))))"

definition rpc_start :: "'h os_env \<Rightarrow> rpc_manager \<Rightarrow> start_options \<Rightarrow> string + 'h" where
  "rpc_start env m opts =
     (case plan_launch env m opts of Inl e \<Rightarrow> Inl e | Inr la \<Rightarrow> os_spawn env la)"

section \<open>Facts\<close>

lemma slug_char_sep: "slug_char c \<noteq> CHR ''/''" "slug_char c \<noteq> CHR 0x5C" "slug_char c \<noteq> CHR '':''"
  by (simp_all add: slug_char_def)

lemma slug_normal: "normal_comp (encode_cwd_slug wd)"
proof -
  have "CHR ''/'' \<notin> set (map slug_char s)" for s by (induction s) (auto simp: slug_char_def)
  then show ?thesis by (simp add: normal_comp_def encode_cwd_slug_def)
qed

lemma with_arg_value_set: "key \<in> set (with_arg_value args key value) \<and> value \<in> set (with_arg_value args key value)"
  by (induction args) (auto split: list.split)

lemma with_arg_value_absent: "key \<notin> set args \<Longrightarrow> with_arg_value args key value = args @ [key, value]"
  by (induction args) auto

lemma with_arg_value_present:
  "key \<notin> set us \<Longrightarrow> with_arg_value (us @ key # b # vs) key value = us @ key # value # vs"
  "key \<notin> set us \<Longrightarrow> with_arg_value (us @ [key]) key value = us @ [key, value]"
  by (induction us) auto

lemma with_arg_value_shape:
  "\<exists>us vs. key \<notin> set us \<and> with_arg_value args key value = us @ key # value # vs \<and>
     (args = us \<and> vs = [] \<or> args = us @ [key] \<and> vs = [] \<or> (\<exists>b. args = us @ key # b # vs))"
proof (cases "key \<in> set args")
  case False
  then show ?thesis by (intro exI [of _ args] exI [of _ "[]"]) (simp add: with_arg_value_absent)
next
  case True
  then obtain us vs where args: "args = us @ key # vs" "key \<notin> set us" by (meson split_list_first)
  show ?thesis
  proof (cases vs)
    case Nil
    then show ?thesis
      using args by (intro exI [of _ us] exI [of _ "[]"]) (simp add: with_arg_value_present)
  next
    case (Cons b bs)
    then show ?thesis
      using args by (intro exI [of _ us] exI [of _ bs]) (simp add: with_arg_value_present)
  qed
qed

lemma transcript_entry_iff:
  "transcript_entry es \<longleftrightarrow> (\<exists>name. (name, False) \<in> set es \<and> has_suffix name ''.jsonl'')"
proof (induction es)
  case (Cons e es)
  then show ?case by (cases e; cases "snd e") auto
qed simp

lemma plan_launch_Inr:
  assumes "plan_launch env m opts = Inr la"
  obtains wd where "resolve_working_dir env m opts = Inr wd"
    "os_abs env (session_dir_path m opts wd) = Inr (la_session_dir la)"
    "la_dir la = (if wd = [] then la_session_dir la else wd)"
    "la_args la =
       (if session_dir_has_transcript env (la_session_dir la)
        then ensure_flag (with_arg_value (rm_base_args m) ''--session-dir'' (la_session_dir la)) ''--continue''
        else with_arg_value (rm_base_args m) ''--session-dir'' (la_session_dir la))"
  using assms
  by (auto simp: plan_launch_def Let_def split: sum.splits option.splits)

section \<open>Properties\<close>

text \<open>C31: The session directory is where it should be when the user id and the session id are plain
  names: \<open>base/user/slug/session\<close> with the base made absolute, so inside the base directory.
  The process is started with \<open>--session-dir\<close> followed by exactly that directory.\<close>

theorem session_dir_contained:
  assumes "plan_launch env m opts = Inr la" "os_getwd env = Inr (root_path ws)" "list_all normal_comp ws"
    and "rm_sessions_base_dir m \<noteq> []" "normal_comp (so_user_id opts)" "normal_comp (so_session_id opts)"
  shows "\<exists>bs slug us vs. os_abs env (rm_sessions_base_dir m) = Inr (root_path bs) \<and>
    la_session_dir la = root_path (bs @ [so_user_id opts, slug, so_session_id opts]) \<and>
    (bs \<noteq> [] \<longrightarrow> inside (root_path bs) (la_session_dir la)) \<and>
    la_args la = us @ ''--session-dir'' # la_session_dir la # vs"
proof -
  obtain wd where wd: "os_abs env (session_dir_path m opts wd) = Inr (la_session_dir la)"
    "la_args la =
       (if session_dir_has_transcript env (la_session_dir la)
        then ensure_flag (with_arg_value (rm_base_args m) ''--session-dir'' (la_session_dir la)) ''--continue''
        else with_arg_value (rm_base_args m) ''--session-dir'' (la_session_dir la))"
    using plan_launch_Inr [OF assms(1)] by metis
  let ?es = "[so_user_id opts, encode_cwd_slug wd, so_session_id opts]"
  have abs: "os_abs env p = Inr (abs_path (root_path ws) p)" for p
    using assms(2) by (simp add: os_abs_def abs_path_def)
  have "list_all normal_comp ?es" using assms(5,6) slug_normal by simp
  from abs_join_normal [OF assms(3,4) this] obtain bs where
    bs: "abs_path (root_path ws) (rm_sessions_base_dir m) = root_path bs"
    "abs_path (root_path ws) (join_path (rm_sessions_base_dir m # ?es)) = root_path (bs @ ?es)"
    by blast
  have dir: "la_session_dir la = root_path (bs @ ?es)"
    using wd(1) bs(2) abs by (simp add: session_dir_path_def del: join_path.simps)
  obtain us vs where "with_arg_value (rm_base_args m) ''--session-dir'' (la_session_dir la) =
      us @ ''--session-dir'' # la_session_dir la # vs"
    using with_arg_value_shape by metis
  then have "\<exists>us vs. la_args la = us @ ''--session-dir'' # la_session_dir la # vs"
    using wd(2) by (auto simp: ensure_flag_def)
  then show ?thesis
    using bs(1) dir abs inside_root_path [of bs ?es] by fastforce
qed

definition plain_env :: "launch os_env" where
  "plain_env = \<lparr>os_getwd = Inr ''/srv'', os_stat_is_dir = (\<lambda>p. Inr True), os_mkdir_all = (\<lambda>p. None),
     os_read_dir = (\<lambda>p. Some []), os_spawn = Inr\<rparr>"

definition plain_opts :: "string \<Rightarrow> start_options" where
  "plain_opts user = \<lparr>so_session_id = ''s_000001'', so_user_id = user, so_project_id = [], so_working_dir = ''/w/x''\<rparr>"

definition default_rpc_manager :: rpc_manager where
  "default_rpc_manager = new_rpc_manager ''pi'' [''--mode'', ''rpc''] ''./.zoea-sessions'' []"

theorem session_dir_contained_witness:
  "inside ''/srv/.zoea-sessions'' ''/srv/.zoea-sessions/u1/--w-x--/s_000001''"
proof -
  define r where "r = plan_launch plain_env default_rpc_manager (plain_opts ''u1'')"
  have "\<not> isl r" "la_session_dir (projr r) = ''/srv/.zoea-sessions/u1/--w-x--/s_000001''"
    unfolding r_def by code_simp+
  then obtain la where la: "plan_launch plain_env default_rpc_manager (plain_opts ''u1'') = Inr la"
    "la_session_dir la = ''/srv/.zoea-sessions/u1/--w-x--/s_000001''"
    unfolding r_def by (metis sum.collapse(2))
  have "os_getwd plain_env = Inr (root_path [''srv''])" "list_all normal_comp [''srv'']"
    "rm_sessions_base_dir default_rpc_manager \<noteq> []" "normal_comp (so_user_id (plain_opts ''u1''))"
    "normal_comp (so_session_id (plain_opts ''u1''))"
    by code_simp+
  from session_dir_contained [OF la(1) this] obtain bs where
    bs: "os_abs plain_env (rm_sessions_base_dir default_rpc_manager) = Inr (root_path bs)"
    "bs \<noteq> [] \<longrightarrow> inside (root_path bs) (la_session_dir la)"
    by blast
  moreover have "os_abs plain_env (rm_sessions_base_dir default_rpc_manager) = Inr ''/srv/.zoea-sessions''"
    by code_simp
  ultimately have "root_path bs = ''/srv/.zoea-sessions''" by simp
  moreover from this have "bs \<noteq> []" by (auto simp: root_path_def)
  ultimately show ?thesis using bs(2) la(2) by simp
qed

text \<open>Nothing checks that the user id is a plain name: one that starts with enough \<open>..\<close> components
  (the API takes any that is not blank) puts the session directory wherever it says, outside the
  base directory, and the server creates it there.\<close>

theorem session_dir_escapes:
  assumes "plan_launch env m opts = Inr la" "rm_sessions_base_dir m = root_path bs"
    and "list_all normal_comp bs" "list_all normal_comp ts" "ts \<noteq> []" "normal_comp (so_session_id opts)"
    and "so_user_id opts = join ''/'' (replicate (length bs) ''..'' @ ts)"
  shows "\<exists>slug. la_session_dir la = root_path (ts @ [slug, so_session_id opts])"
proof -
  obtain wd where wd: "os_abs env (session_dir_path m opts wd) = Inr (la_session_dir la)"
    using plan_launch_Inr [OF assms(1)] by metis
  let ?slug = "encode_cwd_slug wd"
  have split: "split_on (CHR ''/'') (so_user_id opts) = replicate (length bs) ''..'' @ ts"
    unfolding assms(7) using assms(4,5) by (intro split_on_join) (auto simp: normal_comp_def list_all_iff)
  have pop: "list_all normal_comp st \<Longrightarrow> clean_stack True (replicate (length st) ''..'' @ cs) st = clean_stack True cs []"
    for st cs
    by (induction st) auto
  have "clean_stack True (concat (map (split_on (CHR ''/'')) [so_user_id opts, ?slug, so_session_id opts])) (rev bs) =
      rev (ts @ [?slug, so_session_id opts])"
    using pop [of "rev bs" "ts @ [?slug, so_session_id opts]"] assms(3,4,6) slug_normal [of wd] split
    by (simp add: list_all_rev clean_stack_normal)
  then have "session_dir_path m opts wd = root_path (ts @ [?slug, so_session_id opts])"
    using join_path_root [OF assms(3), of "[so_user_id opts, ?slug, so_session_id opts]"]
    by (simp add: session_dir_path_def assms(2) del: join_path.simps)
  then show ?thesis
    using wd assms(4,6) slug_normal [of wd]
    by (intro exI [of _ ?slug]) (simp add: os_abs_def)
qed

theorem session_dir_escapes_witness:
  "\<exists>la. plan_launch plain_env (new_rpc_manager ''pi'' [] ''/srv/sessions'' []) (plain_opts ''../../etc'') = Inr la \<and>
     la_session_dir la = ''/etc/--w-x--/s_000001''"
proof -
  define r where "r = plan_launch plain_env (new_rpc_manager ''pi'' [] ''/srv/sessions'' []) (plain_opts ''../../etc'')"
  have "\<not> isl r" "drop 5 (la_session_dir (projr r)) = ''--w-x--/s_000001''"
    unfolding r_def by code_simp+
  then obtain la where la: "r = Inr la" "drop 5 (la_session_dir la) = ''--w-x--/s_000001''"
    by (metis sum.collapse(2) sum.sel(2))
  have "rm_sessions_base_dir (new_rpc_manager ''pi'' [] ''/srv/sessions'' []) = root_path [''srv'', ''sessions'']"
    "list_all normal_comp [''srv'', ''sessions'']" "list_all normal_comp [''etc'']" "[''etc''] \<noteq> []"
    "normal_comp (so_session_id (plain_opts ''../../etc''))"
    "so_user_id (plain_opts ''../../etc'') = join ''/'' (replicate (length [''srv'', ''sessions'']) ''..'' @ [''etc''])"
    by code_simp+
  from session_dir_escapes [OF la(1) [unfolded r_def] this] obtain slug where
    "la_session_dir la = root_path ([''etc''] @ [slug, so_session_id (plain_opts ''../../etc'')])"
    by blast
  then have "take 5 (la_session_dir la) = ''/etc/''" by (simp add: root_path_def)
  then have "la_session_dir la = ''/etc/--w-x--/s_000001''"
    using la(2) append_take_drop_id [of 5 "la_session_dir la"] by simp
  then show ?thesis using la(1) unfolding r_def by blast
qed

text \<open>The resolved directory is absolute, clean and a directory; the server's default takes
  precedence over the request; and resolving the stored value again on \<open>Resume\<close> gives the same
  directory, if no white space surrounds it.\<close>

theorem resolve_working_dir_stable:
  assumes "resolve_working_dir env m opts = Inr p" "p \<noteq> []"
    and "\<And>cwd. os_getwd env = Inr cwd \<Longrightarrow> is_abs cwd"
  shows "is_abs p \<and> clean_path p = p \<and> os_stat_is_dir env p = Inr True \<and>
    (rm_default_working_dir m \<noteq> [] \<longrightarrow> os_abs env (rm_default_working_dir m) = Inr p) \<and>
    (trim_space p = p \<longrightarrow> resolve_working_dir env m (opts\<lparr>so_working_dir := p\<rparr>) = Inr p)"
proof -
  define candidate where "candidate =
    (if rm_default_working_dir m \<noteq> [] then rm_default_working_dir m else trim_space (so_working_dir opts))"
  have c: "candidate \<noteq> []" "os_abs env candidate = Inr p" "os_stat_is_dir env p = Inr True"
    using assms(1,2)
    by (auto simp: resolve_working_dir_def candidate_def Let_def split: if_splits sum.splits)
  have abs: "is_abs p \<and> clean_path p = p"
  proof (cases "is_abs candidate")
    case True
    then obtain cs where "clean_path candidate = root_path cs" "list_all normal_comp cs"
      by (rule clean_abs_normal)
    with c(2) True show ?thesis by (auto simp: os_abs_def)
  next
    case False
    then obtain cwd where cwd: "os_getwd env = Inr cwd" "p = join_path [cwd, candidate]"
      using c(2) by (auto simp: os_abs_def split: sum.splits)
    then have "is_abs cwd" using assms(3) by blast
    then have "p = clean_path (join ''/'' [cwd, candidate])" "is_abs (join ''/'' [cwd, candidate])"
      using cwd(2) by (auto simp: is_abs_iff)
    moreover from this(2) obtain cs where "clean_path (join ''/'' [cwd, candidate]) = root_path cs"
      "list_all normal_comp cs"
      by (rule clean_abs_normal)
    ultimately show ?thesis by auto
  qed
  then have "os_abs env p = Inr p" by (simp add: os_abs_def)
  then have "resolve_working_dir env m (opts\<lparr>so_working_dir := p\<rparr>) = Inr p" if "trim_space p = p"
    using c that assms(2) by (auto simp: resolve_working_dir_def candidate_def Let_def)
  then show ?thesis using abs c by (auto simp: candidate_def)
qed

theorem resolve_working_dir_stable_witness:
  "resolve_working_dir plain_env default_rpc_manager ((plain_opts ''u1'')\<lparr>so_working_dir := ''/w/x''\<rparr>) = Inr ''/w/x''"
proof -
  have "resolve_working_dir plain_env default_rpc_manager ((plain_opts ''u1'')\<lparr>so_working_dir := ''/w/./y/../x/''\<rparr>) =
      Inr ''/w/x''"
    by code_simp
  moreover have "is_abs cwd" if "os_getwd plain_env = Inr cwd" for cwd
    using that by (auto simp: plain_env_def is_abs_iff)
  moreover have "trim_space ''/w/x'' = ''/w/x''" by code_simp
  ultimately show ?thesis
    using resolve_working_dir_stable [of plain_env default_rpc_manager
        "(plain_opts ''u1'')\<lparr>so_working_dir := ''/w/./y/../x/''\<rparr>" "''/w/x''"]
    by simp
qed

end
