(* ===== verification/Rpc_Codec.thy ===== *)
theory Rpc_Codec
  imports Rpc_Mapper Process
begin

text \<open>
  \<open>internal/process/rpc_manager.go\<close>, the messages of a handle: the envelope, the commands it
  writes, and how the answers to \<open>get_state\<close> and \<open>get_messages\<close> are read. The text of a JSON
  decoding error is the package's and left out.
\<close>

section \<open>The envelope\<close>

record rpc_envelope =
  re_env_type :: string
  re_env_id :: string
  re_env_command :: string
  re_env_success :: "bool option"
  re_env_data :: raw_message
  re_env_error :: string

definition zero_envelope :: rpc_envelope where
  "zero_envelope = \<lparr>re_env_type = [], re_env_id = [], re_env_command = [], re_env_success = None,
     re_env_data = None, re_env_error = []\<rparr>"

text \<open>A \<open>*bool\<close> field: \<open>null\<close> makes it \<open>nil\<close>.\<close>

fun dec_bool_ptr :: "json \<Rightarrow> bool option \<Rightarrow> bool option option" where
  "dec_bool_ptr JNull old = Some None"
| "dec_bool_ptr (JBool b) old = Some (Some b)"
| "dec_bool_ptr _ old = None"

definition envelope_fields :: "(string \<times> rpc_envelope field_decoder) list" where
  "envelope_fields =
     [(''type'', field (\<lambda>x s. s\<lparr>re_env_type := x\<rparr>) re_env_type dec_string),
      (''id'', field (\<lambda>x s. s\<lparr>re_env_id := x\<rparr>) re_env_id dec_string),
      (''command'', field (\<lambda>x s. s\<lparr>re_env_command := x\<rparr>) re_env_command dec_string),
      (''success'', field (\<lambda>x s. s\<lparr>re_env_success := x\<rparr>) re_env_success dec_bool_ptr),
      (''data'', field (\<lambda>x s. s\<lparr>re_env_data := x\<rparr>) re_env_data dec_raw),
      (''error'', field (\<lambda>x s. s\<lparr>re_env_error := x\<rparr>) re_env_error dec_string)]"

definition decode_envelope :: "json \<Rightarrow> rpc_envelope option" where
  "decode_envelope j = decode_struct envelope_fields j zero_envelope"

text \<open>The last part of \<open>sendCommand\<close>: what a received envelope means for the caller.\<close>

definition command_result :: "rpc_envelope \<Rightarrow> string + rpc_envelope" where
  "command_result env =
     (if re_env_success env = Some False then
        Inl (if re_env_error env \<noteq> [] then re_env_error env else ''rpc command failed'')
      else Inr env)"

section \<open>Commands\<close>

text \<open>The payload maps, with the id that \<open>sendCommand\<close> adds.\<close>

definition request_id :: "nat \<Rightarrow> string" where
  "request_id n = ''req-'' @ fmt_nat n"

definition prompt_payload :: "prompt_request \<Rightarrow> (string \<times> json) list" where
  "prompt_payload req =
     [(''type'', JStr ''prompt''), (''message'', JStr (pr_message req))] @
     (if trim_space (pr_streaming_behavior req) \<noteq> []
      then [(''streamingBehavior'', JStr (trim_space (pr_streaming_behavior req)))] else [])"

definition abort_payload :: "(string \<times> json) list" where
  "abort_payload = [(''type'', JStr ''abort'')]"

definition get_state_payload :: "(string \<times> json) list" where
  "get_state_payload = [(''type'', JStr ''get_state'')]"

definition get_messages_payload :: "(string \<times> json) list" where
  "get_messages_payload = [(''type'', JStr ''get_messages'')]"

definition command_line :: "(string \<times> json) list \<Rightarrow> string \<Rightarrow> string" where
  "command_line payload rid = json_print (json_map ((''id'', JStr rid) # payload)) @ [CHR 0x0A]"

definition ui_response_payload :: "ui_response \<Rightarrow> (string \<times> json) list" where
  "ui_response_payload r =
     [(''type'', JStr ''extension_ui_response''), (''id'', JStr (ui_id r))] @
     (if ui_cancelled r then [(''cancelled'', JBool True)]
      else (case ui_confirmed r of
              Some b \<Rightarrow> [(''confirmed'', JBool b)]
            | None \<Rightarrow> if ui_value r \<noteq> JNull then [(''value'', ui_value r)] else []))"

section \<open>Answers\<close>

record state_data =
  sd_streaming :: bool
  sd_thinking_level :: string
  sd_model :: "string option"

text \<open>\<open>Model *struct { ID string }\<close>: \<open>null\<close> is \<open>nil\<close>; an object fills a new struct or the one
  that is there.\<close>

definition dec_model :: "json \<Rightarrow> string option \<Rightarrow> string option option" where
  "dec_model j old =
     (if j = JNull then Some None
      else map_option Some
        (decode_struct [(''id'', dec_string)] j (case old of None \<Rightarrow> [] | Some i \<Rightarrow> i)))"

definition state_fields :: "(string \<times> state_data field_decoder) list" where
  "state_fields =
     [(''isStreaming'', field (\<lambda>x s. s\<lparr>sd_streaming := x\<rparr>) sd_streaming dec_bool),
      (''thinkingLevel'', field (\<lambda>x s. s\<lparr>sd_thinking_level := x\<rparr>) sd_thinking_level dec_string),
      (''model'', field (\<lambda>x s. s\<lparr>sd_model := x\<rparr>) sd_model dec_model)]"

definition read_state :: "string + rpc_envelope \<Rightarrow> string + agent_state" where
  "read_state resp =
     bind_res resp (\<lambda>env.
       case re_env_data env of
         None \<Rightarrow> Inl ''decode get_state data''
       | Some j \<Rightarrow>
           (case decode_struct state_fields j \<lparr>sd_streaming = False, sd_thinking_level = [], sd_model = None\<rparr> of
              None \<Rightarrow> Inl ''decode get_state data''
            | Some d \<Rightarrow>
                Inr \<lparr>as_streaming = sd_streaming d,
                     as_model = (case sd_model d of None \<Rightarrow> [] | Some i \<Rightarrow> i),
                     as_thinking_level = sd_thinking_level d\<rparr>))"

definition read_messages_raw :: "string + rpc_envelope \<Rightarrow> string + json list option" where
  "read_messages_raw resp =
     bind_res resp (\<lambda>env.
       case re_env_data env of
         None \<Rightarrow> Inl ''decode get_messages data''
       | Some j \<Rightarrow>
           (case decode_struct [(''messages'', dec_raw_list)] j None of
              None \<Rightarrow> Inl ''decode get_messages data''
            | Some ms \<Rightarrow> Inr ms))"

text \<open>The text of one content item: its \<open>text\<close>, else its \<open>thinking\<close>, if they are strings.\<close>

definition item_text :: "json \<Rightarrow> string list" where
  "item_text item =
     (case Option.bind (obj_get item ''text'') json_str of
        Some t \<Rightarrow> [t]
      | None \<Rightarrow>
          (case Option.bind (obj_get item ''thinking'') json_str of Some t \<Rightarrow> [t] | None \<Rightarrow> []))"

fun flatten_content :: "json \<Rightarrow> string" where
  "flatten_content (JStr s) = s"
| "flatten_content (JArr items) = join [] (concat (map item_text items))"
| "flatten_content _ = []"

definition dec_any :: "json \<Rightarrow> json \<Rightarrow> json option" where
  "dec_any j old = Some j"

record message_data =
  md_role :: string
  md_content :: json

definition message_fields :: "(string \<times> message_data field_decoder) list" where
  "message_fields =
     [(''role'', field (\<lambda>x s. s\<lparr>md_role := x\<rparr>) md_role dec_string),
      (''content'', field (\<lambda>x s. s\<lparr>md_content := x\<rparr>) md_content dec_any)]"

fun read_message_list :: "json list \<Rightarrow> chat_message list" where
  "read_message_list [] = []"
| "read_message_list (raw # rs) =
     (case decode_struct message_fields raw \<lparr>md_role = [], md_content = JNull\<rparr> of
        None \<Rightarrow> read_message_list rs
      | Some d \<Rightarrow> \<lparr>cm_role = md_role d, cm_content = flatten_content (md_content d)\<rparr> # read_message_list rs)"

definition read_messages :: "string + rpc_envelope \<Rightarrow> string + chat_message list" where
  "read_messages resp =
     bind_res (read_messages_raw resp) (\<lambda>ms. Inr (read_message_list (case ms of None \<Rightarrow> [] | Some xs \<Rightarrow> xs)))"

section \<open>Facts\<close>

lemma request_id_inject [simp]: "request_id m = request_id n \<longleftrightarrow> m = n"
  by (simp add: request_id_def)

lemma read_message_list_length: "length (read_message_list rs) \<le> length rs"
  by (induction rs) (auto split: option.split)

text \<open>The text of a message is the concatenation of the texts of its items.\<close>

lemma join_empty: "join [] ps = concat ps"
  by (induction "[] :: string" ps rule: join.induct) auto

lemma flatten_text_items:
  "flatten_content (JArr (map (\<lambda>t. JObj [(''type'', JStr ''text''), (''text'', JStr t)]) ts)) = concat ts"
  by (simp add: join_empty item_text_def comp_def)

lemma envelope_lookups [simp]:
  "lookup_field envelope_fields ''type'' = Some (field (\<lambda>x s. s\<lparr>re_env_type := x\<rparr>) re_env_type dec_string)"
  "lookup_field envelope_fields ''id'' = Some (field (\<lambda>x s. s\<lparr>re_env_id := x\<rparr>) re_env_id dec_string)"
  "lookup_field envelope_fields ''success'' = Some (field (\<lambda>x s. s\<lparr>re_env_success := x\<rparr>) re_env_success dec_bool_ptr)"
  "lookup_field envelope_fields ''data'' = Some (field (\<lambda>x s. s\<lparr>re_env_data := x\<rparr>) re_env_data dec_raw)"
  "lookup_field envelope_fields ''error'' = Some (field (\<lambda>x s. s\<lparr>re_env_error := x\<rparr>) re_env_error dec_string)"
  by (simp_all add: lookup_field_def envelope_fields_def)

end
