(* ===== verification/Rpc_Handle.thy ===== *)
theory Rpc_Handle
  imports Rpc_Codec Broker
begin

text \<open>
  \<open>internal/process/rpc_manager.go\<close>, the handle of a running agent process: commands matched to
  answers by id, the reader of the process's output, the reaper that runs when the process ends,
  and the subscribers. Each goroutine is a set of atomic steps, one per critical section or channel
  operation of the code; a step that would panic (a send on a closed channel, a second close) or
  block the reader for ever is \<open>None\<close>. A call of \<open>sendCommand\<close> is an entry of \<open>rh_calls\<close>, and its
  index is the address of its answer channel in \<open>rh_answers\<close>. The texts of the errors of
  \<open>stdin.Write\<close> and of the context are arguments of the steps.
\<close>

section \<open>State\<close>

datatype call_status = Writing | Waiting | Returned "string + rpc_envelope"

record rpc_call =
  rc_id :: string
  rc_payload :: "(string \<times> json) list"
  rc_status :: call_status

text \<open>What \<open>readLoop\<close> has in hand: nothing, an answer taken from \<open>pending\<close> and not yet sent, or
  events still to broadcast.\<close>

datatype reader = Idle | Answer nat rpc_envelope | Emit "event list"

text \<open>The progress of \<open>waitLoop\<close>: waiting for the process, maps cleared, \<open>done\<close> closed.\<close>

datatype exit_phase = Running | Reaped | Finished

record rpc_handle =
  rh_closed :: bool
  rh_next_id :: "64 word"
  rh_pending :: "(string \<times> nat) list"
  rh_calls :: "rpc_call list"
  rh_answers :: "rpc_envelope chan_heap"
  rh_reader :: reader
  rh_broker :: "event broker"
  rh_exit :: exit_phase
  rh_stdin :: "string list"

definition subscriber_capacity :: nat where "subscriber_capacity = 128"

definition new_rpc_handle :: rpc_handle where
  "new_rpc_handle = \<lparr>rh_closed = False, rh_next_id = 0, rh_pending = [], rh_calls = [], rh_answers = [],
     rh_reader = Idle, rh_broker = new_broker, rh_exit = Running, rh_stdin = []\<rparr>"

section \<open>Commands\<close>

definition set_status :: "nat \<Rightarrow> call_status \<Rightarrow> rpc_handle \<Rightarrow> rpc_handle" where
  "set_status i st h = h\<lparr>rh_calls := (rh_calls h)[i := (rh_calls h ! i)\<lparr>rc_status := st\<rparr>]\<rparr>"

definition remove_pending :: "string \<Rightarrow> rpc_handle \<Rightarrow> rpc_handle" where
  "remove_pending rid h = h\<lparr>rh_pending := AList.delete rid (rh_pending h)\<rparr>"

definition next_request :: "rpc_handle \<Rightarrow> string" where
  "next_request h = request_id (unat (rh_next_id h + 1))"

text \<open>\<open>sendCommand\<close> up to the registration of its answer channel.\<close>

definition begin_command :: "(string \<times> json) list \<Rightarrow> rpc_handle \<Rightarrow> rpc_handle" where
  "begin_command payload h =
     (let rid = next_request h;
          call = (\<lambda>st. \<lparr>rc_id = rid, rc_payload = payload, rc_status = st\<rparr>) in
      h\<lparr>rh_next_id := rh_next_id h + 1,
        rh_answers := rh_answers h @ [new_chan],
        rh_calls := rh_calls h @
          [call (if rh_closed h then Returned (Inl ''agent handle is closed'') else Writing)],
        rh_pending := (if rh_closed h then rh_pending h
                       else AList.update rid (length (rh_calls h)) (rh_pending h))\<rparr>)"

text \<open>The write to the process's standard input, when it succeeds.\<close>

definition write_command :: "nat \<Rightarrow> rpc_handle \<Rightarrow> rpc_handle" where
  "write_command i h =
     set_status i Waiting
       (h\<lparr>rh_stdin := rh_stdin h @ [command_line (rc_payload (rh_calls h ! i)) (rc_id (rh_calls h ! i))]\<rparr>)"

text \<open>The error returns of \<open>sendCommand\<close>: each removes the registration.\<close>

definition fail_call :: "nat \<Rightarrow> string \<Rightarrow> rpc_handle \<Rightarrow> rpc_handle" where
  "fail_call i msg h = set_status i (Returned (Inl msg)) (remove_pending (rc_id (rh_calls h ! i)) h)"

text \<open>The receive in the final \<open>select\<close>; a closed channel yields the zero envelope.\<close>

definition take_answer :: "nat \<Rightarrow> rpc_handle \<Rightarrow> rpc_handle" where
  "take_answer i h =
     (case recv i (rh_answers h) of
        (Value env, as) \<Rightarrow> set_status i (Returned (command_result env)) (h\<lparr>rh_answers := as\<rparr>)
      | (Closed, as) \<Rightarrow> set_status i (Returned (command_result zero_envelope)) h
      | (Blocks, as) \<Rightarrow> h)"

section \<open>The reader\<close>

text \<open>One iteration of \<open>readLoop\<close>, up to the sends.\<close>

definition strip_line :: "string \<Rightarrow> string" where
  "strip_line s = trim_suffix (trim_suffix s [CHR 0x0A]) [CHR 0x0D]"

definition line_envelope :: "string \<Rightarrow> rpc_envelope option" where
  "line_envelope line =
     (if trim_space line = [] then None else Option.bind (json_parse line) decode_envelope)"

definition read_line :: "string \<Rightarrow> string \<Rightarrow> rpc_handle \<Rightarrow> rpc_handle" where
  "read_line now text_line h =
     (let line = strip_line text_line in
      case line_envelope line of
        None \<Rightarrow> h
      | Some env \<Rightarrow>
          if re_env_type env = ''response'' then
            (case map_of (rh_pending h) (re_env_id env) of
               None \<Rightarrow> h
             | Some a \<Rightarrow> (remove_pending (re_env_id env) h)\<lparr>rh_reader := Answer a env\<rparr>)
          else h\<lparr>rh_reader := Emit (map_rpc_line now line)\<rparr>)"

text \<open>\<open>ch <- env; close(ch)\<close> on a channel of capacity 1.\<close>

definition deliver :: "rpc_handle \<Rightarrow> rpc_handle option" where
  "deliver h =
     (case rh_reader h of
        Answer a env \<Rightarrow>
          if length (rh_answers h) \<le> a \<or> ch_closed (rh_answers h ! a) \<or> ch_buf (rh_answers h ! a) \<noteq> [] then None
          else Some (h\<lparr>rh_reader := Idle,
                       rh_answers := (rh_answers h)[a := \<lparr>ch_buf = [env], ch_closed = True\<rparr>]\<rparr>)
      | _ \<Rightarrow> Some h)"

text \<open>One \<open>broadcastGatewayEvent\<close>.\<close>

definition broadcast_event :: "event \<Rightarrow> rpc_handle \<Rightarrow> rpc_handle option" where
  "broadcast_event e h =
     (case bk_broadcast subscriber_capacity e (rh_broker h) of
        None \<Rightarrow> None | Some b \<Rightarrow> Some (h\<lparr>rh_broker := b\<rparr>))"

definition emit_next :: "rpc_handle \<Rightarrow> rpc_handle option" where
  "emit_next h =
     (case rh_reader h of
        Emit (e # es) \<Rightarrow> broadcast_event e (h\<lparr>rh_reader := Emit es\<rparr>)
      | Emit [] \<Rightarrow> Some (h\<lparr>rh_reader := Idle\<rparr>)
      | _ \<Rightarrow> Some h)"

section \<open>The end of the process\<close>

text \<open>\<open>waitLoop\<close>: the critical section after \<open>Wait\<close>, then \<open>close(h.done)\<close>.\<close>

definition reap :: "rpc_handle \<Rightarrow> rpc_handle option" where
  "reap h =
     (case close_each (map snd (rh_pending h)) (rh_answers h) of
        None \<Rightarrow> None
      | Some as \<Rightarrow>
          (case bk_close_all (rh_broker h) of
             None \<Rightarrow> None
           | Some b \<Rightarrow> Some (h\<lparr>rh_pending := [], rh_answers := as, rh_broker := b, rh_closed := True,
                               rh_exit := Reaped\<rparr>)))"

definition finish :: "rpc_handle \<Rightarrow> rpc_handle" where
  "finish h = h\<lparr>rh_exit := Finished\<rparr>"

text \<open>\<open>Close\<close>: its first part, and what it returns for each case of its \<open>select\<close> (the error, and
  whether it killed the process).\<close>

definition close_begin :: "rpc_handle \<Rightarrow> bool \<times> rpc_handle" where
  "close_begin h = (\<not> rh_closed h, h\<lparr>rh_closed := True\<rparr>)"

datatype close_event = Exit_Seen | Context_Over string | Timer_Fired

fun close_wait :: "close_event \<Rightarrow> string option \<times> bool" where
  "close_wait Exit_Seen = (None, False)"
| "close_wait (Context_Over err) = (Some err, True)"
| "close_wait Timer_Fired = (None, True)"

section \<open>Subscribers and UI responses\<close>

definition rpc_subscribe :: "rpc_handle \<Rightarrow> (64 word \<times> nat) \<times> rpc_handle" where
  "rpc_subscribe h = (case bk_subscribe (rh_broker h) of (sub, b) \<Rightarrow> (sub, h\<lparr>rh_broker := b\<rparr>))"

definition rpc_unsubscribe :: "64 word \<Rightarrow> rpc_handle \<Rightarrow> rpc_handle option" where
  "rpc_unsubscribe i h =
     (case bk_unsubscribe i (rh_broker h) of None \<Rightarrow> None | Some b \<Rightarrow> Some (h\<lparr>rh_broker := b\<rparr>))"

definition rpc_recv :: "nat \<Rightarrow> rpc_handle \<Rightarrow> event received \<times> rpc_handle" where
  "rpc_recv a h = (case bk_recv a (rh_broker h) of (r, b) \<Rightarrow> (r, h\<lparr>rh_broker := b\<rparr>))"

definition send_ui_response :: "string option \<Rightarrow> ui_response \<Rightarrow> rpc_handle \<Rightarrow> (string + unit) \<times> rpc_handle" where
  "send_ui_response write_error r h =
     (if rh_closed h then (Inl ''agent handle is closed'', h)
      else (case write_error of
              Some err \<Rightarrow> (Inl err, h)
            | None \<Rightarrow>
                (Inr (), h\<lparr>rh_stdin := rh_stdin h @ [json_print (json_map (ui_response_payload r)) @ [CHR 0x0A]]\<rparr>)))"

section \<open>Steps\<close>

text \<open>One step per critical section or channel operation, with two exceptions: the atomic increment of
  \<open>nextID\<close> is one step with the registration that follows it, and \<open>SendUIResponse\<close>, which releases \<open>mu\<close> between
  its look at \<open>closed\<close> and its write, is one step. A write after the exit fails with an error of the pipe, a
  parameter here.\<close>

datatype handle_op =
    Begin "(string \<times> json) list"
  | Write_Ok nat
  | Write_Failed nat string
  | Context_Ended nat string
  | See_Exit nat
  | Take_Answer nat
  | Read_Line string string
  | Deliver
  | Emit_Next
  | Reap
  | Finish
  | Close_Begin
  | Rpc_Subscribe
  | Rpc_Unsubscribe "64 word"
  | Rpc_Recv nat
  | Ui_Response "string option" ui_response

definition call_in :: "nat \<Rightarrow> call_status \<Rightarrow> rpc_handle \<Rightarrow> bool" where
  "call_in i st h \<longleftrightarrow> i < length (rh_calls h) \<and> rc_status (rh_calls h ! i) = st"

text \<open>When a goroutine can take a step. The two counters have not wrapped round onto an id in use:
  fewer than \<open>2 ^ 64\<close> commands and subscriptions.\<close>

fun handle_enabled :: "handle_op \<Rightarrow> rpc_handle \<Rightarrow> bool" where
  "handle_enabled (Begin payload) h = (next_request h \<notin> set (map rc_id (rh_calls h)))"
| "handle_enabled (Write_Ok i) h = call_in i Writing h"
| "handle_enabled (Write_Failed i err) h = call_in i Writing h"
| "handle_enabled (Context_Ended i err) h = call_in i Waiting h"
| "handle_enabled (See_Exit i) h = (call_in i Waiting h \<and> rh_exit h = Finished)"
| "handle_enabled (Take_Answer i) h =
     (call_in i Waiting h \<and> (ch_buf (rh_answers h ! i) \<noteq> [] \<or> ch_closed (rh_answers h ! i)))"
| "handle_enabled (Read_Line now s) h = (rh_reader h = Idle)"
| "handle_enabled Deliver h = (case rh_reader h of Answer a env \<Rightarrow> True | _ \<Rightarrow> False)"
| "handle_enabled Emit_Next h = (case rh_reader h of Emit es \<Rightarrow> True | _ \<Rightarrow> False)"
| "handle_enabled Reap h = (rh_exit h = Running)"
| "handle_enabled Finish h = (rh_exit h = Reaped)"
| "handle_enabled Rpc_Subscribe h = next_unused (rh_broker h)"
| "handle_enabled _ h = True"

fun handle_apply :: "handle_op \<Rightarrow> rpc_handle \<Rightarrow> rpc_handle option" where
  "handle_apply (Begin payload) h = Some (begin_command payload h)"
| "handle_apply (Write_Ok i) h = Some (write_command i h)"
| "handle_apply (Write_Failed i err) h = Some (fail_call i (''write command: '' @ err) h)"
| "handle_apply (Context_Ended i err) h = Some (fail_call i err h)"
| "handle_apply (See_Exit i) h = Some (fail_call i ''pi process exited'' h)"
| "handle_apply (Take_Answer i) h = Some (take_answer i h)"
| "handle_apply (Read_Line now s) h = Some (read_line now s h)"
| "handle_apply Deliver h = deliver h"
| "handle_apply Emit_Next h = emit_next h"
| "handle_apply Reap h = reap h"
| "handle_apply Finish h = Some (finish h)"
| "handle_apply Close_Begin h = Some (snd (close_begin h))"
| "handle_apply Rpc_Subscribe h = Some (snd (rpc_subscribe h))"
| "handle_apply (Rpc_Unsubscribe i) h = rpc_unsubscribe i h"
| "handle_apply (Rpc_Recv a) h = Some (snd (rpc_recv a h))"
| "handle_apply (Ui_Response err r) h = Some (snd (send_ui_response err r h))"

inductive handle_reachable :: "rpc_handle \<Rightarrow> bool" where
  start: "handle_reachable new_rpc_handle"
| step: "handle_reachable h \<Longrightarrow> handle_enabled e h \<Longrightarrow> handle_apply e h = Some h' \<Longrightarrow> handle_reachable h'"

text \<open>An executable run: \<open>None\<close> when a step is not enabled or panics.\<close>

fun handle_run :: "handle_op list \<Rightarrow> rpc_handle \<Rightarrow> rpc_handle option" where
  "handle_run [] h = Some h"
| "handle_run (e # es) h =
     (if handle_enabled e h then Option.bind (handle_apply e h) (handle_run es) else None)"

lemma handle_run_reachable:
  "handle_run es h = Some h' \<Longrightarrow> handle_reachable h \<Longrightarrow> handle_reachable h'"
proof (induction es arbitrary: h)
  case (Cons e es)
  then show ?case
    by (auto split: if_splits simp: bind_eq_Some_conv intro: handle_reachable.step)
qed simp

section \<open>Invariant\<close>

text \<open>Every registration is of a call with that id, and its channel is open and empty.\<close>

definition pending_ok :: "rpc_handle \<Rightarrow> bool" where
  "pending_ok h \<longleftrightarrow> distinct (map fst (rh_pending h)) \<and> distinct (map snd (rh_pending h)) \<and>
     (\<forall>p\<in>set (rh_pending h). snd p < length (rh_calls h) \<and> rc_id (rh_calls h ! snd p) = fst p \<and>
        rh_answers h ! snd p = new_chan)"

definition registered :: "rpc_handle \<Rightarrow> nat \<Rightarrow> bool" where
  "registered h a \<longleftrightarrow> (\<exists>rid. (rid, a) \<in> set (rh_pending h))"

text \<open>An answer in the reader's hand belongs to a call that is no longer registered.\<close>

definition reader_ok :: "rpc_handle \<Rightarrow> bool" where
  "reader_ok h \<longleftrightarrow>
     (case rh_reader h of
        Answer a env \<Rightarrow> a < length (rh_calls h) \<and> rh_answers h ! a = new_chan \<and>
          \<not> registered h a \<and> re_env_id env = rc_id (rh_calls h ! a)
      | _ \<Rightarrow> True)"

definition answer_in_hand :: "rpc_handle \<Rightarrow> nat \<Rightarrow> bool" where
  "answer_in_hand h a \<longleftrightarrow> (case rh_reader h of Answer b env \<Rightarrow> b = a | _ \<Rightarrow> False)"

definition unanswered :: "rpc_call \<Rightarrow> bool" where
  "unanswered c \<longleftrightarrow> rc_status c = Writing \<or> rc_status c = Waiting"

text \<open>The answer channel of a call: what it can hold, who closed it, and that a call still under way
  is registered, about to be answered, or can receive.\<close>

definition answer_ok :: "rpc_handle \<Rightarrow> nat \<Rightarrow> bool" where
  "answer_ok h a \<longleftrightarrow>
     (\<forall>env\<in>set (ch_buf (rh_answers h ! a)). re_env_id env = rc_id (rh_calls h ! a)) \<and>
     (unanswered (rh_calls h ! a) \<longrightarrow>
        (registered h a \<or> answer_in_hand h a \<or> ch_closed (rh_answers h ! a)) \<and>
        (ch_closed (rh_answers h ! a) \<and> ch_buf (rh_answers h ! a) = [] \<longrightarrow> rh_exit h \<noteq> Running))"

definition result_ok :: "rpc_handle \<Rightarrow> nat \<Rightarrow> bool" where
  "result_ok h a \<longleftrightarrow>
     (\<forall>env. rc_status (rh_calls h ! a) = Returned (Inr env) \<longrightarrow>
        re_env_id env = rc_id (rh_calls h ! a) \<or> env = zero_envelope \<and> rh_exit h \<noteq> Running)"

definition handle_ok :: "rpc_handle \<Rightarrow> bool" where
  "handle_ok h \<longleftrightarrow> broker_ok subscriber_capacity (rh_broker h) \<and>
     length (rh_answers h) = length (rh_calls h) \<and> distinct (map rc_id (rh_calls h)) \<and> pending_ok h \<and> reader_ok h \<and>
     (\<forall>a<length (rh_calls h). answer_ok h a \<and> result_ok h a) \<and>
     (rh_exit h \<noteq> Running \<longrightarrow> rh_closed h \<and> rh_pending h = [])"

lemmas handle_inv_defs = handle_ok_def pending_ok_def reader_ok_def answer_ok_def result_ok_def registered_def

lemma registered_iff: "registered h a \<longleftrightarrow> a \<in> set (map snd (rh_pending h))"
  unfolding registered_def by force

lemma new_rpc_handle_ok: "handle_ok new_rpc_handle"
  by (simp add: handle_inv_defs new_rpc_handle_def)

lemma unanswered_simps [simp]:
  "unanswered (c\<lparr>rc_status := Returned r\<rparr>) = False"
  "unanswered (c\<lparr>rc_status := Waiting\<rparr>) = True"
  by (simp_all add: unanswered_def)

lemma call_in_unanswered: "call_in i Writing h \<or> call_in i Waiting h \<Longrightarrow> unanswered (rh_calls h ! i)"
  by (auto simp: call_in_def unanswered_def)

lemma new_chan_simps [simp]: "ch_buf new_chan = []" "\<not> ch_closed new_chan"
  by (simp_all add: new_chan_def)

text \<open>Steps that touch neither calls, answers, registrations nor the reader keep the rest.\<close>

lemma handle_ok_frame:
  assumes "handle_ok h" "broker_ok subscriber_capacity (rh_broker h')"
    "rh_calls h' = rh_calls h" "rh_answers h' = rh_answers h" "rh_pending h' = rh_pending h"
    "rh_reader h' = rh_reader h" "rh_exit h' = rh_exit h" "rh_closed h \<longrightarrow> rh_closed h'"
  shows "handle_ok h'"
  using assms unfolding handle_inv_defs answer_in_hand_def by (simp cong: reader.case_cong)

lemma reader_idle_ok:
  assumes "handle_ok h" "\<And>a env. rh_reader h \<noteq> Answer a env" "\<And>a env. r \<noteq> Answer a env"
  shows "handle_ok (h\<lparr>rh_reader := r\<rparr>)"
proof -
  have "\<not> answer_in_hand h a" "\<not> answer_in_hand (h\<lparr>rh_reader := r\<rparr>) a" for a
    using assms(2,3) by (simp_all add: answer_in_hand_def split: reader.split)
  then show ?thesis
    using assms unfolding handle_inv_defs by (simp split: reader.split)
qed

lemma begin_command_ok:
  assumes "handle_ok h" "next_request h \<notin> set (map rc_id (rh_calls h))"
  shows "handle_ok (begin_command payload h)"
proof -
  let ?h = "begin_command payload h" and ?n = "length (rh_calls h)"
  have len: "length (rh_answers h) = ?n" using assms(1) by (simp add: handle_ok_def)
  have pend: "\<forall>p\<in>set (rh_pending h). snd p < ?n" using assms(1) by (simp add: handle_ok_def pending_ok_def)
  have fresh: "next_request h \<notin> set (map fst (rh_pending h))"
  proof
    assume "next_request h \<in> set (map fst (rh_pending h))"
    then obtain a where "(next_request h, a) \<in> set (rh_pending h)" by auto
    then have "a < length (rh_calls h)" "rc_id (rh_calls h ! a) = next_request h"
      using assms(1) by (auto simp: handle_ok_def pending_ok_def)
    then have "next_request h \<in> set (map rc_id (rh_calls h))" by (metis length_map nth_map nth_mem)
    with assms(2) show False by blast
  qed
  have old: "rh_calls ?h ! a = rh_calls h ! a" "rh_answers ?h ! a = rh_answers h ! a" if "a < ?n" for a
    using that len by (simp_all add: begin_command_def Let_def nth_append)
  have new: "rc_id (rh_calls ?h ! ?n) = next_request h" "rh_answers ?h ! ?n = new_chan"
    "rc_status (rh_calls ?h ! ?n) = (if rh_closed h then Returned (Inl ''agent handle is closed'') else Writing)"
    using len by (simp_all add: begin_command_def Let_def nth_append)
  have lens: "length (rh_calls ?h) = Suc ?n" "length (rh_answers ?h) = Suc ?n"
    using len by (simp_all add: begin_command_def Let_def)
  have pending: "rh_pending ?h = (if rh_closed h then rh_pending h else rh_pending h @ [(next_request h, ?n)])"
    using fresh by (simp add: begin_command_def Let_def update_absent)
  have same: "rh_reader ?h = rh_reader h" "rh_exit ?h = rh_exit h" "rh_closed ?h = rh_closed h"
    "rh_broker ?h = rh_broker h"
    by (simp_all add: begin_command_def Let_def)
  have "pending_ok ?h"
    using assms(1) fresh pend old new lens unfolding handle_ok_def pending_ok_def pending
    by (auto simp: less_Suc_eq)
  moreover have "reader_ok ?h"
    using assms(1) old new lens unfolding handle_ok_def reader_ok_def pending same registered_def
    by (auto split: reader.split)
  moreover have "answer_ok ?h a \<and> result_ok ?h a" if "a < Suc ?n" for a
  proof (cases "a = ?n")
    case True
    then show ?thesis
      using new pending by (auto simp: answer_ok_def result_ok_def unanswered_def registered_def)
  next
    case False
    then have "a < ?n" "answer_ok h a" "result_ok h a" using that assms(1) by (simp_all add: handle_ok_def)
    then show ?thesis
      using old [of a] unfolding answer_ok_def result_ok_def answer_in_hand_def registered_def same pending
      by auto
  qed
  moreover have "distinct (map rc_id (rh_calls ?h))"
    using assms by (auto simp: handle_ok_def begin_command_def Let_def)
  ultimately show ?thesis
    using assms(1) len unfolding handle_ok_def lens same pending by auto
qed

text \<open>A write changes a call's status only; the call stays under way.\<close>

lemma write_command_ok:
  assumes "handle_ok h" "call_in i Writing h"
  shows "handle_ok (write_command i h)"
proof -
  let ?h = "write_command i h"
  have un: "unanswered (rh_calls h ! i)" "i < length (rh_calls h)"
    using assms(2) by (auto simp: call_in_def unanswered_def)
  have calls: "rc_id (rh_calls ?h ! a) = rc_id (rh_calls h ! a)"
    "unanswered (rh_calls ?h ! a) = unanswered (rh_calls h ! a)"
    "rc_status (rh_calls ?h ! a) = Returned r \<Longrightarrow> rc_status (rh_calls h ! a) = Returned r"
    if "a < length (rh_calls h)" for a r
    using un that by (auto simp: write_command_def set_status_def nth_list_update split: if_splits)
  have same: "rh_reader ?h = rh_reader h" "rh_exit ?h = rh_exit h" "rh_closed ?h = rh_closed h"
    "rh_broker ?h = rh_broker h" "rh_pending ?h = rh_pending h" "rh_answers ?h = rh_answers h"
    "length (rh_calls ?h) = length (rh_calls h)"
    by (simp_all add: write_command_def set_status_def)
  have "map rc_id (rh_calls ?h) = map rc_id (rh_calls h)"
    using calls(1) same(7) by (intro nth_equalityI) simp_all
  then show ?thesis
    using assms(1) calls unfolding handle_inv_defs answer_in_hand_def same
    by (auto split: reader.split)
qed

lemma pending_shrinks:
  assumes "handle_ok h" "i < length (rh_calls h)"
    and pend: "pend = rh_pending h \<or> pend = AList.delete (rc_id (rh_calls h ! i)) (rh_pending h)"
  shows "set pend \<subseteq> set (rh_pending h)" "distinct (map fst pend)" "distinct (map snd pend)"
    "(rid, a) \<in> set (rh_pending h) \<Longrightarrow> a \<noteq> i \<Longrightarrow> (rid, a) \<in> set pend"
proof -
  have P: "pending_ok h" using assms(1) by (simp add: handle_ok_def)
  show "set pend \<subseteq> set (rh_pending h)" using pend by (auto simp: AList.delete_eq)
  show "distinct (map fst pend)" "distinct (map snd pend)"
    using pend P by (auto simp: pending_ok_def AList.delete_eq distinct_map_filter)
  assume a: "(rid, a) \<in> set (rh_pending h)" "a \<noteq> i"
  then have "rid \<noteq> rc_id (rh_calls h ! i)"
    using P assms(1,2) nth_eq_iff_index_eq [of "map rc_id (rh_calls h)" a i]
    by (auto simp: pending_ok_def handle_ok_def)
  then show "(rid, a) \<in> set pend" using pend a(1) by (auto simp: AList.delete_eq)
qed

text \<open>A call that returns: its registration goes, if it is still there, and its result is justified.\<close>

lemma return_ok:
  assumes "handle_ok h" "i < length (rh_calls h)"
    and res: "\<And>env. r = Inr env \<Longrightarrow> re_env_id env = rc_id (rh_calls h ! i) \<or> env = zero_envelope \<and> rh_exit h \<noteq> Running"
    and bufs: "length as = length (rh_answers h)"
      "\<And>a. a \<noteq> i \<Longrightarrow> as ! a = rh_answers h ! a" "set (ch_buf (as ! i)) \<subseteq> set (ch_buf (rh_answers h ! i))"
      "as ! i = rh_answers h ! i \<or> ch_closed (rh_answers h ! i) \<or> ch_buf (rh_answers h ! i) \<noteq> []"
    and pend: "pend = rh_pending h \<or> pend = AList.delete (rc_id (rh_calls h ! i)) (rh_pending h)"
  shows "handle_ok (set_status i (Returned r) (h\<lparr>rh_pending := pend, rh_answers := as\<rparr>))"
proof -
  let ?h = "set_status i (Returned r) (h\<lparr>rh_pending := pend, rh_answers := as\<rparr>)"
  have calls: "rc_id (rh_calls ?h ! a) = rc_id (rh_calls h ! a)"
    "a \<noteq> i \<Longrightarrow> rh_calls ?h ! a = rh_calls h ! a"
    "rc_status (rh_calls ?h ! i) = Returned r"
    if "a < length (rh_calls h)" for a
    using assms(2) that by (simp_all add: set_status_def nth_list_update)
  have same: "rh_reader ?h = rh_reader h" "rh_exit ?h = rh_exit h" "rh_closed ?h = rh_closed h"
    "rh_broker ?h = rh_broker h" "rh_pending ?h = pend" "rh_answers ?h = as"
    "length (rh_calls ?h) = length (rh_calls h)"
    by (simp_all add: set_status_def)
  have P: "pending_ok h" "reader_ok h" "\<forall>a<length (rh_calls h). answer_ok h a \<and> result_ok h a"
    and L: "length (rh_answers h) = length (rh_calls h)"
    using assms(1) by (simp_all add: handle_ok_def)
  note sub = pending_shrinks(1) [OF assms(1,2) pend] and dist = pending_shrinks(2,3) [OF assms(1,2) pend]
    and keep = pending_shrinks(4) [OF assms(1,2) pend]
  have pnew: "rh_answers h ! a = new_chan" "a < length (rh_calls h)" "rc_id (rh_calls h ! a) = rid"
    if "(rid, a) \<in> set (rh_pending h)" for rid a
    using P(1) that by (auto simp: pending_ok_def)
  have inew: "as ! i = new_chan" if "rh_answers h ! i = new_chan" using bufs(4) that by auto
  have ans: "as ! a = new_chan" if "rh_answers h ! a = new_chan" for a
    using bufs(2) [of a] inew that by (cases "a = i") auto
  have "pending_ok ?h"
    unfolding pending_ok_def same
  proof (intro conjI dist ballI)
    fix p assume "p \<in> set pend"
    then obtain rid a where p: "p = (rid, a)" "(rid, a) \<in> set (rh_pending h)"
      using sub by (metis subsetD surj_pair)
    from pnew [OF p(2)] show "snd p < length (rh_calls h)" "rc_id (rh_calls ?h ! snd p) = fst p"
      "as ! snd p = new_chan"
      using calls(1) ans p(1) by simp_all
  qed
  moreover have "reader_ok ?h"
    using P(2) sub calls(1) ans unfolding reader_ok_def registered_def same
    by (auto split: reader.splits)
  moreover have "answer_ok ?h a \<and> result_ok ?h a" if a: "a < length (rh_calls h)" for a
  proof (cases "a = i")
    case True
    have "\<not> unanswered (rh_calls ?h ! i)" using calls(3) [OF a] by (simp add: unanswered_def)
    moreover have "\<forall>env\<in>set (ch_buf (rh_answers h ! i)). re_env_id env = rc_id (rh_calls h ! i)"
      using P(3) a True by (simp add: answer_ok_def)
    then have "\<forall>env\<in>set (ch_buf (as ! i)). re_env_id env = rc_id (rh_calls ?h ! i)"
      using bufs(3) calls(1) [OF assms(2)] by auto
    moreover have "result_ok ?h i"
      unfolding result_ok_def same calls(1,3) [OF assms(2)] using res by blast
    ultimately show ?thesis using True unfolding answer_ok_def same by simp
  next
    case False
    have "answer_ok h a" "result_ok h a" using P(3) a by simp_all
    moreover have "answer_in_hand ?h a = answer_in_hand h a" by (simp add: answer_in_hand_def same)
    moreover have "registered ?h a" if "registered h a"
      using that keep False unfolding registered_def same by blast
    ultimately show ?thesis
      using calls(2) [OF a False] bufs(2) [OF False] unfolding answer_ok_def result_ok_def same by auto
  qed
  moreover have "map rc_id (rh_calls ?h) = map rc_id (rh_calls h)"
    using calls(1) same(7) by (intro nth_equalityI) simp_all
  ultimately show ?thesis
    using assms(1) L bufs(1) pend unfolding handle_ok_def same by auto
qed

lemma fail_call_ok:
  assumes "handle_ok h" "i < length (rh_calls h)"
  shows "handle_ok (fail_call i msg h)"
proof -
  have "fail_call i msg h = set_status i (Returned (Inl msg))
      (h\<lparr>rh_pending := AList.delete (rc_id (rh_calls h ! i)) (rh_pending h), rh_answers := rh_answers h\<rparr>)"
    by (simp add: fail_call_def remove_pending_def set_status_def)
  then show ?thesis
    by (simp only:) (rule return_ok [OF assms], simp_all)
qed

lemma command_result_Inr: "command_result env = Inr env' \<Longrightarrow> env' = env"
  by (simp add: command_result_def split: if_splits)

lemma take_answer_ok:
  assumes "handle_ok h" "handle_enabled (Take_Answer i) h"
  shows "handle_ok (take_answer i h)"
proof -
  have i: "i < length (rh_calls h)" "unanswered (rh_calls h ! i)" "length (rh_answers h) = length (rh_calls h)"
    and ok: "answer_ok h i"
    using assms by (auto simp: call_in_def unanswered_def handle_ok_def)
  show ?thesis
  proof (cases "ch_buf (rh_answers h ! i)")
    case Nil
    then have "ch_closed (rh_answers h ! i)" "rh_exit h \<noteq> Running"
      using assms(2) ok i(2) by (auto simp: answer_ok_def)
    moreover from this Nil have "take_answer i h =
        set_status i (Returned (command_result zero_envelope)) (h\<lparr>rh_pending := rh_pending h, rh_answers := rh_answers h\<rparr>)"
      by (simp add: take_answer_def recv_def)
    ultimately show ?thesis
      by (simp only:) (rule return_ok [OF assms(1) i(1)], auto dest: command_result_Inr)
  next
    case (Cons env es)
    let ?as = "(rh_answers h)[i := (rh_answers h ! i)\<lparr>ch_buf := es\<rparr>]"
    have "take_answer i h =
        set_status i (Returned (command_result env)) (h\<lparr>rh_pending := rh_pending h, rh_answers := ?as\<rparr>)"
      using Cons by (simp add: take_answer_def recv_def)
    moreover have "re_env_id env = rc_id (rh_calls h ! i)" using ok Cons by (simp add: answer_ok_def)
    ultimately show ?thesis
      using Cons i
      by (simp only:) (rule return_ok [OF assms(1) i(1)], auto dest: command_result_Inr)
  qed
qed

lemma map_of_pending:
  assumes "handle_ok h" "map_of (rh_pending h) rid = Some a"
  shows "a < length (rh_calls h)" "rc_id (rh_calls h ! a) = rid" "rh_answers h ! a = new_chan" "registered h a"
  using assms map_of_SomeD [OF assms(2)] by (auto simp: handle_ok_def pending_ok_def registered_def)

lemma take_pending_ok:
  assumes "handle_ok h" "rh_reader h = Idle" "map_of (rh_pending h) (re_env_id env) = Some a"
  shows "handle_ok ((remove_pending (re_env_id env) h)\<lparr>rh_reader := Answer a env\<rparr>)"
proof -
  let ?h = "(remove_pending (re_env_id env) h)\<lparr>rh_reader := Answer a env\<rparr>"
  note a = map_of_pending [OF assms(1,3)]
  have same: "rh_exit ?h = rh_exit h" "rh_closed ?h = rh_closed h" "rh_broker ?h = rh_broker h"
    "rh_answers ?h = rh_answers h" "rh_calls ?h = rh_calls h" "rh_reader ?h = Answer a env"
    by (simp_all add: remove_pending_def)
  have pend: "rh_pending ?h = AList.delete (re_env_id env) (rh_pending h)"
    by (simp add: remove_pending_def)
  have P: "pending_ok h" using assms(1) by (simp add: handle_ok_def)
  then have d: "distinct (map snd (rh_pending h))" "distinct (map fst (rh_pending h))"
    by (simp_all add: pending_ok_def)
  have reg: "registered ?h b \<longleftrightarrow> registered h b \<and> b \<noteq> a" for b
    using delete_snd [OF d assms(3)] unfolding registered_iff pend by simp
  have "pending_ok ?h"
    using P unfolding pending_ok_def same pend by (auto simp: AList.delete_eq distinct_map_filter)
  moreover have "answer_ok ?h b \<and> result_ok ?h b" if "b < length (rh_calls h)" for b
    using assms(1,2) that unfolding handle_ok_def answer_ok_def result_ok_def same reg answer_in_hand_def
    by auto
  moreover have "reader_ok ?h" using a reg [of a] unfolding reader_ok_def same by simp
  moreover have "rh_exit h \<noteq> Running \<longrightarrow> rh_closed h \<and> rh_pending ?h = []"
    using assms(1) unfolding pend handle_ok_def by auto
  ultimately show ?thesis
    using assms(1) unfolding handle_ok_def same by simp
qed

lemma read_line_ok:
  assumes "handle_ok h" "rh_reader h = Idle"
  shows "handle_ok (read_line now s h)"
  using take_pending_ok [OF assms] reader_idle_ok [OF assms(1)] assms
  by (auto simp: read_line_def Let_def split: option.split)

lemma deliver_ok:
  assumes "handle_ok h"
  shows "\<exists>h'. deliver h = Some h' \<and> handle_ok h'"
proof (cases "rh_reader h")
  case (Answer a env)
  let ?h = "h\<lparr>rh_reader := Idle, rh_answers := (rh_answers h)[a := \<lparr>ch_buf = [env], ch_closed = True\<rparr>]\<rparr>"
  have a: "a < length (rh_calls h)" "rh_answers h ! a = new_chan" "\<not> registered h a"
    "re_env_id env = rc_id (rh_calls h ! a)" "length (rh_answers h) = length (rh_calls h)"
    using assms Answer by (auto simp: handle_ok_def reader_ok_def)
  have ans: "rh_answers ?h ! b = (if b = a then \<lparr>ch_buf = [env], ch_closed = True\<rparr> else rh_answers h ! b)" for b
    using a by (simp add: nth_list_update)
  have hand: "answer_in_hand ?h b = False" "answer_in_hand h b = (b = a)" for b
    using Answer by (auto simp: answer_in_hand_def)
  have reg: "registered ?h b = registered h b" for b by (simp add: registered_def)
  have "snd p \<noteq> a" if "p \<in> set (rh_pending h)" for p
    using a(3) that by (cases p) (auto simp: registered_def)
  then have "pending_ok ?h"
    using assms unfolding handle_ok_def pending_ok_def ans by simp
  moreover have "reader_ok ?h" by (simp add: reader_ok_def)
  moreover have "answer_ok ?h b \<and> result_ok ?h b" if "b < length (rh_calls h)" for b
    using assms that a(4) hand ans reg unfolding handle_ok_def answer_ok_def result_ok_def by auto
  ultimately have "handle_ok ?h"
    using assms unfolding handle_ok_def by simp
  moreover have "deliver h = Some ?h" using Answer a by (simp add: deliver_def)
  ultimately show ?thesis by blast
qed (use assms in \<open>simp_all add: deliver_def\<close>)

lemma emit_next_ok:
  assumes "handle_ok h" "handle_enabled Emit_Next h"
  shows "\<exists>h'. emit_next h = Some h' \<and> handle_ok h'"
proof -
  obtain es where es: "rh_reader h = Emit es" using assms(2) by (auto split: reader.splits)
  show ?thesis
  proof (cases es)
    case Nil
    then show ?thesis using es reader_idle_ok [OF assms(1), of Idle] by (simp add: emit_next_def)
  next
    case (Cons e rest)
    have "broker_ok subscriber_capacity (rh_broker h)" using assms(1) by (simp add: handle_ok_def)
    from broadcast_ok [OF this, of e] obtain b where
      b: "bk_broadcast subscriber_capacity e (rh_broker h) = Some b" "broker_ok subscriber_capacity b"
      by blast
    have "handle_ok (h\<lparr>rh_reader := Emit rest\<rparr>)" by (rule reader_idle_ok [OF assms(1)]) (simp_all add: es)
    then have "handle_ok (h\<lparr>rh_reader := Emit rest, rh_broker := b\<rparr>)"
      by (rule handle_ok_frame) (simp_all add: b(2))
    then show ?thesis using es Cons b(1) by (simp add: emit_next_def broadcast_event_def)
  qed
qed

lemma reap_ok:
  assumes "handle_ok h"
  shows "\<exists>h'. reap h = Some h' \<and> handle_ok h' \<and> rh_exit h' = Reaped \<and> rh_calls h' = rh_calls h \<and>
    (\<forall>a. registered h a \<longrightarrow> ch_closed (rh_answers h' ! a) \<and> ch_buf (rh_answers h' ! a) = [])"
proof -
  let ?as = "map snd (rh_pending h)"
  have P: "pending_ok h" "length (rh_answers h) = length (rh_calls h)"
    using assms by (simp_all add: handle_ok_def)
  have "distinct ?as" "\<forall>a\<in>set ?as. a < length (rh_answers h) \<and> \<not> ch_closed (rh_answers h ! a)"
    using P by (auto simp: pending_ok_def)
  from close_each_open [OF this] obtain as where as: "close_each ?as (rh_answers h) = Some as"
    "length as = length (rh_answers h)"
    "\<forall>i<length (rh_answers h). as ! i = (if i \<in> set ?as then (rh_answers h ! i)\<lparr>ch_closed := True\<rparr> else rh_answers h ! i)"
    by blast
  obtain b where b: "bk_close_all (rh_broker h) = Some b" "broker_ok subscriber_capacity b"
    using close_all_ok [of subscriber_capacity "rh_broker h"] assms by (auto simp: handle_ok_def)
  let ?h = "h\<lparr>rh_pending := [], rh_answers := as, rh_broker := b, rh_closed := True, rh_exit := Reaped\<rparr>"
  have as': "as ! a = (if registered h a then (rh_answers h ! a)\<lparr>ch_closed := True\<rparr> else rh_answers h ! a)"
    if "a < length (rh_calls h)" for a
    using as(3) that P(2) by (simp add: registered_iff del: set_map)
  have reg: "a < length (rh_calls h) \<and> rh_answers h ! a = new_chan" if "registered h a" for a
    using P that by (auto simp: registered_def pending_ok_def)
  have "reader_ok ?h"
    using assms as' unfolding handle_ok_def reader_ok_def by (auto simp: registered_def split: reader.split)
  moreover have "answer_ok ?h a \<and> result_ok ?h a" if a: "a < length (rh_calls h)" for a
  proof -
    have "answer_ok h a" "result_ok h a" using assms a by (simp_all add: handle_ok_def)
    then show ?thesis
      using as' [OF a] unfolding answer_ok_def result_ok_def answer_in_hand_def by auto
  qed
  ultimately have "handle_ok ?h"
    using assms b(2) as(2) unfolding handle_ok_def by (simp add: pending_ok_def)
  then show ?thesis
    using as(1) b(1) reg as' by (simp add: reap_def)
qed

lemma finish_ok:
  assumes "handle_ok h" "rh_exit h = Reaped"
  shows "handle_ok (finish h)"
proof -
  have "registered (finish h) a = registered h a" "answer_in_hand (finish h) a = answer_in_hand h a" for a
    by (simp_all add: registered_def answer_in_hand_def finish_def)
  then show ?thesis
    using assms unfolding handle_ok_def pending_ok_def reader_ok_def answer_ok_def result_ok_def
    by (simp add: finish_def cong: reader.case_cong)
qed

lemma subscribe_handle_ok:
  assumes "handle_ok h" "next_unused (rh_broker h)"
  shows "handle_ok (snd (rpc_subscribe h))"
proof -
  have "broker_ok subscriber_capacity (snd (bk_subscribe (rh_broker h)))"
    using subscribe_ok assms unfolding handle_ok_def by blast
  then have "handle_ok (h\<lparr>rh_broker := snd (bk_subscribe (rh_broker h))\<rparr>)"
    by (intro handle_ok_frame [OF assms(1)]) simp_all
  then show ?thesis by (simp add: rpc_subscribe_def split_beta)
qed

lemma unsubscribe_handle_ok:
  assumes "handle_ok h"
  shows "\<exists>h'. rpc_unsubscribe i h = Some h' \<and> handle_ok h'"
proof -
  obtain b where b: "bk_unsubscribe i (rh_broker h) = Some b" "broker_ok subscriber_capacity b"
    using unsubscribe_ok assms unfolding handle_ok_def by blast
  have "handle_ok (h\<lparr>rh_broker := b\<rparr>)" by (rule handle_ok_frame [OF assms]) (simp_all add: b(2))
  then show ?thesis using b(1) by (simp add: rpc_unsubscribe_def)
qed

lemma recv_handle_ok:
  assumes "handle_ok h"
  shows "handle_ok (snd (rpc_recv a h))"
proof -
  have "broker_ok subscriber_capacity (snd (bk_recv a (rh_broker h)))"
    using recv_ok assms unfolding handle_ok_def by blast
  then have "handle_ok (h\<lparr>rh_broker := snd (bk_recv a (rh_broker h))\<rparr>)"
    by (intro handle_ok_frame [OF assms]) simp_all
  then show ?thesis by (simp add: rpc_recv_def split_beta)
qed

lemma handle_apply_ok:
  assumes "handle_ok h" "handle_enabled e h"
  shows "\<exists>h'. handle_apply e h = Some h' \<and> handle_ok h'"
proof (cases e)
  case (Begin p) then show ?thesis using begin_command_ok assms by simp
next
  case (Write_Ok i) then show ?thesis using write_command_ok assms by simp
next
  case (Write_Failed i err) then show ?thesis using fail_call_ok assms by (simp add: call_in_def)
next
  case (Context_Ended i err) then show ?thesis using fail_call_ok assms by (simp add: call_in_def)
next
  case (See_Exit i) then show ?thesis using fail_call_ok assms by (simp add: call_in_def)
next
  case (Take_Answer i) then show ?thesis using take_answer_ok [of h i] assms by simp
next
  case (Read_Line now s) then show ?thesis using read_line_ok assms by simp
next
  case Deliver then show ?thesis using deliver_ok assms by simp
next
  case Emit_Next then show ?thesis using emit_next_ok assms by simp
next
  case Reap then show ?thesis using reap_ok [OF assms(1)] by auto
next
  case Finish then show ?thesis using finish_ok assms by simp
next
  case Close_Begin
  have "handle_ok (h\<lparr>rh_closed := True\<rparr>)"
    by (rule handle_ok_frame [OF assms(1)]) (use assms(1) in \<open>simp_all add: handle_ok_def\<close>)
  then show ?thesis using Close_Begin by (simp add: close_begin_def)
next
  case Rpc_Subscribe then show ?thesis using subscribe_handle_ok assms by simp
next
  case (Rpc_Unsubscribe i) then show ?thesis using unsubscribe_handle_ok assms by simp
next
  case (Rpc_Recv a) then show ?thesis using recv_handle_ok assms by simp
next
  case (Ui_Response err r)
  have "handle_ok (h\<lparr>rh_stdin := l\<rparr>)" for l
    by (rule handle_ok_frame [OF assms(1)]) (use assms(1) in \<open>simp_all add: handle_ok_def\<close>)
  then show ?thesis using Ui_Response assms(1) by (simp add: send_ui_response_def split: option.split)
qed

lemma reachable_ok: "handle_reachable h \<Longrightarrow> handle_ok h"
proof (induction rule: handle_reachable.induct)
  case start
  show ?case by (rule new_rpc_handle_ok)
next
  case (step h e h')
  then show ?case using handle_apply_ok [of h e] by auto
qed

section \<open>Properties\<close>

text \<open>A sample run: an \<open>abort\<close> command is sent and the process answers it.\<close>

definition answer_line :: string where
  "answer_line = json_print (JObj [(''type'', JStr ''response''), (''id'', JStr ''req-1'')]) @ [CHR 0x0A]"

definition asked :: "handle_op list" where
  "asked = [Begin abort_payload, Write_Ok 0]"

definition answered :: "handle_op list" where
  "answered = asked @ [Read_Line [] answer_line, Deliver, Take_Answer 0]"

lemma runs_reachable:
  "handle_run es new_rpc_handle \<noteq> None \<Longrightarrow> handle_reachable (the (handle_run es new_rpc_handle))"
  by (auto intro: handle_run_reachable handle_reachable.start)

text \<open>C8: In every reachable state of a handle, no step of any goroutine sends on a closed channel, closes
  one twice, or leaves the reader blocked on a full answer channel, whatever the interleaving of
  callers, reader, reaper and subscribers.\<close>

theorem handle_never_panics:
  assumes "handle_reachable h" "handle_enabled e h"
  shows "handle_apply e h \<noteq> None"
  using handle_apply_ok [OF reachable_ok [OF assms(1)] assms(2)] by auto

theorem handle_never_panics_witness:
  "handle_apply Reap (the (handle_run answered new_rpc_handle)) \<noteq> None"
proof -
  have "handle_run answered new_rpc_handle \<noteq> None" by code_simp
  then have "handle_reachable (the (handle_run answered new_rpc_handle))" by (rule runs_reachable)
  moreover have "handle_enabled Reap (the (handle_run answered new_rpc_handle))" by code_simp
  ultimately show ?thesis by (rule handle_never_panics)
qed

text \<open>A command that succeeds got the answer that carries its own id; the one other success is the
  empty answer of a channel that the reaper closed. No caller is given another caller's answer.\<close>

theorem answers_matched:
  assumes "handle_reachable h" "i < length (rh_calls h)"
    "rc_status (rh_calls h ! i) = Returned (Inr env)"
  shows "re_env_id env = rc_id (rh_calls h ! i) \<or> env = zero_envelope \<and> rh_exit h \<noteq> Running"
  using reachable_ok [OF assms(1)] assms(2,3) by (simp add: handle_ok_def result_ok_def)

lemma answered_state:
  "handle_run answered new_rpc_handle \<noteq> None"
  "length (rh_calls (the (handle_run answered new_rpc_handle))) = 1"
  "rc_status (rh_calls (the (handle_run answered new_rpc_handle)) ! 0) =
     Returned (Inr (zero_envelope\<lparr>re_env_type := ''response'', re_env_id := ''req-1''\<rparr>))"
  by code_simp+

theorem answers_matched_witness:
  "let h = the (handle_run answered new_rpc_handle);
       env = zero_envelope\<lparr>re_env_type := ''response'', re_env_id := ''req-1''\<rparr> in
     re_env_id env = rc_id (rh_calls h ! 0) \<or> env = zero_envelope \<and> rh_exit h \<noteq> Running"
  unfolding Let_def
  by (rule answers_matched [OF runs_reachable [OF answered_state(1)] _ answered_state(3)])
    (simp add: answered_state)

text \<open>C19: No caller is forgotten: a call that waits is registered under its id, or the reader is about to
  send to it, or it can receive now. So once the reaper has run and the reader is idle, every
  waiting call can return.\<close>

theorem waiting_call_is_served:
  assumes "handle_reachable h" "call_in i Waiting h"
  shows "(registered h i \<and> rh_exit h = Running) \<or> answer_in_hand h i \<or> handle_enabled (Take_Answer i) h"
proof -
  have ok: "handle_ok h" by (rule reachable_ok [OF assms(1)])
  then have "registered h i \<or> answer_in_hand h i \<or> ch_closed (rh_answers h ! i)"
    using assms(2) by (auto simp: handle_ok_def answer_ok_def call_in_def unanswered_def)
  moreover have "rh_exit h = Running" if "registered h i"
    using ok that by (auto simp: handle_ok_def registered_def)
  ultimately show ?thesis using assms(2) by auto
qed

lemma asked_state:
  "handle_run asked new_rpc_handle \<noteq> None" "call_in 0 Waiting (the (handle_run asked new_rpc_handle))"
  "map_of (rh_pending (the (handle_run asked new_rpc_handle))) (rc_id (rh_calls (the (handle_run asked new_rpc_handle)) ! 0)) = Some 0"
  "rh_reader (the (handle_run asked new_rpc_handle)) = Idle"
  "rh_exit (the (handle_run asked new_rpc_handle)) = Running"
  "rc_id (rh_calls (the (handle_run asked new_rpc_handle)) ! 0) = ''req-1''"
  by code_simp+

theorem waiting_call_is_served_witness:
  "let h = the (handle_run asked new_rpc_handle) in
     (registered h 0 \<and> rh_exit h = Running) \<or> answer_in_hand h 0 \<or> handle_enabled (Take_Answer 0) h"
  unfolding Let_def
  by (rule waiting_call_is_served [OF runs_reachable [OF asked_state(1)] asked_state(2)])

definition answer_ops :: "nat \<Rightarrow> string \<Rightarrow> handle_op list" where
  "answer_ops i line = [Read_Line [] line, Deliver, Take_Answer i]"

lemma response_served:
  assumes "handle_reachable h" "call_in i Waiting h" "rh_reader h = Idle"
    "map_of (rh_pending h) (rc_id (rh_calls h ! i)) = Some i"
    "line_envelope (strip_line line) = Some env" "re_env_type env = ''response''"
    "re_env_id env = rc_id (rh_calls h ! i)"
  shows "map_option (\<lambda>h'. rc_status (rh_calls h' ! i)) (handle_run (answer_ops i line) h) =
    Some (Returned (command_result env))"
proof -
  note i = map_of_pending [OF reachable_ok [OF assms(1)] assms(4)]
  have "length (rh_answers h) = length (rh_calls h)"
    using reachable_ok [OF assms(1)] by (simp add: handle_ok_def)
  then show ?thesis
    using i assms
    by (simp add: answer_ops_def read_line_def remove_pending_def deliver_def take_answer_def recv_def
        set_status_def call_in_def)
qed

text \<open>C21: The answer of the process reaches the caller whose id it carries: the reader's line, its send and
  the caller's receive, with nothing in between, return what \<open>sendCommand\<close> makes of the envelope.\<close>

theorem response_reaches_caller:
  assumes "handle_reachable h" "call_in i Waiting h" "rh_reader h = Idle"
    "map_of (rh_pending h) (rc_id (rh_calls h ! i)) = Some i"
    "line_envelope (strip_line line) = Some env" "re_env_type env = ''response''"
    "re_env_id env = rc_id (rh_calls h ! i)"
  shows "map_option (\<lambda>h'. rc_status (rh_calls h' ! i)) (handle_run (answer_ops i line) h) =
    Some (Returned (command_result env))"
  by (rule response_served [OF assms])

theorem response_reaches_caller_witness:
  "map_option (\<lambda>h'. rc_status (rh_calls h' ! 0))
     (handle_run (answer_ops 0 answer_line) (the (handle_run asked new_rpc_handle))) =
   Some (Returned (Inr (zero_envelope\<lparr>re_env_type := ''response'', re_env_id := ''req-1''\<rparr>)))"
proof -
  let ?env = "zero_envelope\<lparr>re_env_type := ''response'', re_env_id := ''req-1''\<rparr>"
  have "line_envelope (strip_line answer_line) = Some ?env" by code_simp
  moreover have "command_result ?env = Inr ?env" by code_simp
  ultimately show ?thesis
    using response_reaches_caller [OF runs_reachable [OF asked_state(1)] asked_state(2,4), of answer_line ?env]
      asked_state(3,6)
    by simp
qed

definition backlog :: "rpc_handle \<Rightarrow> nat" where
  "backlog h = (case rh_reader h of Idle \<Rightarrow> 0 | Answer a env \<Rightarrow> 1 | Emit es \<Rightarrow> Suc (length es))"

lemma drain_events:
  assumes "handle_ok h" "rh_reader h = Emit es"
  shows "\<exists>h'. handle_run (replicate (Suc (length es)) Emit_Next) h = Some h' \<and> handle_ok h' \<and>
    rh_reader h' = Idle \<and> rh_calls h' = rh_calls h \<and> rh_exit h' = rh_exit h"
  using assms
proof (induction es arbitrary: h)
  case Nil
  then show ?case using reader_idle_ok [OF Nil(1), of Idle] by (simp add: emit_next_def)
next
  case (Cons e es)
  obtain h1 where h1: "emit_next h = Some h1" "handle_ok h1"
    using emit_next_ok [OF Cons.prems(1)] Cons.prems(2) by auto
  then have same: "rh_reader h1 = Emit es" "rh_calls h1 = rh_calls h" "rh_exit h1 = rh_exit h"
    using Cons.prems(2) by (auto simp: emit_next_def broadcast_event_def split: option.splits)
  from Cons.IH [OF h1(2) same(1)] show ?case using h1(1) same Cons.prems(2) by auto
qed

lemma drain_reader:
  assumes "handle_ok h"
  shows "\<exists>ops h'. set ops \<subseteq> {Deliver, Emit_Next} \<and> length ops = backlog h \<and> handle_run ops h = Some h' \<and>
    handle_ok h' \<and> rh_reader h' = Idle \<and> rh_calls h' = rh_calls h \<and> rh_exit h' = rh_exit h"
proof (cases "rh_reader h")
  case Idle
  then show ?thesis using assms by (intro exI [of _ "[]"]) (simp add: backlog_def)
next
  case (Answer a env)
  obtain h1 where h1: "deliver h = Some h1" "handle_ok h1" using deliver_ok [OF assms] by blast
  then have "rh_reader h1 = Idle" "rh_calls h1 = rh_calls h" "rh_exit h1 = rh_exit h"
    using Answer by (auto simp: deliver_def split: if_splits)
  then show ?thesis using h1 Answer by (intro exI [of _ "[Deliver]"]) (simp add: backlog_def)
next
  case (Emit es)
  from drain_events [OF assms this] obtain h1 where
    h1: "handle_run (replicate (Suc (length es)) Emit_Next) h = Some h1" "handle_ok h1" "rh_reader h1 = Idle"
      "rh_calls h1 = rh_calls h" "rh_exit h1 = rh_exit h"
    by blast
  show ?thesis
  proof (intro exI conjI)
    show "handle_run (replicate (Suc (length es)) Emit_Next) h = Some h1" by (rule h1(1))
  qed (use h1 Emit in \<open>auto simp: backlog_def\<close>)
qed

lemma handle_run_append:
  "handle_run xs h = Some h1 \<Longrightarrow> handle_run (xs @ ys) h = handle_run ys h1"
  by (induction xs arbitrary: h) (auto simp: bind_eq_Some_conv split: if_splits)

text \<open>C14: Nobody waits for ever on a dead process: the reader gets through what it has in hand in a bounded
  number of its own steps, the reaper then runs, and from there every waiting call can return.\<close>

theorem exit_unblocks_callers:
  assumes "handle_reachable h" "rh_exit h = Running"
  shows "\<exists>ops h'. set ops \<subseteq> {Deliver, Emit_Next, Reap} \<and> length ops = backlog h + 1 \<and>
    handle_run ops h = Some h' \<and> rh_calls h' = rh_calls h \<and>
    (\<forall>i. call_in i Waiting h' \<longrightarrow> handle_enabled (Take_Answer i) h')"
proof -
  obtain ops h1 where ops: "set ops \<subseteq> {Deliver, Emit_Next}" "length ops = backlog h" "handle_run ops h = Some h1"
    and h1: "handle_ok h1" "rh_reader h1 = Idle" "rh_calls h1 = rh_calls h" "rh_exit h1 = rh_exit h"
    using drain_reader [OF reachable_ok [OF assms(1)]] by blast
  obtain h2 where h2: "reap h1 = Some h2" "handle_ok h2" "rh_exit h2 = Reaped" "rh_calls h2 = rh_calls h1"
    using reap_ok [OF h1(1)] by blast
  have "rh_reader h2 = Idle" "rh_pending h2 = []"
    using h2(1) h1(2) by (auto simp: reap_def split: option.splits)
  then have "handle_enabled (Take_Answer i) h2" if "call_in i Waiting h2" for i
    using h2(2) that
    by (auto simp: handle_ok_def answer_ok_def call_in_def unanswered_def registered_def answer_in_hand_def)
  moreover have "handle_run (ops @ [Reap]) h = Some h2"
    using ops(3) h2(1) h1(4) assms(2) by (simp add: handle_run_append [OF ops(3)])
  ultimately show ?thesis
    using ops(1,2) h1(3) h2(4) by (intro exI [of _ "ops @ [Reap]"] exI [of _ h2]) auto
qed

theorem exit_unblocks_callers_witness:
  "\<exists>ops h'. handle_run ops (the (handle_run asked new_rpc_handle)) = Some h' \<and>
     rh_calls h' = rh_calls (the (handle_run asked new_rpc_handle)) \<and> length ops = 1"
proof -
  have "backlog (the (handle_run asked new_rpc_handle)) = 0" using asked_state(4) by (simp add: backlog_def)
  then show ?thesis
    using exit_unblocks_callers [OF runs_reachable [OF asked_state(1)] asked_state(5)] by auto
qed

lemma reap_returns_empty:
  assumes "handle_reachable h" "call_in i Waiting h" "registered h i"
  shows "\<not> handle_enabled (See_Exit i) (the (handle_run [Reap] h)) \<and>
    map_option (\<lambda>h'. rc_status (rh_calls h' ! i)) (handle_run [Reap, Take_Answer i] h) =
      Some (Returned (Inr zero_envelope))"
proof -
  have ok: "handle_ok h" by (rule reachable_ok [OF assms(1)])
  have run: "rh_exit h = Running" using ok assms(3) by (auto simp: handle_ok_def registered_def)
  obtain h' where h': "reap h = Some h'" "rh_exit h' = Reaped" "rh_calls h' = rh_calls h"
    "ch_closed (rh_answers h' ! i)" "ch_buf (rh_answers h' ! i) = []"
    using reap_ok [OF ok] assms(3) by auto
  have "command_result zero_envelope = Inr zero_envelope" by (simp add: command_result_def zero_envelope_def)
  then show ?thesis
    using assms(2) h' run by (simp add: call_in_def take_answer_def recv_def set_status_def)
qed

text \<open>When the process ends while a command waits, the reaper closes the command's channel before it
  closes \<open>done\<close>. The caller can then receive the zero envelope, whose \<open>success\<close> is nil, so the command
  returns without an error although the process exited; the case that reports the exit is not ready yet.\<close>

theorem exit_reported_as_success:
  assumes "handle_reachable h" "call_in i Waiting h" "registered h i"
  shows "\<not> handle_enabled (See_Exit i) (the (handle_run [Reap] h)) \<and>
    map_option (\<lambda>h'. rc_status (rh_calls h' ! i)) (handle_run [Reap, Take_Answer i] h) =
      Some (Returned (Inr zero_envelope))"
  by (rule reap_returns_empty [OF assms])

theorem exit_reported_as_success_witness:
  "map_option (\<lambda>h'. rc_status (rh_calls h' ! 0)) (handle_run [Reap, Take_Answer 0] (the (handle_run asked new_rpc_handle))) =
     Some (Returned (Inr zero_envelope))"
proof -
  have "registered (the (handle_run asked new_rpc_handle)) 0"
    using map_of_SomeD [OF asked_state(3)] unfolding registered_def by blast
  then show ?thesis
    using exit_reported_as_success [OF runs_reachable [OF asked_state(1)] asked_state(2)] by simp
qed

end
