(* ===== verification/Rpc_Spec.thy ===== *)
theory Rpc_Spec
  imports Rpc_Handle Refinement
begin

text \<open>
  What a handle promises to the callers of \<open>sendCommand\<close>, without channels, maps or goroutines: a
  table of calls, each outstanding, answered by an envelope that carries its id, abandoned because
  the process ended, or over with its result. The handle of \<open>Rpc_Handle\<close> refines it: every step of
  every goroutine is one event of the table or invisible to it.
\<close>

section \<open>The call table\<close>

datatype call_phase = Outstanding | Answered rpc_envelope | Abandoned | Over "string + rpc_envelope"

record call_table =
  ct_calls :: "(string \<times> call_phase) list"
  ct_open :: bool
  ct_exited :: bool

datatype call_event =
    Issue string
  | Reply nat rpc_envelope
  | Collect nat
  | Give_Up nat string
  | Shut
  | Exit

text \<open>An abandoned call cannot be told from one answered by the empty envelope.\<close>

fun collected :: "call_phase \<Rightarrow> (string + rpc_envelope) option" where
  "collected (Answered env) = Some (command_result env)"
| "collected Abandoned = Some (command_result zero_envelope)"
| "collected _ = None"

fun is_over :: "call_phase \<Rightarrow> bool" where
  "is_over (Over r) = True"
| "is_over _ = False"

definition abandon :: "string \<times> call_phase \<Rightarrow> string \<times> call_phase" where
  "abandon c = (if snd c = Outstanding then (fst c, Abandoned) else c)"

definition set_phase :: "nat \<Rightarrow> call_phase \<Rightarrow> call_table \<Rightarrow> call_table" where
  "set_phase i p t = t\<lparr>ct_calls := (ct_calls t)[i := (fst (ct_calls t ! i), p)]\<rparr>"

definition phase :: "call_table \<Rightarrow> nat \<Rightarrow> call_phase" where
  "phase t i = snd (ct_calls t ! i)"

fun table_step :: "call_event \<Rightarrow> call_table \<Rightarrow> call_table option" where
  "table_step (Issue rid) t =
     (if rid \<in> fst ` set (ct_calls t) then None
      else Some (t\<lparr>ct_calls := ct_calls t @
        [(rid, if ct_open t then Outstanding else Over (Inl ''agent handle is closed''))]\<rparr>))"
| "table_step (Reply i env) t =
     (if i < length (ct_calls t) \<and> phase t i = Outstanding \<and> re_env_id env = fst (ct_calls t ! i)
      then Some (set_phase i (Answered env) t) else None)"
| "table_step (Collect i) t =
     (if length (ct_calls t) \<le> i then None
      else map_option (\<lambda>r. set_phase i (Over r) t) (collected (phase t i)))"
| "table_step (Give_Up i msg) t =
     (if i < length (ct_calls t) \<and> \<not> is_over (phase t i) then Some (set_phase i (Over (Inl msg)) t) else None)"
| "table_step Shut t = Some (t\<lparr>ct_open := False\<rparr>)"
| "table_step Exit t =
     (if ct_exited t then None
      else Some (t\<lparr>ct_calls := map abandon (ct_calls t), ct_open := False, ct_exited := True\<rparr>))"

section \<open>The table of a handle\<close>

definition chan_phase :: "rpc_envelope chan \<Rightarrow> call_phase" where
  "chan_phase c =
     (case ch_buf c of env # _ \<Rightarrow> Answered env | [] \<Rightarrow> if ch_closed c then Abandoned else Outstanding)"

text \<open>A call is answered from the moment the reader takes it out of \<open>pending\<close>.\<close>

definition live_phase :: "rpc_handle \<Rightarrow> nat \<Rightarrow> call_phase" where
  "live_phase h a =
     (case rh_reader h of
        Answer b env \<Rightarrow> if b = a then Answered env else chan_phase (rh_answers h ! a)
      | _ \<Rightarrow> chan_phase (rh_answers h ! a))"

definition handle_phase :: "rpc_handle \<Rightarrow> nat \<Rightarrow> call_phase" where
  "handle_phase h a =
     (case rc_status (rh_calls h ! a) of Returned r \<Rightarrow> Over r | _ \<Rightarrow> live_phase h a)"

definition call_table_of :: "rpc_handle \<Rightarrow> call_table" where
  "call_table_of h =
     \<lparr>ct_calls = map (\<lambda>a. (rc_id (rh_calls h ! a), handle_phase h a)) [0..<length (rh_calls h)],
      ct_open = \<not> rh_closed h, ct_exited = (rh_exit h \<noteq> Running)\<rparr>"

text \<open>The event of a step. A line of the process's output counts when it answers a registered call.\<close>

fun handle_event :: "handle_op \<Rightarrow> rpc_handle \<Rightarrow> call_event option" where
  "handle_event (Begin payload) h = Some (Issue (next_request h))"
| "handle_event (Write_Failed i err) h = Some (Give_Up i (''write command: '' @ err))"
| "handle_event (Context_Ended i err) h = Some (Give_Up i err)"
| "handle_event (See_Exit i) h = Some (Give_Up i ''pi process exited'')"
| "handle_event (Take_Answer i) h = Some (Collect i)"
| "handle_event (Read_Line now s) h =
     (case line_envelope (strip_line s) of
        None \<Rightarrow> None
      | Some env \<Rightarrow>
          if re_env_type env = ''response''
          then map_option (\<lambda>a. Reply a env) (map_of (rh_pending h) (re_env_id env)) else None)"
| "handle_event Close_Begin h = Some Shut"
| "handle_event Reap h = Some Exit"
| "handle_event _ h = None"

definition handle_step :: "handle_op \<Rightarrow> rpc_handle \<Rightarrow> rpc_handle option" where
  "handle_step e h = (if handle_enabled e h then handle_apply e h else None)"

lemma handle_run_attempt: "handle_run es h = attempt handle_step es h"
  by (induction es arbitrary: h) (auto simp: handle_step_def intro!: arg_cong2 [of _ _ _ _ Option.bind])

section \<open>Facts\<close>

lemma call_table_of_simps [simp]:
  "length (ct_calls (call_table_of h)) = length (rh_calls h)"
  "a < length (rh_calls h) \<Longrightarrow> ct_calls (call_table_of h) ! a = (rc_id (rh_calls h ! a), handle_phase h a)"
  "ct_open (call_table_of h) = (\<not> rh_closed h)"
  "ct_exited (call_table_of h) = (rh_exit h \<noteq> Running)"
  by (simp_all add: call_table_of_def)

lemma phase_call_table [simp]: "a < length (rh_calls h) \<Longrightarrow> phase (call_table_of h) a = handle_phase h a"
  by (simp add: phase_def)

lemma ids_call_table: "fst ` set (ct_calls (call_table_of h)) = set (map rc_id (rh_calls h))"
  by (force simp: call_table_of_def in_set_conv_nth)

lemma table_eqI:
  assumes "length (ct_calls t) = length (ct_calls u)"
    "\<And>a. a < length (ct_calls u) \<Longrightarrow> ct_calls t ! a = ct_calls u ! a"
    "ct_open t = ct_open u" "ct_exited t = ct_exited u"
  shows "t = (u :: call_table)"
proof -
  have "ct_calls t = ct_calls u" using assms(1,2) by (intro nth_equalityI) simp_all
  then show ?thesis using assms(3,4) by simp
qed

lemma set_phase_simps [simp]:
  "length (ct_calls (set_phase i p t)) = length (ct_calls t)"
  "ct_open (set_phase i p t) = ct_open t" "ct_exited (set_phase i p t) = ct_exited t"
  "a < length (ct_calls t) \<Longrightarrow>
     ct_calls (set_phase i p t) ! a = (if a = i then (fst (ct_calls t ! i), p) else ct_calls t ! a)"
  by (simp_all add: set_phase_def nth_list_update)


lemma live_phase_cong:
  "rh_answers h' ! a = rh_answers h ! a \<Longrightarrow> rh_reader h' = rh_reader h \<Longrightarrow> live_phase h' a = live_phase h a"
  by (simp add: live_phase_def split: reader.split)

text \<open>What a call looks like depends on its own entry, its channel and the reader's hand.\<close>

lemma handle_phase_cong:
  assumes "rh_calls h' ! a = rh_calls h ! a" "rh_answers h' ! a = rh_answers h ! a" "rh_reader h' = rh_reader h"
  shows "handle_phase h' a = handle_phase h a"
proof -
  have "live_phase h' a = live_phase h a" using assms(2,3) by (rule live_phase_cong)
  then show ?thesis using assms(1) by (simp add: handle_phase_def split: call_status.split)
qed

lemma handle_phase_Returned: "rc_status (rh_calls h ! a) = Returned r \<Longrightarrow> handle_phase h a = Over r"
  by (simp add: handle_phase_def)

lemma handle_phase_unanswered: "unanswered (rh_calls h ! a) \<Longrightarrow> handle_phase h a = live_phase h a"
  by (auto simp: handle_phase_def unanswered_def)

lemma live_not_over [simp]: "live_phase h a \<noteq> Over r"
  by (simp add: live_phase_def chan_phase_def split: reader.split list.split)

lemma unanswered_not_over: "unanswered (rh_calls h ! a) \<Longrightarrow> \<not> is_over (handle_phase h a)"
  using live_not_over by (cases "handle_phase h a") (auto simp: handle_phase_unanswered)

lemma registered_outstanding:
  assumes "handle_ok h" "registered h a"
  shows "live_phase h a = Outstanding" "a < length (rh_calls h)"
  using assms
  by (auto simp: handle_ok_def pending_ok_def reader_ok_def registered_def live_phase_def chan_phase_def
      split: reader.split)

lemma outstanding_registered:
  assumes "handle_ok h" "a < length (rh_calls h)" "handle_phase h a = Outstanding"
  shows "registered h a"
proof -
  have "unanswered (rh_calls h ! a)"
    using assms(3) by (cases "rc_status (rh_calls h ! a)") (auto simp: handle_phase_def unanswered_def)
  then show ?thesis
    using assms
    by (auto simp: handle_ok_def answer_ok_def handle_phase_unanswered live_phase_def chan_phase_def
        answer_in_hand_def split: reader.splits list.splits if_splits)
qed

section \<open>One case for each kind of step\<close>

lemma frame_table:
  assumes "rh_calls h' = rh_calls h" "rh_answers h' = rh_answers h" "rh_exit h' \<noteq> Running \<longleftrightarrow> rh_exit h \<noteq> Running"
    "rh_closed h' = rh_closed h"
    "rh_reader h' = rh_reader h \<or> (\<forall>a env. rh_reader h \<noteq> Answer a env \<and> rh_reader h' \<noteq> Answer a env)"
  shows "call_table_of h' = call_table_of h"
proof (rule table_eqI)
  fix a assume "a < length (ct_calls (call_table_of h))"
  then show "ct_calls (call_table_of h') ! a = ct_calls (call_table_of h) ! a"
    using assms by (auto simp: handle_phase_def live_phase_def split: call_status.split reader.split)
qed (use assms in auto)

lemma begin_table:
  assumes "handle_ok h" "handle_enabled (Begin p) h"
  shows "table_step (Issue (next_request h)) (call_table_of h) = Some (call_table_of (begin_command p h))"
proof -
  let ?h = "begin_command p h" and ?n = "length (rh_calls h)"
  have len: "length (rh_answers h) = ?n" and hand: "\<And>a env. rh_reader h = Answer a env \<Longrightarrow> a < ?n"
    using assms(1) by (auto simp: handle_ok_def reader_ok_def)
  have old: "rh_calls ?h ! a = rh_calls h ! a" "rh_answers ?h ! a = rh_answers h ! a" "rh_reader ?h = rh_reader h"
    if "a < ?n" for a
    using that len by (simp_all add: begin_command_def Let_def nth_append)
  have "handle_phase ?h ?n = (if rh_closed h then Over (Inl ''agent handle is closed'') else Outstanding)"
    using len hand
    by (auto simp: begin_command_def Let_def nth_append handle_phase_def live_phase_def chan_phase_def
        split: reader.split)
  moreover have "rc_id (rh_calls ?h ! ?n) = next_request h" "length (rh_calls ?h) = Suc ?n"
    "rh_closed ?h = rh_closed h" "rh_exit ?h = rh_exit h"
    using len by (simp_all add: begin_command_def Let_def nth_append)
  ultimately have "(call_table_of h)\<lparr>ct_calls := ct_calls (call_table_of h) @
        [(next_request h, if \<not> rh_closed h then Outstanding else Over (Inl ''agent handle is closed''))]\<rparr> =
      call_table_of ?h"
    using old by (intro table_eqI) (auto simp: nth_append less_Suc_eq intro!: handle_phase_cong [symmetric])
  then show ?thesis
    using assms(2) by (simp add: ids_call_table)
qed

lemma return_table:
  assumes "i < length (rh_calls h)" "\<And>a. a \<noteq> i \<Longrightarrow> as ! a = rh_answers h ! a"
  shows "call_table_of (set_status i (Returned r) (h\<lparr>rh_pending := pend, rh_answers := as\<rparr>)) =
    set_phase i (Over r) (call_table_of h)"
proof (rule table_eqI)
  fix a
  let ?h = "set_status i (Returned r) (h\<lparr>rh_pending := pend, rh_answers := as\<rparr>)"
  assume "a < length (ct_calls (set_phase i (Over r) (call_table_of h)))"
  then have a: "a < length (rh_calls h)" by simp
  have "handle_phase ?h a = (if a = i then Over r else handle_phase h a)"
  proof (cases "a = i")
    case True
    then show ?thesis using assms(1) by (simp add: handle_phase_Returned set_status_def)
  next
    case False
    then show ?thesis using assms(2) by (auto simp: set_status_def intro!: handle_phase_cong)
  qed
  then show "ct_calls (call_table_of ?h) ! a = ct_calls (set_phase i (Over r) (call_table_of h)) ! a"
    using a assms(1) by (simp add: set_status_def nth_list_update)
qed (simp_all add: set_status_def)

lemma fail_table:
  assumes "call_in i Writing h \<or> call_in i Waiting h"
  shows "table_step (Give_Up i msg) (call_table_of h) = Some (call_table_of (fail_call i msg h))"
proof -
  have i: "i < length (rh_calls h)" "unanswered (rh_calls h ! i)"
    using assms by (auto simp: call_in_def unanswered_def)
  have "fail_call i msg h = set_status i (Returned (Inl msg))
      (h\<lparr>rh_pending := AList.delete (rc_id (rh_calls h ! i)) (rh_pending h), rh_answers := rh_answers h\<rparr>)"
    by (simp add: fail_call_def remove_pending_def set_status_def)
  then show ?thesis
    using i return_table [OF i(1), of "rh_answers h"] by (simp add: unanswered_not_over)
qed

lemma take_table:
  assumes "handle_ok h" "handle_enabled (Take_Answer i) h"
  shows "table_step (Collect i) (call_table_of h) = Some (call_table_of (take_answer i h))"
proof -
  have i: "i < length (rh_calls h)" "unanswered (rh_calls h ! i)" "rh_answers h ! i \<noteq> new_chan"
    using assms(2) by (auto simp: call_in_def unanswered_def)
  have hand: "rh_reader h \<noteq> Answer i env" for env
    using assms(1) i(3) by (auto simp: handle_ok_def reader_ok_def)
  have ph: "handle_phase h i = chan_phase (rh_answers h ! i)"
    using hand i(2) by (auto simp: handle_phase_unanswered live_phase_def split: reader.split)
  show ?thesis
  proof (cases "ch_buf (rh_answers h ! i)")
    case Nil
    then have "take_answer i h = set_status i (Returned (command_result zero_envelope))
        (h\<lparr>rh_pending := rh_pending h, rh_answers := rh_answers h\<rparr>)" "chan_phase (rh_answers h ! i) = Abandoned"
      using assms(2) by (simp_all add: take_answer_def recv_def chan_phase_def)
    then show ?thesis
      using i(1) ph return_table [OF i(1), where as = "rh_answers h" and pend = "rh_pending h"] by simp
  next
    case (Cons env es)
    then have "take_answer i h = set_status i (Returned (command_result env))
        (h\<lparr>rh_pending := rh_pending h, rh_answers := (rh_answers h)[i := (rh_answers h ! i)\<lparr>ch_buf := es\<rparr>]\<rparr>)"
      "chan_phase (rh_answers h ! i) = Answered env"
      by (simp_all add: take_answer_def recv_def chan_phase_def)
    then show ?thesis
      using i(1) ph return_table [OF i(1), where as = "(rh_answers h)[i := (rh_answers h ! i)\<lparr>ch_buf := es\<rparr>]"
          and pend = "rh_pending h"] by simp
  qed
qed


lemma write_table:
  assumes "call_in i Writing h"
  shows "call_table_of (write_command i h) = call_table_of h"
proof (rule table_eqI)
  let ?h = "write_command i h"
  fix a assume "a < length (ct_calls (call_table_of h))"
  then have a: "a < length (rh_calls h)" by simp
  have "live_phase ?h a = live_phase h a"
    by (rule live_phase_cong) (simp_all add: write_command_def set_status_def)
  moreover have "handle_phase ?h a = handle_phase h a" if "a \<noteq> i"
    using that by (intro handle_phase_cong) (simp_all add: write_command_def set_status_def)
  moreover have "rc_status (rh_calls ?h ! i) = Waiting" "rc_status (rh_calls h ! i) = Writing"
    using assms by (simp_all add: write_command_def set_status_def call_in_def)
  ultimately have "handle_phase ?h a = handle_phase h a" by (cases "a = i") (simp_all add: handle_phase_def)
  then show "ct_calls (call_table_of ?h) ! a = ct_calls (call_table_of h) ! a"
    using a assms by (cases "a = i") (simp_all add: write_command_def set_status_def)
qed (simp_all add: write_command_def set_status_def)

text \<open>A registered call has not returned: besides \<open>handle_ok\<close>, what the table needs of the handle.\<close>

definition pending_live :: "rpc_handle \<Rightarrow> bool" where
  "pending_live h \<longleftrightarrow> (\<forall>p\<in>set (rh_pending h). unanswered (rh_calls h ! snd p))"

definition table_ok :: "rpc_handle \<Rightarrow> bool" where
  "table_ok h \<longleftrightarrow> handle_ok h \<and> pending_live h"

lemma pending_live_sub:
  assumes "pending_live h" "set (rh_pending h') \<subseteq> set (rh_pending h)"
    "\<And>rid a. (rid, a) \<in> set (rh_pending h') \<Longrightarrow> rh_calls h' ! a = rh_calls h ! a"
  shows "pending_live h'"
  using assms unfolding pending_live_def by (metis subsetD prod.collapse)

lemma pending_live_fail:
  assumes "table_ok h" "i < length (rh_calls h)"
  shows "pending_live (fail_call i msg h)"
proof (rule pending_live_sub [where h = h])
  fix rid a assume "(rid, a) \<in> set (rh_pending (fail_call i msg h))"
  then have "(rid, a) \<in> set (rh_pending h)" "rid \<noteq> rc_id (rh_calls h ! i)"
    by (auto simp: fail_call_def set_status_def remove_pending_def AList.delete_eq)
  then have "a \<noteq> i" using assms(1) by (auto simp: table_ok_def handle_ok_def pending_ok_def)
  then show "rh_calls (fail_call i msg h) ! a = rh_calls h ! a"
    by (simp add: fail_call_def set_status_def remove_pending_def)
qed (use assms(1) in \<open>auto simp: table_ok_def fail_call_def set_status_def remove_pending_def AList.delete_eq\<close>)

lemma pending_live_take:
  assumes "table_ok h" "handle_enabled (Take_Answer i) h"
  shows "pending_live (take_answer i h)"
proof (rule pending_live_sub [where h = h])
  have same: "rh_pending (take_answer i h) = rh_pending h"
    "a \<noteq> i \<Longrightarrow> rh_calls (take_answer i h) ! a = rh_calls h ! a" for a
    by (simp_all add: take_answer_def set_status_def split: prod.split received.split)
  show "set (rh_pending (take_answer i h)) \<subseteq> set (rh_pending h)" by (simp add: same)
  fix rid a assume "(rid, a) \<in> set (rh_pending (take_answer i h))"
  then have "rh_answers h ! a = new_chan"
    using assms(1) by (auto simp: same table_ok_def handle_ok_def pending_ok_def)
  then have "a \<noteq> i" using assms(2) by auto
  then show "rh_calls (take_answer i h) ! a = rh_calls h ! a" by (rule same)
qed (use assms(1) in \<open>simp add: table_ok_def\<close>)

lemma set_alist_update: "set (AList.update k v al) \<subseteq> insert (k, v) (set al)"
  by (induction al) auto

lemma pending_live_begin:
  assumes "table_ok h"
  shows "pending_live (begin_command p h)"
proof -
  have "\<forall>q\<in>set (rh_pending h). snd q < length (rh_calls h)"
    using assms by (simp add: table_ok_def handle_ok_def pending_ok_def)
  then show ?thesis
    using assms
    by (auto simp: table_ok_def pending_live_def begin_command_def Let_def nth_append unanswered_def
        dest!: set_alist_update [THEN subsetD])
qed

lemma pending_live_write:
  assumes "table_ok h"
  shows "pending_live (write_command i h)"
proof -
  have "unanswered (rh_calls (write_command i h) ! a)" if "unanswered (rh_calls h ! a)" "a < length (rh_calls h)" for a
    using that by (cases "a = i") (simp_all add: write_command_def set_status_def)
  then show ?thesis
    using assms by (auto simp: table_ok_def handle_ok_def pending_ok_def pending_live_def write_command_def set_status_def)
qed

lemma pending_live_read:
  assumes "table_ok h"
  shows "pending_live (read_line now s h)"
  by (rule pending_live_sub [where h = h])
    (use assms in \<open>auto simp: table_ok_def read_line_def Let_def remove_pending_def AList.delete_eq
      split: option.splits if_splits\<close>)

lemma reply_table:
  assumes "table_ok h" "rh_reader h = Idle" "map_of (rh_pending h) (re_env_id env) = Some a"
    and h': "h' = (remove_pending (re_env_id env) h)\<lparr>rh_reader := Answer a env\<rparr>"
  shows "table_step (Reply a env) (call_table_of h) = Some (call_table_of h')"
proof -
  have ok: "handle_ok h" using assms(1) by (simp add: table_ok_def)
  note a = map_of_pending [OF ok assms(3)]
  have un: "unanswered (rh_calls h ! a)"
    using assms(1) map_of_SomeD [OF assms(3)] by (auto simp: table_ok_def pending_live_def)
  have out: "handle_phase h a = Outstanding"
    using registered_outstanding(1) [OF ok a(4)] un by (simp add: handle_phase_unanswered)
  have "handle_phase h' b = (if b = a then Answered env else handle_phase h b)" if "b < length (rh_calls h)" for b
    using un assms(2)
    by (auto simp: h' handle_phase_def live_phase_def remove_pending_def unanswered_def split: call_status.split)
  then have "set_phase a (Answered env) (call_table_of h) = call_table_of h'"
    using a by (intro table_eqI) (auto simp: h' remove_pending_def)
  then show ?thesis using a out by simp
qed

lemma deliver_table:
  assumes "handle_ok h" "deliver h = Some h'"
  shows "call_table_of h' = call_table_of h"
proof (cases "rh_reader h")
  case (Answer a env)
  have a: "a < length (rh_answers h)" using assms(1) Answer by (simp add: handle_ok_def reader_ok_def)
  have h': "h' = h\<lparr>rh_reader := Idle, rh_answers := (rh_answers h)[a := \<lparr>ch_buf = [env], ch_closed = True\<rparr>]\<rparr>"
    using assms(2) Answer by (simp add: deliver_def split: if_splits)
  have "live_phase h' b = live_phase h b" for b
    using a Answer by (simp add: h' live_phase_def chan_phase_def nth_list_update)
  then show ?thesis
    by (intro table_eqI) (auto simp: h' handle_phase_def split: call_status.split)
qed (use assms(2) in \<open>simp_all add: deliver_def\<close>)

lemma reap_table:
  assumes "handle_ok h" "rh_exit h = Running" "reap h = Some h'"
  shows "table_step Exit (call_table_of h) = Some (call_table_of h')"
proof -
  have P: "pending_ok h" "length (rh_answers h) = length (rh_calls h)"
    using assms(1) by (simp_all add: handle_ok_def)
  obtain as b where as: "close_each (map snd (rh_pending h)) (rh_answers h) = Some as"
    and h': "h' = h\<lparr>rh_pending := [], rh_answers := as, rh_broker := b, rh_closed := True, rh_exit := Reaped\<rparr>"
    using assms(3) by (auto simp: reap_def split: option.splits)
  have nth: "as ! a = (if registered h a then (rh_answers h ! a)\<lparr>ch_closed := True\<rparr> else rh_answers h ! a)"
    if "a < length (rh_calls h)" for a
  proof -
    have "distinct (map snd (rh_pending h))"
      "\<forall>a\<in>set (map snd (rh_pending h)). a < length (rh_answers h) \<and> \<not> ch_closed (rh_answers h ! a)"
      using P by (auto simp: pending_ok_def)
    from close_each_open [OF this] show ?thesis using as that P(2) by (auto simp: registered_iff)
  qed
  have live: "live_phase h' a = (if registered h a then Abandoned else live_phase h a)"
    if "a < length (rh_calls h)" for a
  proof (cases "registered h a")
    case True
    then have "rh_answers h ! a = new_chan" "\<And>env. rh_reader h \<noteq> Answer a env"
      using assms(1) by (auto simp: handle_ok_def pending_ok_def reader_ok_def registered_def)
    then show ?thesis
      using True that nth by (auto simp: h' live_phase_def chan_phase_def split: reader.split)
  next
    case False
    then have "live_phase h' a = live_phase h a" by (intro live_phase_cong) (use nth [OF that] in \<open>simp_all add: h'\<close>)
    then show ?thesis using False by simp
  qed
  have "(rc_id (rh_calls h' ! a), handle_phase h' a) = abandon (rc_id (rh_calls h ! a), handle_phase h a)"
    if "a < length (rh_calls h)" for a
    using live [OF that] registered_outstanding [OF assms(1), of a] outstanding_registered [OF assms(1) that]
    by (auto simp: h' abandon_def handle_phase_def split: call_status.splits)
  then have "(call_table_of h)\<lparr>ct_calls := map abandon (ct_calls (call_table_of h)), ct_open := False, ct_exited := True\<rparr> =
      call_table_of h'"
    by (intro table_eqI) (auto simp: h')
  then show ?thesis using assms(2) by simp
qed


lemma read_table:
  assumes "table_ok h" "rh_reader h = Idle"
  shows "case handle_event (Read_Line now s) h of
      None \<Rightarrow> call_table_of (read_line now s h) = call_table_of h
    | Some ev \<Rightarrow> table_step ev (call_table_of h) = Some (call_table_of (read_line now s h))"
proof (cases "line_envelope (strip_line s)")
  case None
  then show ?thesis by (simp add: read_line_def)
next
  case (Some env)
  have emit: "call_table_of (h\<lparr>rh_reader := Emit es\<rparr>) = call_table_of h" for es
    by (rule frame_table) (use assms(2) in simp_all)
  show ?thesis
  proof (cases "re_env_type env = ''response''")
    case True
    show ?thesis
    proof (cases "map_of (rh_pending h) (re_env_id env)")
      case None
      then show ?thesis using Some True by (simp add: read_line_def Let_def)
    next
      case (Some a)
      from reply_table [OF assms Some refl] show ?thesis
        using Some True \<open>line_envelope (strip_line s) = Some env\<close>
        by (simp add: read_line_def Let_def del: table_step.simps)
    qed
  next
    case False
    then show ?thesis using Some emit by (simp add: read_line_def Let_def)
  qed
qed

lemma broadcast_frame:
  "broadcast_event e h = Some h' \<Longrightarrow> \<exists>b. h' = h\<lparr>rh_broker := b\<rparr>"
  by (auto simp: broadcast_event_def split: option.splits)

lemma emit_table:
  assumes "emit_next h = Some h'"
  shows "call_table_of h' = call_table_of h \<and> rh_calls h' = rh_calls h \<and> rh_pending h' = rh_pending h"
proof (cases "rh_reader h")
  case (Emit es)
  have h': "rh_calls h' = rh_calls h \<and> rh_answers h' = rh_answers h \<and> rh_pending h' = rh_pending h \<and>
      rh_exit h' = rh_exit h \<and> rh_closed h' = rh_closed h \<and> (\<forall>a env. rh_reader h' \<noteq> Answer a env)"
    using assms Emit by (cases es) (auto simp: emit_next_def dest!: broadcast_frame)
  have "call_table_of h' = call_table_of h"
    by (rule frame_table) (use h' Emit in simp_all)
  then show ?thesis using h' by simp
qed (use assms in \<open>simp_all add: emit_next_def\<close>)

lemma unsubscribe_frame: "rpc_unsubscribe i h = Some h' \<Longrightarrow> \<exists>b. h' = h\<lparr>rh_broker := b\<rparr>"
  by (auto simp: rpc_unsubscribe_def split: option.splits)

lemma broker_table [simp]: "call_table_of (h\<lparr>rh_broker := b\<rparr>) = call_table_of h"
  by (rule frame_table) simp_all

lemma stdin_table [simp]: "call_table_of (h\<lparr>rh_stdin := l\<rparr>) = call_table_of h"
  by (rule frame_table) simp_all

lemma shut_table: "table_step Shut (call_table_of h) = Some (call_table_of (h\<lparr>rh_closed := True\<rparr>))"
proof -
  have "(call_table_of h)\<lparr>ct_open := False\<rparr> = call_table_of (h\<lparr>rh_closed := True\<rparr>)"
    by (intro table_eqI) (auto intro!: handle_phase_cong [symmetric])
  then show ?thesis by simp
qed

lemma pending_live_frame:
  "pending_live h \<Longrightarrow> rh_calls h' = rh_calls h \<Longrightarrow> rh_pending h' = rh_pending h \<or> rh_pending h' = [] \<Longrightarrow>
     pending_live h'"
  by (auto simp: pending_live_def)

lemma step_enabled:
  "handle_step e h = Some h' \<longleftrightarrow> handle_enabled e h \<and> handle_apply e h = Some h'"
  by (simp add: handle_step_def)

lemma table_ok_step:
  assumes ok: "table_ok h" and st: "handle_step e h = Some h'"
  shows "table_ok h'"
proof -
  have en: "handle_enabled e h" and ap: "handle_apply e h = Some h'" using st by (simp_all add: step_enabled)
  have live: "pending_live h" using ok by (simp add: table_ok_def)
  have "handle_ok h'" using handle_apply_ok [of h e] ok en ap by (auto simp: table_ok_def)
  moreover have "pending_live h'"
  proof (cases e)
    case (Begin p) then show ?thesis using pending_live_begin [OF ok] ap by auto
  next
    case (Write_Ok i) then show ?thesis using pending_live_write [OF ok] ap by auto
  next
    case (Write_Failed i err) then show ?thesis using pending_live_fail [OF ok] ap en by (auto simp: call_in_def)
  next
    case (Context_Ended i err) then show ?thesis using pending_live_fail [OF ok] ap en by (auto simp: call_in_def)
  next
    case (See_Exit i) then show ?thesis using pending_live_fail [OF ok] ap en by (auto simp: call_in_def)
  next
    case (Take_Answer i) then show ?thesis using pending_live_take [OF ok] ap en by auto
  next
    case (Read_Line now s) then show ?thesis using pending_live_read [OF ok] ap by auto
  next
    case Deliver
    then show ?thesis
      using ap by (intro pending_live_frame [OF live]) (auto simp: deliver_def split: reader.splits if_splits)
  next
    case Emit_Next
    then show ?thesis using ap emit_table by (intro pending_live_frame [OF live]) auto
  next
    case Reap
    then show ?thesis
      using ap by (intro pending_live_frame [OF live]) (auto simp: reap_def split: option.splits)
  next
    case (Rpc_Unsubscribe i)
    then show ?thesis using ap by (intro pending_live_frame [OF live]) (auto dest: unsubscribe_frame)
  qed (use ap in \<open>auto intro!: pending_live_frame [OF live] simp: finish_def close_begin_def rpc_subscribe_def
        rpc_recv_def send_ui_response_def split: prod.split option.split\<close>)
  ultimately show ?thesis by (simp add: table_ok_def)
qed

lemma table_sim:
  assumes ok: "table_ok h" and st: "handle_step e h = Some h'"
  shows "case handle_event e h of
      None \<Rightarrow> call_table_of h' = call_table_of h
    | Some ev \<Rightarrow> table_step ev (call_table_of h) = Some (call_table_of h')"
proof -
  have en: "handle_enabled e h" and ap: "handle_apply e h = Some h'" using st by (simp_all add: step_enabled)
  have hok: "handle_ok h" using ok by (simp add: table_ok_def)
  show ?thesis
  proof (cases e)
    case (Begin p)
    then show ?thesis using begin_table [OF hok, of p] en ap by (auto simp del: table_step.simps)
  next
    case (Write_Ok i) then show ?thesis using write_table en ap by auto
  next
    case (Write_Failed i err) then show ?thesis using fail_table en ap by auto
  next
    case (Context_Ended i err) then show ?thesis using fail_table en ap by auto
  next
    case (See_Exit i) then show ?thesis using fail_table en ap by auto
  next
    case (Take_Answer i) then show ?thesis using take_table [OF hok] en ap by (auto simp del: table_step.simps)
  next
    case (Read_Line now s)
    then have st: "read_line now s h = h'" "rh_reader h = Idle" using ap en by simp_all
    show ?thesis using read_table [OF ok st(2), of now s] unfolding Read_Line st(1) .
  next
    case Deliver then show ?thesis using deliver_table [OF hok] ap by simp
  next
    case Emit_Next then show ?thesis using emit_table ap by simp
  next
    case Reap then show ?thesis using reap_table [OF hok] en ap by (simp del: table_step.simps)
  next
    case Close_Begin then show ?thesis using shut_table ap by (auto simp: close_begin_def simp del: table_step.simps)
  next
    case (Rpc_Unsubscribe i) then show ?thesis using ap by (auto dest: unsubscribe_frame)
  next
    case Finish
    have "call_table_of (finish h) = call_table_of h"
      by (rule frame_table) (use en Finish in \<open>simp_all add: finish_def\<close>)
    then show ?thesis using Finish ap by simp
  qed (use ap in \<open>auto simp: rpc_subscribe_def rpc_recv_def send_ui_response_def split: prod.splits option.splits if_splits\<close>)
qed

interpretation calls: forward_simulation handle_step table_ok table_step call_table_of handle_event
proof unfold_locales
  fix h e h'
  assume "table_ok h" "handle_step e h = Some h'"
  then show "table_ok h'" by (rule table_ok_step)
next
  fix h e h'
  assume "table_ok h" "handle_step e h = Some h'"
  then show "case handle_event e h of None \<Rightarrow> call_table_of h' = call_table_of h
    | Some a \<Rightarrow> table_step a (call_table_of h) = Some (call_table_of h')"
    by (rule table_sim)
qed

lemma reachable_table_ok: "handle_reachable h \<Longrightarrow> table_ok h"
proof (induction rule: handle_reachable.induct)
  case start
  show ?case using new_rpc_handle_ok by (simp add: table_ok_def pending_live_def new_rpc_handle_def)
next
  case (step h e h')
  then show ?case using table_ok_step [of h e h'] by (simp add: step_enabled)
qed

section \<open>Facts of the table\<close>

text \<open>A call's progress, as an order: outstanding, then answered or abandoned, then over.\<close>

fun stage :: "call_phase \<Rightarrow> nat" where
  "stage Outstanding = 0"
| "stage (Answered env) = 1"
| "stage Abandoned = 1"
| "stage (Over r) = 2"

instantiation call_phase :: order
begin

definition less_eq_call_phase :: "call_phase \<Rightarrow> call_phase \<Rightarrow> bool" where
  "less_eq_call_phase p q \<longleftrightarrow> p = q \<or> stage p < stage q"

definition less_call_phase :: "call_phase \<Rightarrow> call_phase \<Rightarrow> bool" where
  "less_call_phase p q \<longleftrightarrow> stage p < stage q"

instance
  by standard (auto simp: less_eq_call_phase_def less_call_phase_def)

end

lemma over_greatest [simp]: "Over r \<le> p \<longleftrightarrow> p = Over r"
  by (cases p) (auto simp: less_eq_call_phase_def)

lemma not_over_le: "\<not> is_over p \<Longrightarrow> p \<le> Over r"
  by (cases p) (auto simp: less_eq_call_phase_def)

lemma collected_le: "collected p = Some r \<Longrightarrow> p \<le> Over r"
  by (cases p) (auto simp: less_eq_call_phase_def)

lemma table_step_advances:
  assumes "table_step ev t = Some t'" "i < length (ct_calls t)"
  shows "i < length (ct_calls t') \<and> fst (ct_calls t' ! i) = fst (ct_calls t ! i) \<and> phase t i \<le> phase t' i"
proof -
  have "Outstanding \<le> Answered env" "Outstanding \<le> Abandoned" for env by (simp_all add: less_eq_call_phase_def)
  then show ?thesis
    using assms
    by (cases ev) (auto simp: phase_def nth_append abandon_def not_over_le collected_le split: if_splits)
qed

lemma table_run_advances:
  "attempt table_step evs t = Some t' \<Longrightarrow> i < length (ct_calls t) \<Longrightarrow>
     i < length (ct_calls t') \<and> fst (ct_calls t' ! i) = fst (ct_calls t ! i) \<and> phase t i \<le> phase t' i"
proof (induction evs arbitrary: t)
  case (Cons ev evs)
  then obtain t1 where t1: "table_step ev t = Some t1" "attempt table_step evs t1 = Some t'"
    by (auto simp: bind_eq_Some_conv)
  from table_step_advances [OF t1(1) Cons.prems(2)] Cons.IH [OF t1(2)] show ?case
    by (auto intro: order_trans)
qed simp

text \<open>Why a call is where it is: what must have happened (a set of events) for each phase.\<close>

fun explains :: "call_event set \<Rightarrow> nat \<Rightarrow> string \<Rightarrow> call_phase \<Rightarrow> bool" where
  "explains E i rid Outstanding = True"
| "explains E i rid (Answered env) = (Reply i env \<in> E \<and> re_env_id env = rid)"
| "explains E i rid Abandoned = (Exit \<in> E)"
| "explains E i rid (Over r) =
     (r = Inl ''agent handle is closed'' \<or> (\<exists>msg. Give_Up i msg \<in> E \<and> r = Inl msg) \<or>
      (\<exists>env. Reply i env \<in> E \<and> re_env_id env = rid \<and> r = command_result env) \<or>
      Exit \<in> E \<and> r = command_result zero_envelope)"

lemma explains_mono: "explains E i rid p \<Longrightarrow> E \<subseteq> F \<Longrightarrow> explains F i rid p"
  by (cases p) auto

definition explained :: "call_event set \<Rightarrow> call_table \<Rightarrow> bool" where
  "explained E t \<longleftrightarrow> (\<forall>i<length (ct_calls t). explains E i (fst (ct_calls t ! i)) (phase t i))"

lemma explained_step:
  assumes "explained E t" "table_step ev t = Some t'"
  shows "explained (insert ev E) t'"
proof -
  have old: "explains (insert ev E) i (fst (ct_calls t ! i)) (phase t i)" if "i < length (ct_calls t)" for i
    by (rule explains_mono [of E]) (use assms(1) that in \<open>auto simp: explained_def\<close>)
  have set: "explained (insert ev E) (set_phase i p t)"
    if "i < length (ct_calls t)" "explains (insert ev E) i (fst (ct_calls t ! i)) p" for i p
    using old that by (auto simp: explained_def phase_def)
  show ?thesis
  proof (cases ev)
    case (Issue rid)
    then show ?thesis
      using old assms(2) by (auto simp: explained_def phase_def nth_append less_Suc_eq split: if_splits)
  next
    case (Reply i env)
    then show ?thesis using set assms(2) by (auto split: if_splits)
  next
    case (Collect i)
    then obtain r where r: "collected (phase t i) = Some r" "i < length (ct_calls t)" "t' = set_phase i (Over r) t"
      using assms(2) by (auto split: if_splits)
    then have "explains (insert ev E) i (fst (ct_calls t ! i)) (Over r)"
      using old [of i] by (cases "phase t i") auto
    then show ?thesis using set r by simp
  next
    case (Give_Up i msg)
    then show ?thesis using set assms(2) by (auto split: if_splits)
  next
    case Shut
    then show ?thesis using old assms(2) by (auto simp: explained_def phase_def)
  next
    case Exit
    have "explains (insert ev E) i (fst (ct_calls t ! i)) (snd (abandon (ct_calls t ! i)))"
      "fst (abandon (ct_calls t ! i)) = fst (ct_calls t ! i)" if "i < length (ct_calls t)" for i
      using old [OF that] Exit by (auto simp: abandon_def phase_def)
    then show ?thesis
      using Exit assms(2) by (auto simp: explained_def phase_def split: if_splits)
  qed
qed

lemma explained_run:
  "attempt table_step evs t = Some t' \<Longrightarrow> explained E t \<Longrightarrow> explained (E \<union> set evs) t'"
proof (induction evs arbitrary: t E)
  case (Cons ev evs)
  then obtain t1 where t1: "table_step ev t = Some t1" "attempt table_step evs t1 = Some t'"
    by (auto simp: bind_eq_Some_conv)
  from Cons.IH [OF t1(2) explained_step [OF Cons.prems(2) t1(1)]] show ?case by simp
qed simp

lemma mediate_origin:
  "a \<in> set (mediate step med es s) \<Longrightarrow> \<exists>e\<in>set es. \<exists>s'. med e s' = Some a"
proof (induction es arbitrary: s)
  case (Cons e es)
  then show ?case by (auto split: option.splits)
qed simp

lemma reply_origin:
  assumes "handle_event e h = Some (Reply i env)"
  shows "\<exists>now s. e = Read_Line now s \<and> line_envelope (strip_line s) = Some env \<and> re_env_type env = ''response''"
  using assms by (cases e) (auto split: option.splits if_splits)

lemma give_up_origin:
  assumes "handle_event e h = Some (Give_Up i msg)"
  shows "(\<exists>err. e = Write_Failed i err \<and> msg = ''write command: '' @ err) \<or> e = Context_Ended i msg \<or>
    e = See_Exit i \<and> msg = ''pi process exited''"
  using assms by (cases e) (auto split: option.splits if_splits)

lemma exit_origin: "handle_event e h = Some Exit \<Longrightarrow> e = Reap"
  by (cases e) (auto split: option.splits if_splits)

section \<open>Properties\<close>

text \<open>An envelope that answers a command whose caller has given up is dropped, and the command that is
  under way keeps its own answer.\<close>

definition crossed :: "handle_op list" where
  "crossed = asked @ [Begin get_state_payload, Write_Ok 1, Context_Ended 0 ''context canceled'',
     Read_Line [] answer_line, Read_Line [] (json_print (JObj [(''type'', JStr ''response''), (''id'', JStr ''req-2'')]) @ [CHR 0x0A]),
     Deliver, Take_Answer 1]"

lemma crossed_state: "handle_run crossed new_rpc_handle \<noteq> None"
  by code_simp

text \<open>C1: The handle refines the call table: whatever the interleaving of callers, reader, reaper,
  \<open>Close\<close> and subscribers, the steps the callers can see, taken in order, are a run of the table from
  the state the handle stands for to the state it ends in.\<close>

theorem handle_refines_call_table:
  assumes "handle_reachable h" "handle_run es h = Some h'"
  shows "attempt table_step (mediate handle_step handle_event es h) (call_table_of h) = Some (call_table_of h')"
  using calls.attempt_sim [OF reachable_table_ok [OF assms(1)]] assms(2) by (simp add: handle_run_attempt)

theorem handle_refines_call_table_witness:
  "mediate handle_step handle_event crossed new_rpc_handle =
     [Issue ''req-1'', Issue ''req-2'', Give_Up 0 ''context canceled'',
      Reply 1 (zero_envelope\<lparr>re_env_type := ''response'', re_env_id := ''req-2''\<rparr>), Collect 1] \<and>
   attempt table_step (mediate handle_step handle_event crossed new_rpc_handle) (call_table_of new_rpc_handle) =
     Some (call_table_of (the (handle_run crossed new_rpc_handle)))"
proof
  show "attempt table_step (mediate handle_step handle_event crossed new_rpc_handle) (call_table_of new_rpc_handle) =
     Some (call_table_of (the (handle_run crossed new_rpc_handle)))"
    by (rule handle_refines_call_table [OF handle_reachable.start])
      (use crossed_state(1) in \<open>simp del: handle_run.simps\<close>)
qed code_simp

text \<open>C7: Every result a caller of \<open>sendCommand\<close> gets has its cause in the run: the handle was closed when
  the command was issued, its own write failed, its own context ended, it saw the exit, the process
  wrote a response line with the command's own id, or the reaper closed the command's channel.\<close>

theorem results_have_causes:
  assumes "handle_run es new_rpc_handle = Some h" "i < length (rh_calls h)" "rc_status (rh_calls h ! i) = Returned r"
  shows "r = Inl ''agent handle is closed'' \<or>
    (\<exists>err. Write_Failed i err \<in> set es \<and> r = Inl (''write command: '' @ err)) \<or>
    (\<exists>err. Context_Ended i err \<in> set es \<and> r = Inl err) \<or>
    (See_Exit i \<in> set es \<and> r = Inl ''pi process exited'') \<or>
    (\<exists>now s env. Read_Line now s \<in> set es \<and> line_envelope (strip_line s) = Some env \<and>
       re_env_type env = ''response'' \<and> re_env_id env = rc_id (rh_calls h ! i) \<and> r = command_result env) \<or>
    (Reap \<in> set es \<and> r = Inr zero_envelope)"
proof -
  let ?evs = "mediate handle_step handle_event es new_rpc_handle"
  have "attempt handle_step es new_rpc_handle = Some h" using assms(1) by (simp add: handle_run_attempt)
  from calls.attempt_sim [OF reachable_table_ok [OF handle_reachable.start] this]
  have "attempt table_step ?evs (call_table_of new_rpc_handle) = Some (call_table_of h)" .
  from explained_run [OF this, of "{}"] have "explained (set ?evs) (call_table_of h)"
    by (simp add: explained_def new_rpc_handle_def)
  then have "explains (set ?evs) i (rc_id (rh_calls h ! i)) (Over r)"
    using assms(2) handle_phase_Returned [OF assms(3)]
    unfolding explained_def by (metis call_table_of_simps(1,2) fst_conv phase_call_table)
  moreover have zero: "command_result zero_envelope = Inr zero_envelope"
    by (simp add: command_result_def zero_envelope_def)
  ultimately have "r = Inl ''agent handle is closed'' \<or> (\<exists>msg. Give_Up i msg \<in> set ?evs \<and> r = Inl msg) \<or>
      (\<exists>env. Reply i env \<in> set ?evs \<and> re_env_id env = rc_id (rh_calls h ! i) \<and> r = command_result env) \<or>
      Exit \<in> set ?evs \<and> r = Inr zero_envelope"
    by (simp only: explains.simps)
  moreover have "\<exists>now s. Read_Line now s \<in> set es \<and> line_envelope (strip_line s) = Some env \<and> re_env_type env = ''response''"
    if "Reply i env \<in> set ?evs" for env
    using mediate_origin [OF that] reply_origin by blast
  moreover have "(\<exists>err. Write_Failed i err \<in> set es \<and> msg = ''write command: '' @ err) \<or>
      Context_Ended i msg \<in> set es \<or> See_Exit i \<in> set es \<and> msg = ''pi process exited''"
    if "Give_Up i msg \<in> set ?evs" for msg
    using mediate_origin [OF that] give_up_origin by blast
  moreover have "Reap \<in> set es" if "Exit \<in> set ?evs"
    using mediate_origin [OF that] exit_origin by blast
  ultimately show ?thesis by blast
qed

theorem results_have_causes_witness:
  "let h = the (handle_run answered new_rpc_handle) in
   \<exists>now s env. Read_Line now s \<in> set answered \<and> line_envelope (strip_line s) = Some env \<and>
     re_env_id env = rc_id (rh_calls h ! 0) \<and> rc_status (rh_calls h ! 0) = Returned (command_result env)"
proof -
  define h where "h = the (handle_run answered new_rpc_handle)"
  have run: "handle_run answered new_rpc_handle = Some h"
    using answered_state(1) by (simp add: h_def del: handle_run.simps)
  note st = answered_state(2,3) [folded h_def]
  have ops: "set answered = {Begin abort_payload, Write_Ok 0, Read_Line [] answer_line, Deliver, Take_Answer 0}"
    by (auto simp: answered_def asked_def)
  from results_have_causes [OF run _ st(2)] show ?thesis
    unfolding h_def [symmetric] Let_def using st by (auto simp: ops)
qed

text \<open>A result is final: once a command has returned, no later step of any goroutine changes what it
  returned.\<close>

theorem results_are_final:
  assumes "handle_reachable h" "handle_run es h = Some h'" "i < length (rh_calls h)"
    "rc_status (rh_calls h ! i) = Returned r"
  shows "rc_status (rh_calls h' ! i) = Returned r \<and> rc_id (rh_calls h' ! i) = rc_id (rh_calls h ! i)"
proof -
  have "attempt handle_step es h = Some h'" using assms(2) by (simp add: handle_run_attempt)
  from calls.attempt_sim [OF reachable_table_ok [OF assms(1)] this]
  have "attempt table_step (mediate handle_step handle_event es h) (call_table_of h) = Some (call_table_of h')" .
  from table_run_advances [OF this, of i]
  have "i < length (rh_calls h')" "handle_phase h' i = Over r" "rc_id (rh_calls h' ! i) = rc_id (rh_calls h ! i)"
    using assms(3) handle_phase_Returned [OF assms(4)] by auto
  then show ?thesis by (simp add: handle_phase_def split: call_status.splits)
qed


theorem results_are_final_witness:
  "let h = the (handle_run (answered @ [Reap, Finish]) new_rpc_handle) in
   rc_status (rh_calls h ! 0) = Returned (Inr (zero_envelope\<lparr>re_env_type := ''response'', re_env_id := ''req-1''\<rparr>))"
proof -
  let ?h = "the (handle_run answered new_rpc_handle)"
  have two: "handle_run [Reap, Finish] ?h = Some (the (handle_run [Reap, Finish] ?h))" by code_simp
  have "handle_run (answered @ [Reap, Finish]) new_rpc_handle = handle_run [Reap, Finish] ?h"
    by (rule handle_run_append) (use answered_state(1) in simp)
  then show ?thesis
    using results_are_final [OF runs_reachable [OF answered_state(1)] two _ answered_state(3)] answered_state(2)
    by simp
qed

end
