(* ===== verification/Rpc_World.thy ===== *)
theory Rpc_World
  imports Rpc_Args Rpc_Spec
begin

text \<open>
  \<open>internal/process/rpc_manager.go\<close> as the \<open>Manager\<close> interface of \<open>types.go\<close>: the agent processes
  that were started, each with its handle, and the methods of the interface as complete calls over
  the steps of \<open>Rpc_Handle\<close>. What the agent and the other goroutines do while a call waits, what the
  pipe's write and the context report, is the environment \<open>call_env\<close>.
\<close>

section \<open>A command from start to end\<close>

text \<open>Which case of the final \<open>select\<close> is taken; one that is not ready is not taken, and the context
  ends in its place.\<close>

datatype wake = Wake_Answer | Wake_Exit | Wake_Context

record call_env =
  ce_write_error :: "rpc_handle \<Rightarrow> string option"
  ce_meanwhile :: "rpc_handle \<Rightarrow> handle_op list"
  ce_wake :: "rpc_handle \<Rightarrow> wake"
  ce_context_error :: string
  ce_close_event :: "rpc_handle \<Rightarrow> close_event"

text \<open>The steps of others, if they are possible.\<close>

definition meanwhile :: "call_env \<Rightarrow> rpc_handle \<Rightarrow> rpc_handle" where
  "meanwhile env h = (case handle_run (ce_meanwhile env h) h of None \<Rightarrow> h | Some h' \<Rightarrow> h')"

definition select_case :: "call_env \<Rightarrow> nat \<Rightarrow> rpc_handle \<Rightarrow> handle_op" where
  "select_case env i h =
     (if ce_wake env h = Wake_Answer \<and> handle_enabled (Take_Answer i) h then Take_Answer i
      else if ce_wake env h = Wake_Exit \<and> handle_enabled (See_Exit i) h then See_Exit i
      else Context_Ended i (ce_context_error env))"

definition call_result :: "nat \<Rightarrow> rpc_handle \<Rightarrow> string + rpc_envelope" where
  "call_result i h =
     (case rc_status (rh_calls h ! i) of Returned r \<Rightarrow> r | _ \<Rightarrow> Inl ''context canceled'')"

text \<open>The steps that \<open>sendCommand\<close> itself takes, one after the other.\<close>

definition try_step :: "handle_op \<Rightarrow> rpc_handle \<Rightarrow> rpc_handle" where
  "try_step e h = (case handle_step e h of None \<Rightarrow> h | Some h' \<Rightarrow> h')"

definition send_command :: "call_env \<Rightarrow> (string \<times> json) list \<Rightarrow> rpc_handle \<Rightarrow> (string + rpc_envelope) \<times> rpc_handle" where
  "send_command env payload h0 =
     (let i = length (rh_calls h0); h = begin_command payload h0 in
      if \<not> call_in i Writing h then (call_result i h, h)
      else
        (case ce_write_error env h of
           Some err \<Rightarrow>
             (let h1 = fail_call i (''write command: '' @ err) h in (call_result i h1, h1))
         | None \<Rightarrow>
             (let h2 = meanwhile env (write_command i h);
                  h3 = try_step (select_case env i h2) h2
              in (call_result i h3, h3))))"

section \<open>The methods of a handle\<close>

definition rpc_prompt :: "call_env \<Rightarrow> prompt_request \<Rightarrow> rpc_handle \<Rightarrow> (string + unit) \<times> rpc_handle" where
  "rpc_prompt env req h = map_prod (map_sum (\<lambda>e. e) (\<lambda>r. ())) (\<lambda>h. h) (send_command env (prompt_payload req) h)"

definition rpc_abort :: "call_env \<Rightarrow> rpc_handle \<Rightarrow> (string + unit) \<times> rpc_handle" where
  "rpc_abort env h = map_prod (map_sum (\<lambda>e. e) (\<lambda>r. ())) (\<lambda>h. h) (send_command env abort_payload h)"

definition rpc_get_state :: "call_env \<Rightarrow> rpc_handle \<Rightarrow> (string + agent_state) \<times> rpc_handle" where
  "rpc_get_state env h = map_prod read_state (\<lambda>h. h) (send_command env get_state_payload h)"

definition rpc_get_messages :: "call_env \<Rightarrow> rpc_handle \<Rightarrow> (string + chat_message list) \<times> rpc_handle" where
  "rpc_get_messages env h = map_prod read_messages (\<lambda>h. h) (send_command env get_messages_payload h)"

definition rpc_get_messages_raw :: "call_env \<Rightarrow> rpc_handle \<Rightarrow> (string + json list option) \<times> rpc_handle" where
  "rpc_get_messages_raw env h = map_prod read_messages_raw (\<lambda>h. h) (send_command env get_messages_payload h)"

text \<open>\<open>Close\<close>: nothing when the handle is closed; else the flag, the interrupt, and the wait, which ends
  with the process, the context or the timer.\<close>

definition rpc_close :: "call_env \<Rightarrow> rpc_handle \<Rightarrow> (string + unit) \<times> rpc_handle" where
  "rpc_close env h0 =
     (case close_begin h0 of (first, h1) \<Rightarrow>
        if \<not> first then (Inr (), h1)
        else
          (let h2 = meanwhile env h1;
               ev = (if ce_close_event env h2 = Exit_Seen \<and> rh_exit h2 \<noteq> Finished then Timer_Fired
                     else ce_close_event env h2)
           in (case fst (close_wait ev) of None \<Rightarrow> (Inr (), h2) | Some err \<Rightarrow> (Inl err, h2))))"

section \<open>The manager\<close>

record rpc_process =
  pr_launch :: launch
  pr_handle :: rpc_handle

type_synonym rpc_world = "rpc_process list"

definition on_process :: "nat \<Rightarrow> (rpc_handle \<Rightarrow> 'a \<times> rpc_handle) \<Rightarrow> rpc_world \<Rightarrow> 'a \<times> rpc_world" where
  "on_process i f w = (case f (pr_handle (w ! i)) of (x, h) \<Rightarrow> (x, w[i := (w ! i)\<lparr>pr_handle := h\<rparr>]))"

definition rpc_world_start :: "unit os_env \<Rightarrow> rpc_manager \<Rightarrow> start_options \<Rightarrow> rpc_world \<Rightarrow> (string + nat) \<times> rpc_world" where
  "rpc_world_start os m opts w =
     (case plan_launch os m opts of
        Inl e \<Rightarrow> (Inl e, w)
      | Inr la \<Rightarrow>
          (case os_spawn os la of
             Inl e \<Rightarrow> (Inl e, w)
           | Inr u \<Rightarrow> (Inr (length w), w @ [\<lparr>pr_launch = la, pr_handle = new_rpc_handle\<rparr>])))"

definition rpc_process_manager :: "unit os_env \<Rightarrow> rpc_manager \<Rightarrow> call_env \<Rightarrow> (nat, rpc_world) process_manager" where
  "rpc_process_manager os m env =
     \<lparr>ah_prompt = (\<lambda>i req. on_process i (rpc_prompt env req)),
      ah_abort = (\<lambda>i. on_process i (rpc_abort env)),
      ah_get_state = (\<lambda>i. on_process i (rpc_get_state env)),
      ah_get_messages = (\<lambda>i. on_process i (rpc_get_messages env)),
      ah_get_messages_raw = (\<lambda>i. on_process i (rpc_get_messages_raw env)),
      ah_subscribe = (\<lambda>i. on_process i rpc_subscribe),
      ah_unsubscribe = (\<lambda>i s w. snd (on_process i (\<lambda>h. ((), try_step (Rpc_Unsubscribe s) h)) w)),
      ah_send_ui_response = (\<lambda>i r. on_process i (\<lambda>h. send_ui_response (ce_write_error env h) r h)),
      ah_close = (\<lambda>i. on_process i (rpc_close env)),
      pm_start = rpc_world_start os m,
      pm_resolve_working_dir = (\<lambda>opts w. resolve_working_dir os m opts)\<rparr>"

section \<open>Every call is a run of steps\<close>

text \<open>\<open>h'\<close> is where the steps of some goroutines lead from \<open>h\<close>.\<close>

definition leads_to :: "rpc_handle \<Rightarrow> rpc_handle \<Rightarrow> bool" where
  "leads_to h h' \<longleftrightarrow> (\<exists>ops. handle_run ops h = Some h')"

lemma leads_refl [simp]: "leads_to h h"
  unfolding leads_to_def by (rule exI [of _ "[]"]) simp

lemma leads_trans: "leads_to h h1 \<Longrightarrow> leads_to h1 h2 \<Longrightarrow> leads_to h h2"
  unfolding leads_to_def by (elim exE) (rule exI, rule handle_run_append [THEN trans], assumption+)

lemma leads_step: "handle_step e h = Some h' \<Longrightarrow> leads_to h h'"
  unfolding leads_to_def by (rule exI [of _ "[e]"]) (auto simp: handle_step_def split: if_splits)

lemma leads_apply: "handle_enabled e h \<Longrightarrow> handle_apply e h = Some h' \<Longrightarrow> leads_to h h'"
  by (rule leads_step [of e]) (simp add: handle_step_def)

lemma leads_try: "leads_to h (try_step e h)"
  unfolding try_step_def by (cases "handle_step e h") (auto intro: leads_step)

lemma leads_meanwhile: "leads_to h (meanwhile env h)"
  unfolding meanwhile_def leads_to_def
  by (cases "handle_run (ce_meanwhile env h) h") (auto intro: exI [of _ "[]"])

lemma leads_reachable: "leads_to h h' \<Longrightarrow> handle_reachable h \<Longrightarrow> handle_reachable h'"
  unfolding leads_to_def using handle_run_reachable by blast

text \<open>Fewer than \<open>2 ^ 64\<close> commands and subscriptions so far.\<close>

definition counters_fresh :: "rpc_handle \<Rightarrow> bool" where
  "counters_fresh h \<longleftrightarrow> next_request h \<notin> set (map rc_id (rh_calls h)) \<and> next_unused (rh_broker h)"

lemma send_command_leads:
  assumes "counters_fresh h"
  shows "leads_to h (snd (send_command env payload h))"
proof -
  let ?h = "begin_command payload h" and ?i = "length (rh_calls h)"
  have issue: "leads_to h ?h"
    by (rule leads_apply [of "Begin payload"]) (use assms in \<open>simp_all add: counters_fresh_def\<close>)
  show ?thesis
  proof (cases "call_in ?i Writing ?h")
    case False
    then show ?thesis using issue by (simp add: send_command_def Let_def)
  next
    case True
    show ?thesis
    proof (cases "ce_write_error env ?h")
      case (Some err)
      have "leads_to ?h (fail_call ?i (''write command: '' @ err) ?h)"
        by (rule leads_apply [of "Write_Failed ?i err"]) (use True in simp_all)
      then show ?thesis using leads_trans [OF issue] True Some by (simp add: send_command_def Let_def)
    next
      case None
      let ?h1 = "write_command ?i ?h" let ?h2 = "meanwhile env ?h1"
      have "leads_to ?h ?h1" by (rule leads_apply [of "Write_Ok ?i"]) (use True in simp_all)
      from leads_trans [OF issue leads_trans [OF this leads_trans [OF leads_meanwhile leads_try]]]
      have "leads_to h (try_step (select_case env ?i ?h2) ?h2)" .
      then show ?thesis using True None by (simp add: send_command_def Let_def)
    qed
  qed
qed

lemma rpc_close_state:
  "snd (rpc_close env h) =
     (if rh_closed h then h\<lparr>rh_closed := True\<rparr> else meanwhile env (h\<lparr>rh_closed := True\<rparr>))"
  by (simp add: rpc_close_def close_begin_def Let_def split: option.split)

lemma rpc_close_leads: "leads_to h (snd (rpc_close env h))"
proof -
  have "leads_to h (h\<lparr>rh_closed := True\<rparr>)"
    by (rule leads_apply [of Close_Begin]) (simp_all add: close_begin_def)
  then show ?thesis
    unfolding rpc_close_state using leads_trans [OF _ leads_meanwhile] by simp
qed

lemma method_leads:
  assumes "counters_fresh h"
  shows "leads_to h (snd (rpc_prompt env req h))" "leads_to h (snd (rpc_abort env h))"
    "leads_to h (snd (rpc_get_state env h))" "leads_to h (snd (rpc_get_messages env h))"
    "leads_to h (snd (rpc_get_messages_raw env h))" "leads_to h (snd (rpc_subscribe h))"
    "leads_to h (snd (send_ui_response err r h))"
proof -
  show "leads_to h (snd (rpc_subscribe h))"
    by (rule leads_apply [of Rpc_Subscribe]) (use assms in \<open>simp_all add: counters_fresh_def\<close>)
  show "leads_to h (snd (send_ui_response err r h))"
    by (rule leads_apply [of "Ui_Response err r"]) simp_all
qed (use send_command_leads [OF assms] in \<open>simp_all add: rpc_prompt_def rpc_abort_def rpc_get_state_def
  rpc_get_messages_def rpc_get_messages_raw_def\<close>)

section \<open>Any sequence of calls\<close>

datatype world_op =
    World_Prompt nat prompt_request
  | World_Abort nat
  | World_State nat
  | World_Messages nat
  | World_Messages_Raw nat
  | World_Subscribe nat
  | World_Unsubscribe nat "64 word"
  | World_Ui nat ui_response
  | World_Close nat
  | World_Start start_options
  | World_Step nat handle_op

text \<open>An operation with the environment it meets; \<open>World_Step\<close> is a step of a background goroutine.\<close>

fun world_step :: "unit os_env \<Rightarrow> rpc_manager \<Rightarrow> call_env \<times> world_op \<Rightarrow> rpc_world \<Rightarrow> unit \<times> rpc_world" where
  "world_step os m (env, World_Prompt i req) w = ((), snd (ah_prompt (rpc_process_manager os m env) i req w))"
| "world_step os m (env, World_Abort i) w = ((), snd (ah_abort (rpc_process_manager os m env) i w))"
| "world_step os m (env, World_State i) w = ((), snd (ah_get_state (rpc_process_manager os m env) i w))"
| "world_step os m (env, World_Messages i) w = ((), snd (ah_get_messages (rpc_process_manager os m env) i w))"
| "world_step os m (env, World_Messages_Raw i) w = ((), snd (ah_get_messages_raw (rpc_process_manager os m env) i w))"
| "world_step os m (env, World_Subscribe i) w = ((), snd (ah_subscribe (rpc_process_manager os m env) i w))"
| "world_step os m (env, World_Unsubscribe i s) w = ((), ah_unsubscribe (rpc_process_manager os m env) i s w)"
| "world_step os m (env, World_Ui i r) w = ((), snd (ah_send_ui_response (rpc_process_manager os m env) i r w))"
| "world_step os m (env, World_Close i) w = ((), snd (ah_close (rpc_process_manager os m env) i w))"
| "world_step os m (env, World_Start opts) w = ((), snd (pm_start (rpc_process_manager os m env) opts w))"
| "world_step os m (env, World_Step i e) w = ((), snd (on_process i (\<lambda>h. ((), try_step e h)) w))"

definition world_fresh :: "call_env \<times> world_op \<Rightarrow> rpc_world \<Rightarrow> bool" where
  "world_fresh e w \<longleftrightarrow> list_all (\<lambda>p. counters_fresh (pr_handle p)) w"

text \<open>Each process was launched as \<open>Start\<close> plans it, and its handle is in a state its goroutines reach.\<close>

definition process_ok :: "unit os_env \<Rightarrow> rpc_manager \<Rightarrow> rpc_process \<Rightarrow> bool" where
  "process_ok os m p \<longleftrightarrow> (\<exists>opts. plan_launch os m opts = Inr (pr_launch p)) \<and> handle_reachable (pr_handle p)"

lemma on_process_ok:
  assumes "list_all (process_ok os m) w"
    and "\<And>h. i < length w \<Longrightarrow> h = pr_handle (w ! i) \<Longrightarrow> leads_to h (snd (f h))"
  shows "list_all (process_ok os m) (snd (on_process i f w))"
proof (cases "i < length w")
  case True
  have "process_ok os m (w ! i)" using assms(1) True by (simp add: list_all_length)
  then have "process_ok os m ((w ! i)\<lparr>pr_handle := snd (f (pr_handle (w ! i)))\<rparr>)"
    using leads_reachable [OF assms(2) [OF True refl]] by (simp add: process_ok_def)
  then show ?thesis
    using assms(1) by (auto simp: on_process_def list_all_iff split: prod.split dest: set_update_subset_insert [THEN subsetD])
next
  case False
  then show ?thesis using assms(1) by (simp add: on_process_def list_update_beyond split: prod.split)
qed

lemma start_ok:
  assumes "list_all (process_ok os m) w"
  shows "list_all (process_ok os m) (snd (rpc_world_start os m opts w))"
  using assms
  by (auto simp: rpc_world_start_def process_ok_def intro: handle_reachable.start split: sum.split)

interpretation world: step_invariant "world_step os m" "list_all (process_ok os m)" world_fresh for os m
proof
  fix w :: rpc_world and e :: "call_env \<times> world_op"
  assume ok: "list_all (process_ok os m) w" and fresh: "world_fresh e w"
  have leads: "counters_fresh (pr_handle (w ! i))" if "i < length w" for i
    using fresh that by (simp add: world_fresh_def list_all_length)
  note on = on_process_ok [OF ok]
  obtain env op where e: "e = (env, op)" by fastforce
  show "list_all (process_ok os m) (snd (world_step os m e w))"
    unfolding e
    by (cases op)
      (auto simp: rpc_process_manager_def start_ok [OF ok] rpc_close_leads leads_try
        intro!: on method_leads leads)
qed

section \<open>What a command does\<close>

text \<open>Only writes reach the process's standard input.\<close>

lemma apply_stdin:
  assumes "handle_apply e h = Some h'" "\<And>i. e \<noteq> Write_Ok i" "\<And>err r. e \<noteq> Ui_Response err r"
  shows "rh_stdin h' = rh_stdin h"
  using assms
  by (cases e)
    (auto simp: begin_command_def Let_def fail_call_def set_status_def remove_pending_def take_answer_def
      read_line_def deliver_def emit_next_def reap_def finish_def close_begin_def rpc_subscribe_def rpc_recv_def
      dest!: broadcast_frame unsubscribe_frame
      split: received.splits option.splits if_splits reader.splits list.splits prod.splits)

lemma try_stdin:
  "(\<And>i. e \<noteq> Write_Ok i) \<Longrightarrow> (\<And>err r. e \<noteq> Ui_Response err r) \<Longrightarrow> rh_stdin (try_step e h) = rh_stdin h"
  using apply_stdin [of e h] by (auto simp: try_step_def step_enabled split: option.split)

lemma run_stdin:
  "handle_run es h = Some h' \<Longrightarrow> (\<forall>e\<in>set es. (\<forall>i. e \<noteq> Write_Ok i) \<and> (\<forall>err r. e \<noteq> Ui_Response err r)) \<Longrightarrow>
     rh_stdin h' = rh_stdin h"
proof (induction es arbitrary: h)
  case (Cons e es)
  then obtain h1 where "handle_apply e h = Some h1" "handle_run es h1 = Some h'"
    by (auto simp: bind_eq_Some_conv split: if_splits)
  then show ?case using Cons.IH [of h1] Cons.prems(2) apply_stdin [of e h h1] by auto
qed simp

text \<open>A command on an open handle, written: its caller waits, registered under its id.\<close>

lemma written_command:
  assumes "handle_reachable h" "\<not> rh_closed h" "counters_fresh h"
    and h1: "h1 = write_command (length (rh_calls h)) (begin_command payload h)"
  shows "call_in (length (rh_calls h)) Writing (begin_command payload h)" "handle_reachable h1"
    "call_in (length (rh_calls h)) Waiting h1" "rh_reader h1 = rh_reader h" "rh_exit h1 = rh_exit h"
    "rc_id (rh_calls h1 ! length (rh_calls h)) = next_request h"
    "map_of (rh_pending h1) (next_request h) = Some (length (rh_calls h))"
    "rh_stdin h1 = rh_stdin h @ [command_line payload (next_request h)]"
proof -
  let ?n = "length (rh_calls h)" and ?b = "begin_command payload h"
  have b: "rh_calls ?b = rh_calls h @ [\<lparr>rc_id = next_request h, rc_payload = payload, rc_status = Writing\<rparr>]"
    "rh_reader ?b = rh_reader h" "rh_exit ?b = rh_exit h" "rh_stdin ?b = rh_stdin h"
    "rh_pending ?b = AList.update (next_request h) ?n (rh_pending h)"
    using assms(2) by (simp_all add: begin_command_def Let_def)
  show w: "call_in ?n Writing ?b" by (simp add: call_in_def b)
  have "leads_to h ?b"
    by (rule leads_apply [of "Begin payload"]) (use assms(3) in \<open>simp_all add: counters_fresh_def\<close>)
  moreover have "leads_to ?b h1" by (rule leads_apply [of "Write_Ok ?n"]) (use w h1 in simp_all)
  ultimately show "handle_reachable h1" using leads_reachable assms(1) by blast
  show "call_in ?n Waiting h1" "rh_reader h1 = rh_reader h" "rh_exit h1 = rh_exit h"
    "rc_id (rh_calls h1 ! ?n) = next_request h"
    "map_of (rh_pending h1) (next_request h) = Some ?n"
    "rh_stdin h1 = rh_stdin h @ [command_line payload (next_request h)]"
    by (simp_all add: h1 write_command_def set_status_def call_in_def b nth_append update_conv')
qed

text \<open>A command whose caller is woken by its answer channel after the steps \<open>ops\<close> of others.\<close>

lemma woken_command:
  assumes "handle_reachable h" "\<not> rh_closed h" "counters_fresh h"
    and "\<And>k. ce_write_error env k = None" "\<And>k. ce_meanwhile env k = ops" "\<And>k. ce_wake env k = Wake_Answer"
    and run: "handle_run (ops @ [Take_Answer (length (rh_calls h))])
      (write_command (length (rh_calls h)) (begin_command payload h)) = Some h'"
    and st: "rc_status (rh_calls h' ! length (rh_calls h)) = Returned r"
  shows "send_command env payload h = (r, h')"
proof -
  let ?n = "length (rh_calls h)" and ?h1 = "write_command (length (rh_calls h)) (begin_command payload h)"
  note w = written_command [OF assms(1-3) refl]
  obtain h2 where h2: "handle_run ops ?h1 = Some h2" "handle_step (Take_Answer ?n) h2 = Some h'"
    using run unfolding handle_run_attempt attempt_append by (auto simp: bind_eq_Some_conv)
  have "meanwhile env ?h1 = h2" using h2(1) assms(5) by (simp add: meanwhile_def)
  moreover have "select_case env ?n h2 = Take_Answer ?n"
    using h2(2) assms(6) by (simp add: select_case_def step_enabled)
  moreover have "try_step (Take_Answer ?n) h2 = h'" unfolding try_step_def h2(2) by simp
  ultimately have "send_command env payload h = (call_result ?n h', h')"
    using w(1) assms(4) by (simp add: send_command_def Let_def)
  then show ?thesis using st by (simp add: call_result_def)
qed

text \<open>The agent answers the command, or the process ends and the reaper runs before the caller wakes.\<close>

lemma acknowledged_command:
  assumes "handle_reachable h" "\<not> rh_closed h" "counters_fresh h" "rh_reader h = Idle"
    and env: "\<And>k. ce_write_error env k = None" "\<And>k. ce_meanwhile env k = [Read_Line [] line, Deliver]"
      "\<And>k. ce_wake env k = Wake_Answer"
    and "line_envelope (strip_line line) = Some e" "re_env_type e = ''response''" "re_env_id e = next_request h"
  shows "fst (send_command env payload h) = command_result e \<and>
    rh_stdin (snd (send_command env payload h)) = rh_stdin h @ [command_line payload (next_request h)]"
proof -
  let ?n = "length (rh_calls h)" and ?h1 = "write_command (length (rh_calls h)) (begin_command payload h)"
  note w = written_command [OF assms(1-3) refl, of payload]
  have "map_option (\<lambda>k. rc_status (rh_calls k ! ?n)) (handle_run (answer_ops ?n line) ?h1) =
      Some (Returned (command_result e))"
    by (rule response_served [OF w(2,3)]) (use w assms in simp_all)
  moreover have "answer_ops ?n line = [Read_Line [] line, Deliver] @ [Take_Answer ?n]" by (simp add: answer_ops_def)
  ultimately obtain h' where h': "handle_run ([Read_Line [] line, Deliver] @ [Take_Answer ?n]) ?h1 = Some h'"
    "rc_status (rh_calls h' ! ?n) = Returned (command_result e)"
    by (auto simp del: handle_run.simps)
  have "rh_stdin h' = rh_stdin ?h1" by (rule run_stdin [OF h'(1)]) auto
  then show ?thesis using woken_command [OF assms(1-3) env h'] w(8) by simp
qed

lemma orphaned_command:
  assumes "handle_reachable h" "\<not> rh_closed h" "counters_fresh h"
    and env: "\<And>k. ce_write_error env k = None" "\<And>k. ce_meanwhile env k = [Reap]" "\<And>k. ce_wake env k = Wake_Answer"
  shows "fst (send_command env payload h) = Inr zero_envelope \<and> rh_closed (snd (send_command env payload h)) \<and>
    rh_exit (snd (send_command env payload h)) = Reaped"
proof -
  let ?n = "length (rh_calls h)" and ?h1 = "write_command (length (rh_calls h)) (begin_command payload h)"
  note w = written_command [OF assms(1-3) refl, of payload]
  have "registered ?h1 ?n" using map_of_SomeD [OF w(7)] by (auto simp: registered_def)
  from reap_returns_empty [OF w(2,3) this] obtain h' where h': "handle_run ([Reap] @ [Take_Answer ?n]) ?h1 = Some h'"
    "rc_status (rh_calls h' ! ?n) = Returned (Inr zero_envelope)"
    by (auto simp del: handle_run.simps)
  obtain h2 where h2: "reap ?h1 = Some h2" "take_answer ?n h2 = h'"
    using h'(1) by (auto simp: bind_eq_Some_conv split: if_splits)
  have "rh_closed h' = rh_closed h2 \<and> rh_exit h' = rh_exit h2"
    by (auto simp: h2(2) [symmetric] take_answer_def set_status_def split: prod.split received.split)
  moreover have "rh_closed h2 \<and> rh_exit h2 = Reaped"
    using h2(1) by (auto simp: reap_def split: option.splits)
  ultimately show ?thesis using woken_command [OF assms(1-3) env h'] by simp
qed

section \<open>The processes of a server\<close>

text \<open>Whatever sequence of starts, commands, UI answers, subscriptions, closes and background steps, the
  handles stay among the states of \<open>Rpc_Handle\<close>: its theorems hold of every handle here.\<close>

lemma processes_stay_reachable:
  assumes "enabled world_fresh (world_step os m) es []" "p \<in> set (snd (run (world_step os m) es []))"
  shows "handle_reachable (pr_handle p)" "\<exists>opts. plan_launch os m opts = Inr (pr_launch p)"
proof -
  have "list_all (process_ok os m) (snd (run (world_step os m) es []))"
    by (rule world.run_inv [OF _ assms(1)]) simp
  with assms(2) show "handle_reachable (pr_handle p)" "\<exists>opts. plan_launch os m opts = Inr (pr_launch p)"
    by (simp_all add: list_all_iff process_ok_def)
qed

definition plain_os :: "unit os_env" where
  "plain_os = \<lparr>os_getwd = Inr ''/srv'', os_stat_is_dir = (\<lambda>p. Inr True), os_mkdir_all = (\<lambda>p. None),
     os_read_dir = (\<lambda>p. None), os_spawn = (\<lambda>la. Inr ())\<rparr>"

text \<open>The agent answers the first command; the context of a call ends otherwise.\<close>

definition answering :: "handle_op list \<Rightarrow> call_env" where
  "answering ops = \<lparr>ce_write_error = (\<lambda>h. None), ce_meanwhile = (\<lambda>h. ops), ce_wake = (\<lambda>h. Wake_Answer),
     ce_context_error = ''context canceled'', ce_close_event = (\<lambda>h. Exit_Seen)\<rparr>"

end
