(* ===== verification/Session_Manager.thy ===== *)
theory Session_Manager
  imports Sqlite Noop_Manager
begin

text \<open>
  \<open>internal/session/manager.go\<close>. The manager's state is its counter (a \<open>uint64\<close>), the map of live
  handles, and the worlds of the store and of the process manager it drives; both interfaces are
  parameters. A method that holds the lock throughout is one function; \<open>Resume\<close> and \<open>Delete\<close>,
  which release it, are composed of their parts. The goroutine that \<open>Create\<close> and \<open>Resume\<close> start
  subscribes to the handle at once and then is \<open>bump_last_active\<close> on the events it receives. The text
  with which \<open>Init\<close> wraps an error is only logged and left out.
\<close>

datatype mgr_error = Mgr_Not_Found | Mgr_Store store_error | Mgr_Process string

record 'h session =
  se_id :: string
  se_user_id :: string
  se_project_id :: string
  se_external_id :: string
  se_working_dir :: string
  se_created_at :: go_time
  se_last_active :: go_time
  se_handle :: 'h

record ('h, 'w, 'p) manager =
  m_counter :: "64 word"
  m_handles :: "string \<rightharpoonup> 'h"
  m_store :: 'w
  m_procs :: 'p

definition new_manager :: "'w \<Rightarrow> 'p \<Rightarrow> ('h, 'w, 'p) manager" where
  "new_manager w p = \<lparr>m_counter = 0, m_handles = Map.empty, m_store = w, m_procs = p\<rparr>"

text \<open>\<open>&Session{...}\<close> of \<open>Get\<close> and \<open>Resume\<close>.\<close>

definition session_of :: "session_record \<Rightarrow> 'h \<Rightarrow> 'h session" where
  "session_of r h =
     \<lparr>se_id = s_id r, se_user_id = s_user_id r, se_project_id = s_project_id r,
      se_external_id = s_external_id r, se_working_dir = s_working_dir r, se_created_at = s_created_at r,
      se_last_active = s_last_active_at r, se_handle = h\<rparr>"

section \<open>Methods\<close>

definition id_number :: "string \<Rightarrow> nat option" where
  "id_number max_id =
     (let num = trim_left (trim_prefix max_id ''s_'') ''0'' in
        parse_uint64 (if num = [] then ''0'' else num))"

definition manager_init :: "'w store_ops \<Rightarrow> ('h, 'w, 'p) manager \<Rightarrow> (mgr_error + unit) \<times> ('h, 'w, 'p) manager" where
  "manager_init st m =
     (case st_max_id st (m_store m) of
        (Inl e, w) \<Rightarrow> (Inl (Mgr_Store e), m\<lparr>m_store := w\<rparr>)
      | (Inr max_id, w) \<Rightarrow>
          (Inr (), m\<lparr>m_store := w,
             m_counter :=
               (if max_id = [] then m_counter m
                else (case id_number max_id of
                        None \<Rightarrow> m_counter m
                      | Some n \<Rightarrow> if m_counter m < word_of_nat n then word_of_nat n else m_counter m))\<rparr>))"

definition manager_create ::
  "'w store_ops \<Rightarrow> ('h, 'p) process_manager \<Rightarrow> go_time \<Rightarrow> string \<Rightarrow> string \<Rightarrow> string \<Rightarrow> string \<Rightarrow>
   ('h, 'w, 'p) manager \<Rightarrow> (mgr_error + 'h session) \<times> ('h, 'w, 'p) manager" where
  "manager_create st pm now user_id project_id external_id working_dir m0 =
     (let m = m0\<lparr>m_counter := m_counter m0 + 1\<rparr>;
          sid = session_id (unat (m_counter m));
          opts = \<lparr>so_session_id = sid, so_user_id = user_id, so_project_id = project_id,
                  so_working_dir = working_dir\<rparr>
      in (case pm_resolve_working_dir pm opts (m_procs m) of
            Inl e \<Rightarrow> (Inl (Mgr_Process e), m)
          | Inr resolved \<Rightarrow>
              (case pm_start pm opts (m_procs m) of
                 (Inl e, p) \<Rightarrow> (Inl (Mgr_Process e), m\<lparr>m_procs := p\<rparr>)
               | (Inr h, p) \<Rightarrow>
                   (case st_create st now
                      \<lparr>s_id = sid, s_user_id = user_id, s_project_id = project_id,
                       s_external_id = external_id, s_status = ''active'', s_pi_pid = 0,
                       s_working_dir = resolved, s_created_at = now, s_last_active_at = now\<rparr>
                      (m_store m) of
                      (Inl e, w) \<Rightarrow>
                        (Inl (Mgr_Store e), m\<lparr>m_store := w, m_procs := snd (ah_close pm h p)\<rparr>)
                    | (Inr u, w) \<Rightarrow>
                        (Inr \<lparr>se_id = sid, se_user_id = user_id, se_project_id = project_id,
                              se_external_id = external_id, se_working_dir = resolved,
                              se_created_at = now, se_last_active = now, se_handle = h\<rparr>,
                         m\<lparr>m_store := w, m_handles := (m_handles m)(sid \<mapsto> h),
                           m_procs := snd (ah_subscribe pm h p)\<rparr>)))))"

text \<open>\<open>GetSession\<close> with the two not-found errors translated.\<close>

definition lookup_record :: "'w store_ops \<Rightarrow> string \<Rightarrow> 'w \<Rightarrow> (mgr_error + session_record) \<times> 'w" where
  "lookup_record st sid w0 =
     (case st_get st sid w0 of
        (Inl Store_Not_Found, w) \<Rightarrow> (Inl Mgr_Not_Found, w)
      | (Inl e, w) \<Rightarrow> (Inl (Mgr_Store e), w)
      | (Inr r, w) \<Rightarrow> (Inr r, w))"

definition manager_get ::
  "'w store_ops \<Rightarrow> string \<Rightarrow> ('h, 'w, 'p) manager \<Rightarrow> (mgr_error + 'h session) \<times> ('h, 'w, 'p) manager" where
  "manager_get st sid m =
     (case m_handles m sid of
        None \<Rightarrow> (Inl Mgr_Not_Found, m)
      | Some h \<Rightarrow>
          (case lookup_record st sid (m_store m) of
             (Inl e, w) \<Rightarrow> (Inl e, m\<lparr>m_store := w\<rparr>)
           | (Inr r, w) \<Rightarrow> (Inr (session_of r h), m\<lparr>m_store := w\<rparr>)))"

text \<open>The locked part of \<open>Resume\<close>: the handle and whether it was started here.\<close>

definition resume_attach ::
  "('h, 'p) process_manager \<Rightarrow> string \<Rightarrow> session_record \<Rightarrow> ('h, 'w, 'p) manager \<Rightarrow>
   (mgr_error + 'h \<times> bool) \<times> ('h, 'w, 'p) manager" where
  "resume_attach pm sid r m =
     (case m_handles m sid of
        Some h \<Rightarrow> (Inr (h, False), m)
      | None \<Rightarrow>
          (case pm_start pm \<lparr>so_session_id = s_id r, so_user_id = s_user_id r,
              so_project_id = s_project_id r, so_working_dir = s_working_dir r\<rparr> (m_procs m) of
             (Inl e, p) \<Rightarrow> (Inl (Mgr_Process (''resume session: '' @ e)), m\<lparr>m_procs := p\<rparr>)
           | (Inr h, p) \<Rightarrow> (Inr (h, True), m\<lparr>m_procs := p, m_handles := (m_handles m)(sid \<mapsto> h)\<rparr>)))"

definition manager_resume ::
  "'w store_ops \<Rightarrow> ('h, 'p) process_manager \<Rightarrow> go_time \<Rightarrow> string \<Rightarrow> ('h, 'w, 'p) manager \<Rightarrow>
   (mgr_error + 'h session) \<times> ('h, 'w, 'p) manager" where
  "manager_resume st pm now sid m0 =
     (case lookup_record st sid (m_store m0) of
        (Inl e, w) \<Rightarrow> (Inl e, m0\<lparr>m_store := w\<rparr>)
      | (Inr r, w) \<Rightarrow>
          (case resume_attach pm sid r (m0\<lparr>m_store := w\<rparr>) of
             (Inl e, m) \<Rightarrow> (Inl e, m)
           | (Inr (h, started), m) \<Rightarrow>
               if \<not> started then (Inr (session_of r h), m)
               else
                 (Inr ((session_of r h)\<lparr>se_last_active := now\<rparr>),
                  m\<lparr>m_store := snd (st_touch st now sid now (m_store m)),
                    m_procs := snd (ah_subscribe pm h (m_procs m))\<rparr>)))"

definition manager_list ::
  "'w store_ops \<Rightarrow> list_sessions_query \<Rightarrow> ('h, 'w, 'p) manager \<Rightarrow>
   (mgr_error + session_record list) \<times> ('h, 'w, 'p) manager" where
  "manager_list st q m =
     (case st_list st q (m_store m) of
        (Inl e, w) \<Rightarrow> (Inl (Mgr_Store e), m\<lparr>m_store := w\<rparr>)
      | (Inr rs, w) \<Rightarrow> (Inr rs, m\<lparr>m_store := w\<rparr>))"

text \<open>The locked part of \<open>Delete\<close>, and \<open>Delete\<close>.\<close>

definition detach :: "string \<Rightarrow> ('h, 'w, 'p) manager \<Rightarrow> 'h option \<times> ('h, 'w, 'p) manager" where
  "detach sid m = (m_handles m sid, m\<lparr>m_handles := (m_handles m)(sid := None)\<rparr>)"

definition manager_delete ::
  "'w store_ops \<Rightarrow> ('h, 'p) process_manager \<Rightarrow> string \<Rightarrow> ('h, 'w, 'p) manager \<Rightarrow>
   (mgr_error + unit) \<times> ('h, 'w, 'p) manager" where
  "manager_delete st pm sid m0 =
     (case detach sid m0 of (live, m) \<Rightarrow>
        (case st_delete st sid (m_store m) of (store_result, w) \<Rightarrow>
           (case live of
              Some h \<Rightarrow>
                (case ah_close pm h (m_procs m) of
                   (Inl e, p) \<Rightarrow> (Inl (Mgr_Process e), m\<lparr>m_store := w, m_procs := p\<rparr>)
                 | (Inr u, p) \<Rightarrow> (Inr (), m\<lparr>m_store := w, m_procs := p\<rparr>))
            | None \<Rightarrow>
                (case store_result of
                   Inl e \<Rightarrow> (Inl Mgr_Not_Found, m\<lparr>m_store := w\<rparr>)
                 | Inr u \<Rightarrow> (Inr (), m\<lparr>m_store := w\<rparr>)))))"

text \<open>The loop of \<open>bumpLastActiveOnRunEnd\<close>, each event with the clock reading after it.\<close>

fun bump_last_active ::
  "'w store_ops \<Rightarrow> string \<Rightarrow> (go_time \<times> event) list \<Rightarrow> ('h, 'w, 'p) manager \<Rightarrow> ('h, 'w, 'p) manager" where
  "bump_last_active st sid [] m = m"
| "bump_last_active st sid ((now, e) # es) m =
     bump_last_active st sid es
       (if ev_type e \<noteq> ''agent.run.end'' then m
        else m\<lparr>m_store := snd (st_touch st now sid now (m_store m))\<rparr>)"

section \<open>A session's own methods\<close>

text \<open>Each first sets \<open>LastActive\<close> of the request's own \<open>Session\<close> value; nothing reads it afterwards, and
  it is left out.\<close>

definition on_procs ::
  "('p \<Rightarrow> (string + 'a) \<times> 'p) \<Rightarrow> ('h, 'w, 'p) manager \<Rightarrow> (mgr_error + 'a) \<times> ('h, 'w, 'p) manager" where
  "on_procs f m =
     (case f (m_procs m) of
        (Inl e, p) \<Rightarrow> (Inl (Mgr_Process e), m\<lparr>m_procs := p\<rparr>)
      | (Inr a, p) \<Rightarrow> (Inr a, m\<lparr>m_procs := p\<rparr>))"

definition session_prompt where
  "session_prompt pm s req = on_procs (ah_prompt pm (se_handle s) req)"

definition session_abort where
  "session_abort pm s = on_procs (ah_abort pm (se_handle s))"

definition session_state where
  "session_state pm s = on_procs (ah_get_state pm (se_handle s))"

definition session_messages where
  "session_messages pm s = on_procs (ah_get_messages pm (se_handle s))"

definition session_messages_raw where
  "session_messages_raw pm s = on_procs (ah_get_messages_raw pm (se_handle s))"

definition session_send_ui_response where
  "session_send_ui_response pm s resp = on_procs (ah_send_ui_response pm (se_handle s) resp)"

definition session_subscribe where
  "session_subscribe pm s m =
     (case ah_subscribe pm (se_handle s) (m_procs m) of (sub, p) \<Rightarrow> (sub, m\<lparr>m_procs := p\<rparr>))"

section \<open>Operations in sequence\<close>

datatype mgr_op =
    Op_Create go_time string string string string
  | Op_Get string
  | Op_Resume go_time string
  | Op_List list_sessions_query
  | Op_Delete string
  | Op_Run_End go_time string

fun mgr_step ::
  "'w store_ops \<Rightarrow> ('h, 'p) process_manager \<Rightarrow> mgr_op \<Rightarrow> ('h, 'w, 'p) manager \<Rightarrow>
   mgr_error option \<times> ('h, 'w, 'p) manager" where
  "mgr_step st pm (Op_Create now u p x wd) m =
     (case manager_create st pm now u p x wd m of (Inl e, m') \<Rightarrow> (Some e, m') | (Inr s, m') \<Rightarrow> (None, m'))"
| "mgr_step st pm (Op_Get sid) m =
     (case manager_get st sid m of (Inl e, m') \<Rightarrow> (Some e, m') | (Inr s, m') \<Rightarrow> (None, m'))"
| "mgr_step st pm (Op_Resume now sid) m =
     (case manager_resume st pm now sid m of (Inl e, m') \<Rightarrow> (Some e, m') | (Inr s, m') \<Rightarrow> (None, m'))"
| "mgr_step st pm (Op_List q) m =
     (case manager_list st q m of (Inl e, m') \<Rightarrow> (Some e, m') | (Inr s, m') \<Rightarrow> (None, m'))"
| "mgr_step st pm (Op_Delete sid) m =
     (case manager_delete st pm sid m of (Inl e, m') \<Rightarrow> (Some e, m') | (Inr s, m') \<Rightarrow> (None, m'))"
| "mgr_step st pm (Op_Run_End now sid) m =
     (None, bump_last_active st sid [(now, new_event [] ''agent.run.end'' (RunEnd None))] m)"

fun op_times_valid :: "mgr_op \<Rightarrow> bool" where
  "op_times_valid (Op_Create now u p x wd) \<longleftrightarrow> valid_time now \<and> now \<noteq> zero_time"
| "op_times_valid (Op_Resume now sid) \<longleftrightarrow> valid_time now \<and> now \<noteq> zero_time"
| "op_times_valid (Op_Run_End now sid) \<longleftrightarrow> valid_time now \<and> now \<noteq> zero_time"
| "op_times_valid op \<longleftrightarrow> True"

text \<open>The clock is past year 1 and the counter has room for one more session.\<close>

definition mgr_pre :: "mgr_op \<Rightarrow> ('h, 'w, 'p) manager \<Rightarrow> bool" where
  "mgr_pre op m \<longleftrightarrow> op_times_valid op \<and> unat (m_counter m) + 1 < 2 ^ 64"

text \<open>Ids up to the counter.\<close>

definition issued :: "nat \<Rightarrow> string set" where
  "issued n = session_id ` {k. k \<le> n}"

lemma issued_mono: "m \<le> n \<Longrightarrow> issued m \<subseteq> issued n"
  by (auto simp: issued_def)

lemma next_not_issued [simp]: "session_id (Suc n) \<notin> issued n"
  by (auto simp: issued_def)

lemma next_issued [simp]: "session_id n \<in> issued n"
  by (auto simp: issued_def)

lemma unat_next: "unat c + 1 < 2 ^ 64 \<Longrightarrow> unat (c + 1) = unat c + 1" for c :: "64 word"
  by (simp add: unat_word_ariths)

section \<open>The manager over any store that keeps the contract\<close>

definition mgr_ok ::
  "('w \<Rightarrow> string \<Rightarrow> session_record option) \<Rightarrow> ('w \<Rightarrow> bool) \<Rightarrow> ('h, 'w, 'p) manager \<Rightarrow> bool" where
  "mgr_ok view ok m \<longleftrightarrow> ok (m_store m) \<and> dom (m_handles m) \<subseteq> dom (view (m_store m)) \<and>
     dom (view (m_store m)) \<subseteq> issued (unat (m_counter m))"

lemma mgr_ok_simps [simp]:
  "mgr_ok view ok (m\<lparr>m_procs := p\<rparr>) \<longleftrightarrow> mgr_ok view ok m"
  by (simp add: mgr_ok_def)

lemma mgr_ok_store:
  "mgr_ok view ok m \<Longrightarrow> ok w \<Longrightarrow> dom (view w) = dom (view (m_store m)) \<Longrightarrow>
   mgr_ok view ok (m\<lparr>m_store := w\<rparr>)"
  by (simp add: mgr_ok_def)

lemma mgr_ok_register:
  "mgr_ok view ok m \<Longrightarrow> sid \<in> dom (view (m_store m)) \<Longrightarrow>
   mgr_ok view ok (m\<lparr>m_procs := p, m_handles := (m_handles m)(sid \<mapsto> h)\<rparr>)"
  by (simp add: mgr_ok_def)

text \<open>The record \<open>Create\<close> stores, and the process options.\<close>

definition create_record :: "string \<Rightarrow> string \<Rightarrow> string \<Rightarrow> string \<Rightarrow> string \<Rightarrow> go_time \<Rightarrow> session_record" where
  "create_record sid u p x wd now =
     \<lparr>s_id = sid, s_user_id = u, s_project_id = p, s_external_id = x, s_status = ''active'', s_pi_pid = 0,
      s_working_dir = wd, s_created_at = now, s_last_active_at = now\<rparr>"

lemma create_cases:
  fixes m :: "('h, 'w, 'p) manager"
  defines "sid \<equiv> session_id (unat (m_counter m + 1))"
  obtains (no_process) e p' where
    "manager_create st pm now u p x wd m =
       (Inl (Mgr_Process e), m\<lparr>m_counter := m_counter m + 1, m_procs := p'\<rparr>)"
  | (store_error) e wd' h p' w' where
    "st_create st now (create_record sid u p x wd' now) (m_store m) = (Inl e, w')"
    "manager_create st pm now u p x wd m =
       (Inl (Mgr_Store e),
        m\<lparr>m_counter := m_counter m + 1, m_store := w', m_procs := snd (ah_close pm h p')\<rparr>)"
  | (created) wd' h p' w' where
    "st_create st now (create_record sid u p x wd' now) (m_store m) = (Inr (), w')"
    "manager_create st pm now u p x wd m =
       (Inr \<lparr>se_id = sid, se_user_id = u, se_project_id = p, se_external_id = x, se_working_dir = wd',
             se_created_at = now, se_last_active = now, se_handle = h\<rparr>,
        m\<lparr>m_counter := m_counter m + 1, m_handles := (m_handles m)(sid \<mapsto> h), m_store := w',
          m_procs := snd (ah_subscribe pm h p')\<rparr>)"
proof -
  let ?opts = "\<lparr>so_session_id = sid, so_user_id = u, so_project_id = p, so_working_dir = wd\<rparr>"
  note defs = manager_create_def Let_def sid_def [symmetric] create_record_def [symmetric]
  show thesis
  proof (cases "pm_resolve_working_dir pm ?opts (m_procs m)")
    case (Inl e)
    then show ?thesis by (intro no_process [of e "m_procs m"]) (simp add: defs)
  next
    case resolved: (Inr wd')
    show ?thesis
    proof (cases "pm_start pm ?opts (m_procs m)")
      case started: (Pair r p')
      show ?thesis
      proof (cases r)
        case (Inl e)
        with resolved started show ?thesis by (intro no_process [of e p']) (simp add: defs)
      next
        case (Inr h)
        show ?thesis
        proof (cases "st_create st now (create_record sid u p x wd' now) (m_store m)")
          case stored: (Pair r2 w')
          show ?thesis
          proof (cases r2)
            case Inl
            with resolved started Inr stored show ?thesis
              by (intro store_error [of wd' _ w' h p']) (simp_all add: defs)
          next
            case Inr': Inr
            with resolved started Inr stored show ?thesis
              by (intro created [of wd' w' h p']) (simp_all add: defs)
          qed
        qed
      qed
    qed
  qed
qed

lemma drop_zeros: "dropWhile (\<lambda>c. c = x) (replicate k x @ ys) = dropWhile (\<lambda>c. c = x) ys"
  by (induction k) auto

lemma unat_small: "k < 2 ^ 64 \<Longrightarrow> unat (word_of_nat k :: 64 word) = k"
  by (simp add: unsigned_of_nat take_bit_nat_eq_self)

lemma trim_left_zeros:
  "trim_left (pad_zeros w (fmt_nat n)) ''0'' = (if n = 0 then [] else fmt_nat n)"
proof (cases "n = 0")
  case True
  then show ?thesis by (simp add: trim_left_def pad_zeros_def fmt_nat.simps [of 0] drop_zeros)
next
  case False
  obtain c cs where "fmt_nat n = c # cs" by (cases "fmt_nat n") auto
  with False fmt_nat_leading_digit [of n] show ?thesis
    by (simp add: trim_left_def pad_zeros_def drop_zeros)
qed

lemma id_number_session_id: "n < 2 ^ 64 \<Longrightarrow> id_number (session_id n) = Some n"
  using parse_uint64_fmt_nat [of n] parse_uint64_fmt_nat [of 0]
  by (simp add: id_number_def session_id_def trim_prefix_def has_prefix_def fmt_06d_def
      trim_left_zeros Let_def fmt_nat.simps [of 0])

lemma session_id_nonempty: "session_id n \<noteq> []"
  by (simp add: session_id_def)

locale session_manager = numbered_store st view ok
  for st :: "'w store_ops" and view :: "'w \<Rightarrow> string \<Rightarrow> session_record option" and ok :: "'w \<Rightarrow> bool" +
  fixes pm :: "('h, 'p) process_manager"
begin

text \<open>\<open>Create\<close>: a fresh id, stored and registered; an error leaves sessions and handles alone.\<close>

lemma create_outcome:
  assumes "mgr_ok view ok m" "valid_time now" "now \<noteq> zero_time" "unat (m_counter m) + 1 < 2 ^ 64"
    and "manager_create st pm now u p x wd m = (res, m')"
  shows "m_counter m' = m_counter m + 1 \<and> mgr_ok view ok m' \<and>
    (case res of
       Inl e \<Rightarrow> m_handles m' = m_handles m \<and> view (m_store m') = view (m_store m)
     | Inr s \<Rightarrow>
         se_id s = session_id (unat (m_counter m) + 1) \<and> view (m_store m) (se_id s) = None \<and>
         m_handles m (se_id s) = None \<and> m_handles m' = (m_handles m)(se_id s \<mapsto> se_handle s) \<and>
         view (m_store m') = (view (m_store m))(se_id s \<mapsto>
           stored now (create_record (se_id s) u p x (se_working_dir s) now)))"
proof -
  define c where "c = unat (m_counter m) + 1"
  have c: "unat (m_counter m + 1) = c" using assms(4) by (simp add: c_def unat_next)
  have ok: "ok (m_store m)" and h: "dom (m_handles m) \<subseteq> dom (view (m_store m))"
    and ids: "dom (view (m_store m)) \<subseteq> issued (unat (m_counter m))"
    using assms(1) by (auto simp: mgr_ok_def)
  have "session_id c \<notin> issued (unat (m_counter m))" by (simp add: c_def)
  then have fresh: "view (m_store m) (session_id c) = None" "m_handles m (session_id c) = None"
    using h ids by auto
  have more: "issued (unat (m_counter m)) \<subseteq> issued c" by (rule issued_mono) (simp add: c_def)
  have st: "storable now (create_record (session_id c) u p x wd' now)" for wd'
    using assms(2) by (simp add: storable_def create_record_def)
  show ?thesis
  proof (cases rule: create_cases [of st pm now u p x wd m])
    case (no_process e p')
    then show ?thesis using assms(5) ok h ids more c by (auto simp: mgr_ok_def)
  next
    case (store_error e wd' h' p' w')
    note sc = store_error(1) [unfolded c]
    have "view w' = view (m_store m)" "ok w'"
      using create_failed [of now _ "m_store m" e] ok_create [OF ok] sc by (metis fst_conv snd_conv)+
    moreover have "res = Inl (Mgr_Store e)"
      "m' = m\<lparr>m_counter := m_counter m + 1, m_store := w', m_procs := snd (ah_close pm h' p')\<rparr>"
      using assms(5) store_error(2) by simp_all
    ultimately show ?thesis using h subset_trans [OF ids more] c by (simp add: mgr_ok_def)
  next
    case (created wd' h' p' w')
    note sc = created(1) [unfolded c]
    have "view w' = (view (m_store m))(session_id c \<mapsto> stored now (create_record (session_id c) u p x wd' now))"
      using create_done [OF ok st [of wd']] sc by (simp add: create_record_def)
    moreover have "ok w'" using ok_create [OF ok] sc by (metis snd_conv)
    moreover have "m' = m\<lparr>m_counter := m_counter m + 1, m_handles := (m_handles m)(session_id c \<mapsto> h'),
        m_store := w', m_procs := snd (ah_subscribe pm h' p')\<rparr>"
      "res = Inr \<lparr>se_id = session_id c, se_user_id = u, se_project_id = p, se_external_id = x,
        se_working_dir = wd', se_created_at = now, se_last_active = now, se_handle = h'\<rparr>"
      using assms(5) created(2) c by simp_all
    moreover have "insert (session_id c) (dom (m_handles m)) \<subseteq> insert (session_id c) (dom (view (m_store m)))"
      "insert (session_id c) (dom (view (m_store m))) \<subseteq> issued c"
      using h ids more by auto
    ultimately show ?thesis using c fresh by (simp add: mgr_ok_def) (simp add: c_def)
  qed
qed

lemma lookup_outcome:
  assumes "ok w"
  shows "view (snd (lookup_record st sid w)) = view w \<and> ok (snd (lookup_record st sid w)) \<and>
    (case fst (lookup_record st sid w) of
       Inr r \<Rightarrow> view w sid = Some r
     | Inl Mgr_Not_Found \<Rightarrow> view w sid = None
     | Inl e \<Rightarrow> True)"
proof -
  obtain r w' where g: "st_get st sid w = (r, w')" by fastforce
  then have w': "view w' = view w" "ok w'"
    using get_view [of sid w] ok_get [OF assms, of sid] by simp_all
  then show ?thesis
    using g get_found [OF assms, of sid] get_missing [OF assms, of sid]
    by (auto simp: lookup_record_def split: sum.split store_error.split)
qed

text \<open>\<open>Get\<close>: only sessions with a live handle; the record is the stored one.\<close>

lemma get_outcome:
  assumes "mgr_ok view ok m" "manager_get st sid m = (res, m')"
  shows "mgr_ok view ok m' \<and> view (m_store m') = view (m_store m) \<and> m_handles m' = m_handles m \<and>
    m_counter m' = m_counter m \<and> m_procs m' = m_procs m \<and>
    (case res of
       Inr s \<Rightarrow> \<exists>r h. m_handles m sid = Some h \<and> view (m_store m) sid = Some r \<and> s = session_of r h
     | Inl e \<Rightarrow> e = Mgr_Not_Found \<longrightarrow> m_handles m sid = None)"
proof -
  have ok: "ok (m_store m)" and h: "dom (m_handles m) \<subseteq> dom (view (m_store m))"
    using assms(1) by (simp_all add: mgr_ok_def)
  obtain r w' where l: "lookup_record st sid (m_store m) = (r, w')" by fastforce
  note lo = lookup_outcome [OF ok, of sid, unfolded l fst_conv snd_conv]
  have "mgr_ok view ok (m\<lparr>m_store := w'\<rparr>)" using assms(1) lo by (simp add: mgr_ok_def)
  then show ?thesis
    using assms lo h l
    by (auto simp: manager_get_def split: option.splits sum.splits mgr_error.splits)
qed

lemma attach_outcome:
  assumes "mgr_ok view ok m" "view (m_store m) sid = Some r" "resume_attach pm sid r m = (res, m')"
  shows "mgr_ok view ok m' \<and> m_store m' = m_store m \<and> m_counter m' = m_counter m \<and>
    (case res of
       Inl e \<Rightarrow> m_handles m' = m_handles m \<and> m_handles m sid = None \<and> e \<noteq> Mgr_Not_Found
     | Inr (h, started) \<Rightarrow>
         m_handles m' = (m_handles m)(sid \<mapsto> h) \<and> started = (m_handles m sid = None) \<and>
         (m_handles m sid \<noteq> None \<longrightarrow> m' = m \<and> m_handles m sid = Some h))"
proof (cases "m_handles m sid")
  case None
  have "sid \<in> dom (view (m_store m))" using assms(2) by auto
  note reg = mgr_ok_register [OF assms(1) this]
  show ?thesis
    using assms(1,3) None reg by (auto simp: resume_attach_def split: prod.splits sum.splits)
next
  case (Some h)
  then show ?thesis using assms by (auto simp: resume_attach_def fun_upd_idem)
qed

lemma touch_state:
  assumes "ok w" "valid_time now"
  shows "ok (snd (st_touch st now sid now w))" "dom (view (snd (st_touch st now sid now w))) = dom (view w)"
  using ok_touch [OF assms(1)] touch_dom [OF assms assms(2)] by simp_all

text \<open>\<open>Resume\<close>: a stored session ends up with one handle; a live session keeps the one it has, and
  then no process is started.\<close>

lemma resume_outcome:
  assumes "mgr_ok view ok m" "valid_time now" "manager_resume st pm now sid m = (res, m')"
  shows "mgr_ok view ok m' \<and> m_counter m' = m_counter m \<and>
    dom (view (m_store m')) = dom (view (m_store m)) \<and>
    (case res of
       Inl e \<Rightarrow> m_handles m' = m_handles m \<and> (e = Mgr_Not_Found \<longrightarrow> view (m_store m) sid = None)
     | Inr s \<Rightarrow>
         (\<exists>r. view (m_store m) sid = Some r) \<and> se_id s = sid \<and>
         m_handles m' = (m_handles m)(sid \<mapsto> se_handle s) \<and>
         (m_handles m sid \<noteq> None \<longrightarrow> m_handles m sid = Some (se_handle s) \<and> m_procs m' = m_procs m))"
proof -
  have ok: "ok (m_store m)" using assms(1) by (simp add: mgr_ok_def)
  obtain lr w where l: "lookup_record st sid (m_store m) = (lr, w)" by fastforce
  note lo = lookup_outcome [OF ok, of sid, unfolded l fst_conv snd_conv]
  define m1 where "m1 = m\<lparr>m_store := w\<rparr>"
  have ok1: "mgr_ok view ok m1" using assms(1) lo by (simp add: mgr_ok_def m1_def)
  show ?thesis
  proof (cases lr)
    case (Inl e)
    then have "res = Inl e" "m' = m1" using assms(3) l by (simp_all add: manager_resume_def m1_def)
    then show ?thesis using ok1 lo Inl by (auto simp: m1_def split: mgr_error.splits)
  next
    case (Inr r)
    then have r: "view (m_store m) sid = Some r" "view w = view (m_store m)" using lo by simp_all
    then have r1: "view (m_store m1) sid = Some r" by (simp add: m1_def)
    have rid: "s_id r = sid" using view_id [OF ok r(1)] .
    obtain ar m2 where at: "resume_attach pm sid r m1 = (ar, m2)" by fastforce
    note ao = attach_outcome [OF ok1 r1 at]
    have eq: "(res, m') = (case ar of Inl e \<Rightarrow> (Inl e, m2)
      | Inr (h, started) \<Rightarrow> if \<not> started then (Inr (session_of r h), m2)
        else (Inr ((session_of r h)\<lparr>se_last_active := now\<rparr>),
              m2\<lparr>m_store := snd (st_touch st now sid now (m_store m2)),
                m_procs := snd (ah_subscribe pm h (m_procs m2))\<rparr>))"
      using assms(3) l Inr at by (simp add: manager_resume_def m1_def)
    show ?thesis
    proof (cases ar)
      case Inl': (Inl e)
      then show ?thesis using eq ao r by (auto simp: m1_def)
    next
      case Inr': (Inr hs)
      obtain h started where hs: "hs = (h, started)" by fastforce
      show ?thesis
      proof (cases started)
        case False
        then show ?thesis using eq ao r rid Inr' hs by (auto simp: m1_def session_of_def)
      next
        case True
        have "ok (m_store m2)" using conjunct1 [OF ao] by (simp add: mgr_ok_def)
        note ts = touch_state [OF this assms(2), of sid]
        have "mgr_ok view ok (m2\<lparr>m_store := snd (st_touch st now sid now (m_store m2))\<rparr>)"
          by (rule mgr_ok_store [OF conjunct1 [OF ao] ts])
        then show ?thesis
          using eq ao r rid Inr' hs True ts by (auto simp: m1_def session_of_def)
      qed
    qed
  qed
qed

text \<open>\<open>Delete\<close>: the handle is gone, and the record too unless the store failed.\<close>

lemma delete_outcome:
  assumes "mgr_ok view ok m" "manager_delete st pm sid m = (res, m')"
  shows "mgr_ok view ok m' \<and> m_counter m' = m_counter m \<and> m_handles m' = (m_handles m)(sid := None) \<and>
    view (m_store m') =
      (if fst (st_delete st sid (m_store m)) = Inr () then (view (m_store m))(sid := None) else view (m_store m)) \<and>
    (m_handles m sid = None \<longrightarrow> (res = Inr () \<longleftrightarrow> fst (st_delete st sid (m_store m)) = Inr ()))"
proof -
  have ok: "ok (m_store m)" and h: "dom (m_handles m) \<subseteq> dom (view (m_store m))"
    and ids: "dom (view (m_store m)) \<subseteq> issued (unat (m_counter m))"
    using assms(1) by (auto simp: mgr_ok_def)
  obtain dr w where d: "st_delete st sid (m_store m) = (dr, w)" by fastforce
  have w: "ok w" using ok_delete [OF ok, of sid] d by simp
  have v: "view w = (if dr = Inr () then (view (m_store m))(sid := None) else view (m_store m))"
    using delete_done [OF ok, of sid] delete_failed [of sid "m_store m"] d by (cases dr) auto
  have "dom ((m_handles m)(sid := None)) \<subseteq> dom (view w)" "dom (view w) \<subseteq> issued (unat (m_counter m))"
    using h ids by (auto simp: v)
  then have "mgr_ok view ok (m\<lparr>m_handles := (m_handles m)(sid := None), m_store := w\<rparr>)"
    using w by (simp add: mgr_ok_def)
  then show ?thesis
    using assms(2) d v
    by (auto simp: manager_delete_def detach_def split: option.splits prod.splits sum.splits)
qed

lemma bump_outcome:
  assumes "mgr_ok view ok m" "valid_time now"
  shows "mgr_ok view ok (bump_last_active st sid [(now, e)] m)"
  using assms touch_state [of "m_store m" now sid] by (simp add: mgr_ok_def)

lemma list_outcome:
  assumes "mgr_ok view ok m"
  shows "mgr_ok view ok (snd (manager_list st q m))"
proof -
  obtain r w where l: "st_list st q (m_store m) = (r, w)" by fastforce
  have "view w = view (m_store m)" "ok w"
    using list_view [of q "m_store m"] ok_list [of "m_store m" q] assms l by (simp_all add: mgr_ok_def)
  then show ?thesis using assms l by (cases r) (simp_all add: manager_list_def mgr_ok_def)
qed

lemma mgr_step_ok:
  assumes "mgr_ok view ok m" "mgr_pre op m"
  shows "mgr_ok view ok (snd (mgr_step st pm op m))"
proof (cases op)
  case (Op_Create now u p x wd)
  obtain res m' where "manager_create st pm now u p x wd m = (res, m')" by fastforce
  with create_outcome [OF assms(1) _ _ _ this] assms(2) Op_Create show ?thesis
    by (cases res) (auto simp: mgr_pre_def)
next
  case (Op_Get sid)
  obtain res m' where "manager_get st sid m = (res, m')" by fastforce
  with get_outcome [OF assms(1) this] Op_Get show ?thesis by (cases res) auto
next
  case (Op_Resume now sid)
  obtain res m' where "manager_resume st pm now sid m = (res, m')" by fastforce
  with resume_outcome [OF assms(1) _ this] assms(2) Op_Resume show ?thesis
    by (cases res) (auto simp: mgr_pre_def)
next
  case (Op_List q)
  with list_outcome [OF assms(1), of q] show ?thesis
    by (auto split: prod.split sum.split)
next
  case (Op_Delete sid)
  obtain res m' where "manager_delete st pm sid m = (res, m')" by fastforce
  with delete_outcome [OF assms(1) this] Op_Delete show ?thesis by (cases res) auto
next
  case (Op_Run_End now sid)
  then show ?thesis using bump_outcome assms by (auto simp: mgr_pre_def simp del: bump_last_active.simps)
qed

lemma init_outcome:
  assumes "ok w" "six_digit_ids (dom (view w))" "manager_init st (new_manager w p) = (Inr (), m)"
  shows "mgr_ok view ok m \<and> view (m_store m) = view w \<and> m_procs m = p \<and> m_handles m = Map.empty"
proof -
  obtain r w' where mx: "st_max_id st w = (r, w')" by fastforce
  have w': "view w' = view w" "ok w'" using max_view [of w] ok_max [OF assms(1)] mx by simp_all
  obtain max_id where r: "r = Inr max_id" using assms(3) mx by (cases r) (auto simp: manager_init_def new_manager_def)
  note found = max_found [OF assms(1,2), of max_id]
  have m: "m_store m = w'" "m_procs m = p" "m_handles m = Map.empty"
    using assms(3) mx r by (auto simp: manager_init_def new_manager_def)
  have "dom (view w) \<subseteq> issued (unat (m_counter m))"
  proof (cases "dom (view w) = {}")
    case False
    then obtain k where k: "k < 1000000" "max_id = session_id k" "\<forall>n. session_id n \<in> dom (view w) \<longrightarrow> n \<le> k"
      using found mx r by auto
    have "unat (m_counter m) = k"
      using assms(3) mx r k(1,2) session_id_nonempty [of k]
      by (auto simp: manager_init_def new_manager_def id_number_session_id unat_small word_less_nat_alt)
    moreover have "sid \<in> issued k" if "sid \<in> dom (view w)" for sid
      using bspec [OF assms(2) [unfolded six_digit_ids_def] that] k(3) that
      unfolding issued_def by auto
    ultimately show ?thesis by auto
  qed simp
  then show ?thesis using w' m by (simp add: mgr_ok_def)
qed

end

interpretation sqlite_mgr: session_manager sqlite_store sqlite_view db_ok pm for pm
  by unfold_locales

interpretation mgr_inv: step_invariant "mgr_step sqlite_store pm" "mgr_ok sqlite_view db_ok" mgr_pre for pm
  by unfold_locales (rule sqlite_mgr.mgr_step_ok)

section \<open>Properties\<close>

text \<open>The manager's invariant, over the SQLite store and any process manager: started from a
  store whose ids have six digits, after any sequence of operations every live handle belongs
  to a stored session, and every id in use was issued by the counter, so the next one is new.\<close>

theorem manager_invariant:
  assumes "db_ok d" "six_digit_ids (dom (sqlite_view d))"
    and "manager_init sqlite_store (new_manager d p) = (Inr (), m)"
    and "enabled mgr_pre (mgr_step sqlite_store pm) ops m"
    and "m' = snd (run (mgr_step sqlite_store pm) ops m)"
  shows "dom (m_handles m') \<subseteq> dom (sqlite_view (m_store m')) \<and>
    dom (sqlite_view (m_store m')) \<subseteq> issued (unat (m_counter m')) \<and> db_ok (m_store m')"
proof -
  have "mgr_ok sqlite_view db_ok m" using sqlite_mgr.init_outcome [OF assms(1-3)] by blast
  from mgr_inv.run_inv [OF this assms(4)] show ?thesis by (simp add: mgr_ok_def assms(5))
qed

definition demo_ops :: "mgr_op list" where
  "demo_ops = [Op_Create (noon 2 0) ''u1'' [] ''e2'' ''/w'', Op_Create (noon 3 0) ''u1'' [] ''e2'' ''/w'',
     Op_Resume (noon 4 0) ''s_000001'', Op_Delete ''s_000002'']"

definition demo_manager :: "(nat, db, noop_world) manager" where
  "demo_manager = snd (manager_init sqlite_store (new_manager one_session []))"

lemma six_digit_one_session: "six_digit_ids (dom (sqlite_view one_session))"
proof -
  have "dom (sqlite_view one_session) = {session_id 1}" unfolding dom_sqlite_view by code_simp
  then show ?thesis by (auto simp: six_digit_ids_def intro!: exI [of _ 1])
qed

lemma demo_init:
  "db_ok one_session" "manager_init sqlite_store (new_manager one_session []) = (Inr (), demo_manager)"
proof -
  have "fst (manager_init sqlite_store (new_manager one_session [] :: (nat, db, noop_world) manager)) = Inr ()"
    by code_simp
  then show "manager_init sqlite_store (new_manager one_session []) = (Inr (), demo_manager)"
    by (simp add: demo_manager_def prod_eq_iff)
qed code_simp

theorem manager_invariant_witness:
  "dom (m_handles (snd (run (mgr_step sqlite_store (noop_manager [])) demo_ops demo_manager))) \<subseteq>
   dom (sqlite_view (m_store (snd (run (mgr_step sqlite_store (noop_manager [])) demo_ops demo_manager))))"
proof -
  have "enabled mgr_pre (mgr_step sqlite_store (noop_manager [])) demo_ops demo_manager" by code_simp
  from manager_invariant [OF demo_init(1) six_digit_one_session demo_init(2) this refl]
  show ?thesis by blast
qed

text \<open>C17: \<open>Create\<close>: on success the session has the next id, which no stored session and no handle had,
  it is stored with the resolved working directory and registered with its handle; on any error
  (of the directory, the process, the store) sessions and handles are as before and only the
  counter has moved.\<close>

theorem manager_create_outcome:
  assumes "mgr_ok sqlite_view db_ok m" "valid_time now" "now \<noteq> zero_time" "unat (m_counter m) + 1 < 2 ^ 64"
    and "manager_create sqlite_store pm now u p x wd m = (res, m')"
  shows "m_counter m' = m_counter m + 1 \<and>
    (case res of
       Inl e \<Rightarrow> m_handles m' = m_handles m \<and> sqlite_view (m_store m') = sqlite_view (m_store m)
     | Inr s \<Rightarrow>
         se_id s = session_id (unat (m_counter m) + 1) \<and> sqlite_view (m_store m) (se_id s) = None \<and>
         m_handles m (se_id s) = None \<and> m_handles m' = (m_handles m)(se_id s \<mapsto> se_handle s) \<and>
         sqlite_view (m_store m') = (sqlite_view (m_store m))(se_id s \<mapsto>
           stored now (create_record (se_id s) u p x (se_working_dir s) now)))"
  using sqlite_mgr.create_outcome [OF assms] by blast

lemma demo_ok: "mgr_ok sqlite_view db_ok demo_manager"
  using sqlite_mgr.init_outcome [OF demo_init(1) six_digit_one_session demo_init(2)] by blast

theorem manager_create_outcome_witness:
  "sqlite_view (m_store (snd (manager_create sqlite_store (noop_manager []) (noon 2 0) ''u1'' [] ''e2'' ''/w'' demo_manager)))
     ''s_000002'' = Some (stored (noon 2 0) (create_record ''s_000002'' ''u1'' [] ''e2'' ''/w'' (noon 2 0)))"
proof -
  define r where "r = manager_create sqlite_store (noop_manager []) (noon 2 0) ''u1'' [] ''e2'' ''/w'' demo_manager"
  have "valid_time (noon 2 0)" "noon 2 0 \<noteq> zero_time" "unat (m_counter demo_manager) + 1 < 2 ^ 64"
    by code_simp+
  note out = manager_create_outcome [OF demo_ok this, of "noop_manager []" "''u1''" "[]" "''e2''" "''/w''" "fst r" "snd r"]
  obtain s where s: "fst r = Inr s" "se_id s = ''s_000002''" "se_working_dir s = ''/w''"
  proof (cases "fst r")
    case (Inl e)
    moreover have "\<not> isl (fst r)" unfolding r_def by code_simp
    ultimately show ?thesis by simp
  next
    case (Inr s)
    moreover have "se_id (projr (fst r)) = ''s_000002''" "se_working_dir (projr (fst r)) = ''/w''"
      unfolding r_def by code_simp+
    ultimately show ?thesis using that [of s] by simp
  qed
  have "manager_create sqlite_store (noop_manager []) (noon 2 0) ''u1'' [] ''e2'' ''/w'' demo_manager = (fst r, snd r)"
    by (simp add: r_def)
  from out [OF this] s have "sqlite_view (m_store (snd r)) =
      (sqlite_view (m_store demo_manager))(''s_000002'' \<mapsto>
        stored (noon 2 0) (create_record ''s_000002'' ''u1'' [] ''e2'' ''/w'' (noon 2 0)))"
    by auto
  then show ?thesis unfolding r_def by simp
qed

text \<open>C18: \<open>Resume\<close> is idempotent and starts at most one process: it succeeds only for a stored
  session; a session that is live keeps its handle and the process manager is not touched; one
  that is not gets exactly one handle, and resuming it again gives the same handle.\<close>

theorem resume_idempotent:
  assumes "mgr_ok sqlite_view db_ok m" "valid_time t" "valid_time t2"
    and "manager_resume sqlite_store pm t sid m = (Inr s, m1)"
    and "manager_resume sqlite_store pm t2 sid m1 = (Inr s2, m2)"
  shows "sqlite_view (m_store m) sid \<noteq> None \<and> m_handles m1 = (m_handles m)(sid \<mapsto> se_handle s) \<and>
    (m_handles m sid \<noteq> None \<longrightarrow> m_handles m sid = Some (se_handle s) \<and> m_procs m1 = m_procs m) \<and>
    se_handle s2 = se_handle s \<and> m_handles m2 = m_handles m1 \<and> m_procs m2 = m_procs m1"
proof -
  note r1 = sqlite_mgr.resume_outcome [OF assms(1,2,4)]
  then have "mgr_ok sqlite_view db_ok m1" by blast
  note r2 = sqlite_mgr.resume_outcome [OF this assms(3,5)]
  show ?thesis using r1 r2 by auto
qed

theorem resume_idempotent_witness:
  "\<exists>s m1 s2 m2. manager_resume sqlite_store (noop_manager []) (noon 2 0) ''s_000001'' demo_manager = (Inr s, m1) \<and>
     manager_resume sqlite_store (noop_manager []) (noon 3 0) ''s_000001'' m1 = (Inr s2, m2) \<and>
     se_handle s2 = se_handle s \<and> length (m_procs m2) = 1"
proof -
  define r1 where "r1 = manager_resume sqlite_store (noop_manager []) (noon 2 0) ''s_000001'' demo_manager"
  define r2 where "r2 = manager_resume sqlite_store (noop_manager []) (noon 3 0) ''s_000001'' (snd r1)"
  have "\<not> isl (fst r1)" "\<not> isl (fst r2)" "length (m_procs (snd r1)) = 1"
    unfolding r1_def r2_def by code_simp+
  then obtain s s2 where s: "r1 = (Inr s, snd r1)" "r2 = (Inr s2, snd r2)"
    by (metis isl_def prod.collapse sumE)
  have "valid_time (noon 2 0)" "valid_time (noon 3 0)" by code_simp+
  moreover have "manager_resume sqlite_store (noop_manager []) (noon 2 0) ''s_000001'' demo_manager = (Inr s, snd r1)"
    using s(1) unfolding r1_def .
  moreover have "manager_resume sqlite_store (noop_manager []) (noon 3 0) ''s_000001'' (snd r1) = (Inr s2, snd r2)"
    using s(2) unfolding r2_def .
  ultimately have "se_handle s2 = se_handle s" "length (m_procs (snd r2)) = 1"
    using resume_idempotent [OF demo_ok] \<open>length (m_procs (snd r1)) = 1\<close> by metis+
  then show ?thesis using s unfolding r1_def r2_def by metis
qed

text \<open>On a working database \<open>Create\<close> reports a conflict only for the reason the API gives: the
  external id is in use. The id it picked is never the cause.\<close>

theorem create_conflict_cause:
  assumes "mgr_ok sqlite_view db_ok m" "healthy (m_store m)" "valid_time now"
    and "unat (m_counter m) + 1 < 2 ^ 64"
    and "manager_create sqlite_store pm now u p x wd m = (Inl (Mgr_Store Store_Conflict), m')"
  shows "nullable_string x \<in> set (external_ids (m_store m))"
proof (cases rule: create_cases [of sqlite_store pm now u p x wd m])
  case (store_error e wd' h p' w')
  let ?r = "create_record (session_id (unat (m_counter m + 1))) u p x wd' now"
  have "e = Store_Conflict" using store_error(2) assms(5) by simp
  then have conflict: "sqlite_create now ?r (m_store m) = (Inl Store_Conflict, w')"
    using store_error(1) by (simp add: sqlite_store_def)
  have ok: "db_ok (m_store m)" and ids: "dom (sqlite_view (m_store m)) \<subseteq> issued (unat (m_counter m))"
    using assms(1) by (simp_all add: mgr_ok_def)
  have st: "storable now ?r" using assms(3) by (simp add: storable_def create_record_def)
  have "s_id ?r \<notin> issued (unat (m_counter m))"
    using unat_next [OF assms(4)] by (simp add: create_record_def)
  then have "sqlite_view (m_store m) (s_id ?r) = None" using ids by auto
  with create_get_healthy [OF ok assms(2) st] conflict
  have "nullable_string (s_external_id ?r) \<in> set (external_ids (m_store m))"
    by (auto split: if_splits)
  then show ?thesis by (simp add: create_record_def)
qed (use assms(5) in simp_all)

theorem create_conflict_cause_witness: "Some ''e1'' \<in> set (external_ids one_session)"
proof -
  define r where "r = manager_create sqlite_store (noop_manager []) (noon 2 0) ''u1'' [] ''e1'' ''/w'' demo_manager"
  have "fst r = Inl (Mgr_Store Store_Conflict)" unfolding r_def by code_simp
  then have "manager_create sqlite_store (noop_manager []) (noon 2 0) ''u1'' [] ''e1'' ''/w'' demo_manager =
      (Inl (Mgr_Store Store_Conflict), snd r)"
    unfolding r_def by (metis prod.collapse)
  moreover have "healthy (m_store demo_manager)" "valid_time (noon 2 0)" "unat (m_counter demo_manager) + 1 < 2 ^ 64"
    "nullable_string ''e1'' = Some ''e1''" "external_ids (m_store demo_manager) = external_ids one_session"
    by code_simp+
  ultimately show ?thesis using create_conflict_cause [OF demo_ok] by metis
qed

fun is_create :: "mgr_op \<Rightarrow> bool" where
  "is_create (Op_Create now u p x wd) = True"
| "is_create _ = False"

text \<open>A \<open>Create\<close> whose id is in use.\<close>

lemma create_collides:
  assumes "healthy (m_store m)" "session_id (unat (m_counter m + 1)) \<in> dom (sqlite_view (m_store m))" "is_create op"
    and "\<And>opts q. \<exists>wd'. pm_resolve_working_dir pm opts q = Inr wd'"
    and "\<And>opts q. \<exists>h q'. pm_start pm opts q = (Inr h, q')"
  shows "fst (mgr_step sqlite_store pm op m) = Some (Mgr_Store Store_Conflict) \<and>
    m_store (snd (mgr_step sqlite_store pm op m)) = m_store m \<and>
    m_handles (snd (mgr_step sqlite_store pm op m)) = m_handles m \<and>
    m_counter (snd (mgr_step sqlite_store pm op m)) = m_counter m + 1"
proof -
  from assms(3) obtain now u pr x wd where op: "op = Op_Create now u pr x wd" by (cases op) simp_all
  let ?d = "m_store m" and ?sid = "session_id (unat (m_counter m + 1))"
  let ?opts = "\<lparr>so_session_id = ?sid, so_user_id = u, so_project_id = pr, so_working_dir = wd\<rparr>"
  obtain wd' where wd': "pm_resolve_working_dir pm ?opts (m_procs m) = Inr wd'" using assms(4) by blast
  obtain h q where h: "pm_start pm ?opts (m_procs m) = (Inr h, q)" using assms(5) by blast
  have dup: "is_unique_constraint (unique_failed ''id'')" by code_simp
  have "?sid \<in> set (map row_id (db_sessions ?d))" using assms(2) by (simp only: dom_sqlite_view)
  then have "sqlite_create now (create_record ?sid u pr x wd' now) ?d = (Inl Store_Conflict, ?d)"
    using assms(1) dup
    by (simp add: sqlite_create_def sql_insert_session_def healthy_def create_record_def del: set_map)
  then show ?thesis
    using wd' h by (simp add: op manager_create_def Let_def create_record_def sqlite_store_def)
qed

lemma creates_collide:
  assumes "healthy (m_store m)" "session_id ` {unat (m_counter m) + 1..n} \<subseteq> dom (sqlite_view (m_store m))" "n < 2 ^ 63"
    and "unat (m_counter m) + length ops \<le> n" "\<forall>op\<in>set ops. is_create op"
    and pm: "\<And>opts q. \<exists>wd'. pm_resolve_working_dir pm opts q = Inr wd'"
      "\<And>opts q. \<exists>h q'. pm_start pm opts q = (Inr h, q')"
  shows "fst (run (mgr_step sqlite_store pm) ops m) = replicate (length ops) (Some (Mgr_Store Store_Conflict)) \<and>
    m_store (snd (run (mgr_step sqlite_store pm) ops m)) = m_store m \<and>
    m_handles (snd (run (mgr_step sqlite_store pm) ops m)) = m_handles m"
  using assms(1,2,4,5)
proof (induction ops arbitrary: m)
  case (Cons op ops)
  have c: "unat (m_counter m + 1) = unat (m_counter m) + 1"
    by (rule unat_next) (use Cons.prems(3) assms(3) in simp)
  have "session_id (unat (m_counter m + 1)) \<in> dom (sqlite_view (m_store m))"
    unfolding c by (intro subsetD [OF Cons.prems(2)] imageI) (use Cons.prems(3) in simp)
  from create_collides [OF Cons.prems(1) this _ pm, of op] Cons.prems(4)
  have step: "fst (mgr_step sqlite_store pm op m) = Some (Mgr_Store Store_Conflict)"
    "m_store (snd (mgr_step sqlite_store pm op m)) = m_store m"
    "m_handles (snd (mgr_step sqlite_store pm op m)) = m_handles m"
    "m_counter (snd (mgr_step sqlite_store pm op m)) = m_counter m + 1"
    by simp_all
  have "session_id ` {unat (m_counter m) + 1 + 1..n} \<subseteq> dom (sqlite_view (m_store m))"
    by (rule subset_trans [OF image_mono Cons.prems(2)]) auto
  then show ?case
    using Cons.IH [of "snd (mgr_step sqlite_store pm op m)"] Cons.prems step c by (simp add: case_prod_beta)
qed simp



text \<open>C39: \<open>Delete\<close> hides a store failure when the session is live: if the handle closes cleanly it
  reports success although the database failed and the record is still there, to be listed and
  resumed again.\<close>

theorem delete_hides_store_failure:
  assumes "m_handles m sid = Some h" "fst (sqlite_delete sid (m_store m)) = Inl e"
    and "fst (ah_close pm h (m_procs m)) = Inr ()"
  shows "fst (manager_delete sqlite_store pm sid m) = Inr () \<and>
    sqlite_view (m_store (snd (manager_delete sqlite_store pm sid m))) = sqlite_view (m_store m) \<and>
    m_handles (snd (manager_delete sqlite_store pm sid m)) sid = None"
proof -
  have "sqlite_view (snd (sqlite_delete sid (m_store m))) = sqlite_view (m_store m)"
    using sqlite_db.delete_failed [of sid "m_store m" e] assms(2) by (simp add: sqlite_store_def)
  then show ?thesis
    using assms
    by (cases "sqlite_delete sid (m_store m)"; cases "ah_close pm h (m_procs m)")
      (simp add: manager_delete_def detach_def sqlite_store_def)
qed

definition live_manager :: "(nat, db, noop_world) manager" where
  "live_manager = snd (manager_resume sqlite_store (noop_manager []) (noon 2 0) ''s_000001'' demo_manager)"

theorem delete_hides_store_failure_witness:
  "fst (manager_delete sqlite_store (noop_manager []) ''s_000001''
     (live_manager\<lparr>m_store := one_session\<lparr>db_faults := [Some ''database is locked'']\<rparr>\<rparr>)) = Inr ()"
proof -
  let ?m = "live_manager\<lparr>m_store := one_session\<lparr>db_faults := [Some ''database is locked'']\<rparr>\<rparr>"
  have "m_handles ?m ''s_000001'' = Some 0"
    "fst (sqlite_delete ''s_000001'' (m_store ?m)) = Inl (Store_Failed ''database is locked'')"
    "fst (ah_close (noop_manager []) 0 (m_procs ?m)) = Inr ()"
    by code_simp+
  from delete_hides_store_failure [OF this] show ?thesis by blast
qed

end
