(* ===== verification/Session_Interleaving.thy ===== *)
theory Session_Interleaving
  imports Session_Manager Store_Spec "HOL-Library.Multiset"
begin

text \<open>
  \<open>internal/session/manager.go\<close> under concurrent requests. \<open>Session_Manager\<close> has each method as one
  function; here a request is a task that takes one step per critical section of \<open>m.mu\<close> and per
  call of the store or of a handle, and the steps of different tasks interleave freely. \<open>Create\<close>
  holds the lock from its first step to its last; the store's insert and the registration that
  follows it under the same lock are one step, as nobody can tell them apart. The
  goroutine \<open>bumpLastActiveOnRunEnd\<close> is a task of its own. The process each successful \<open>Start\<close> gave,
  the handles that were closed and the ids whose deletion reached the store are kept as history.
\<close>

section \<open>Tasks\<close>

datatype mgr_request =
    Req_Create string string string string
  | Req_Get string
  | Req_Resume string
  | Req_List list_sessions_query
  | Req_Delete string

datatype 'h reply = Session "'h session" | Sessions "session_record list" | Done

datatype 'h task =
    Asked mgr_request
  | Storing session_record 'h
  | Undoing string 'h store_error
  | Looking string 'h
  | Attaching string session_record
  | Touching string session_record 'h
  | Erasing string "'h option"
  | Closing string 'h
  | Watching string 'h bool
  | Replied "mgr_error + 'h reply"

record ('h, 'w, 'p) conc =
  c_mgr :: "('h, 'w, 'p) manager"
  c_locked :: bool
  c_tasks :: "'h task list"
  c_started :: "(string \<times> 'h) list"
  c_closed :: "(string \<times> 'h) list"
  c_erased :: "string list"

definition quiet :: "('h, 'w, 'p) manager \<Rightarrow> ('h, 'w, 'p) conc" where
  "quiet m = \<lparr>c_mgr = m, c_locked = False, c_tasks = [], c_started = [], c_closed = [], c_erased = []\<rparr>"

definition with_store :: "'w \<Rightarrow> ('h, 'w, 'p) conc \<Rightarrow> ('h, 'w, 'p) conc" where
  "with_store w c = c\<lparr>c_mgr := (c_mgr c)\<lparr>m_store := w\<rparr>\<rparr>"

definition spawn :: "'h task \<Rightarrow> ('h, 'w, 'p) conc \<Rightarrow> ('h, 'w, 'p) conc" where
  "spawn t c = c\<lparr>c_tasks := c_tasks c @ [t]\<rparr>"

section \<open>The steps of a request\<close>

text \<open>\<open>Create\<close>: the lock, the counter and the process; then the store and the map; or the close of
  the process when the store refuses.\<close>

definition create_begin ::
  "('h, 'p) process_manager \<Rightarrow> string \<Rightarrow> string \<Rightarrow> string \<Rightarrow> string \<Rightarrow> ('h, 'w, 'p) conc \<Rightarrow>
   'h task \<times> ('h, 'w, 'p) conc" where
  "create_begin pm u p x wd c =
     (let m = (c_mgr c)\<lparr>m_counter := m_counter (c_mgr c) + 1\<rparr>;
          sid = session_id (unat (m_counter m));
          opts = \<lparr>so_session_id = sid, so_user_id = u, so_project_id = p, so_working_dir = wd\<rparr>
      in (case pm_resolve_working_dir pm opts (m_procs m) of
            Inl e \<Rightarrow> (Replied (Inl (Mgr_Process e)), c\<lparr>c_mgr := m\<rparr>)
          | Inr resolved \<Rightarrow>
              (case pm_start pm opts (m_procs m) of
                 (Inl e, q) \<Rightarrow> (Replied (Inl (Mgr_Process e)), c\<lparr>c_mgr := m\<lparr>m_procs := q\<rparr>\<rparr>)
               | (Inr h, q) \<Rightarrow>
                   (Storing (create_record sid u p x resolved zero_time) h,
                    c\<lparr>c_mgr := m\<lparr>m_procs := q\<rparr>, c_locked := True,
                      c_started := c_started c @ [(sid, h)]\<rparr>))))"

definition create_store ::
  "'w store_ops \<Rightarrow> go_time \<Rightarrow> session_record \<Rightarrow> 'h \<Rightarrow> ('h, 'w, 'p) conc \<Rightarrow> 'h task \<times> ('h, 'w, 'p) conc" where
  "create_store st now r0 h c =
     (let r = r0\<lparr>s_created_at := now, s_last_active_at := now\<rparr> in
      case st_create st now r (m_store (c_mgr c)) of
        (Inl e, w) \<Rightarrow> (Undoing (s_id r) h e, with_store w c)
      | (Inr u, w) \<Rightarrow>
          (Replied (Inr (Session (session_of r h))),
           spawn (Watching (s_id r) h False)
             (c\<lparr>c_mgr := (c_mgr c)\<lparr>m_store := w, m_handles := (m_handles (c_mgr c))(s_id r \<mapsto> h)\<rparr>,
                c_locked := False\<rparr>)))"

definition close_handle ::
  "('h, 'p) process_manager \<Rightarrow> string \<Rightarrow> 'h \<Rightarrow> ('h, 'w, 'p) conc \<Rightarrow> (string + unit) \<times> ('h, 'w, 'p) conc" where
  "close_handle pm sid h c =
     (case ah_close pm h (m_procs (c_mgr c)) of
        (res, q) \<Rightarrow> (res, c\<lparr>c_mgr := (c_mgr c)\<lparr>m_procs := q\<rparr>, c_closed := c_closed c @ [(sid, h)]\<rparr>))"

definition attach_step ::
  "('h, 'p) process_manager \<Rightarrow> string \<Rightarrow> session_record \<Rightarrow> ('h, 'w, 'p) conc \<Rightarrow> 'h task \<times> ('h, 'w, 'p) conc" where
  "attach_step pm sid r c =
     (case resume_attach pm sid r (c_mgr c) of
        (Inl e, m) \<Rightarrow> (Replied (Inl e), c\<lparr>c_mgr := m\<rparr>)
      | (Inr (h, started), m) \<Rightarrow>
          if started then (Touching sid r h, c\<lparr>c_mgr := m, c_started := c_started c @ [(sid, h)]\<rparr>)
          else (Replied (Inr (Session (session_of r h))), c\<lparr>c_mgr := m\<rparr>))"

definition touch_store :: "'w store_ops \<Rightarrow> go_time \<Rightarrow> string \<Rightarrow> ('h, 'w, 'p) conc \<Rightarrow> ('h, 'w, 'p) conc" where
  "touch_store st now sid c = with_store (snd (st_touch st now sid now (m_store (c_mgr c)))) c"

definition erase_step ::
  "'w store_ops \<Rightarrow> string \<Rightarrow> 'h option \<Rightarrow> ('h, 'w, 'p) conc \<Rightarrow> 'h task \<times> ('h, 'w, 'p) conc" where
  "erase_step st sid live c =
     (case st_delete st sid (m_store (c_mgr c)) of
        (res, w) \<Rightarrow>
          (case live of
             Some h \<Rightarrow> Closing sid h
           | None \<Rightarrow> Replied (case res of Inl e \<Rightarrow> Inl Mgr_Not_Found | Inr u \<Rightarrow> Inr Done),
           (with_store w c)\<lparr>c_erased := c_erased c @ [sid]\<rparr>))"

definition found_or :: "(session_record \<Rightarrow> 'h task) \<Rightarrow> mgr_error + session_record \<Rightarrow> 'h task" where
  "found_or k res = (case res of Inl e \<Rightarrow> Replied (Inl e) | Inr r \<Rightarrow> k r)"

text \<open>The steps that need \<open>m.mu\<close>; the others can be taken while another request holds it.\<close>

fun needs_lock :: "'h task \<Rightarrow> bool" where
  "needs_lock (Asked (Req_Create u p x wd)) = True"
| "needs_lock (Asked (Req_Get sid)) = True"
| "needs_lock (Asked (Req_Delete sid)) = True"
| "needs_lock (Attaching sid r) = True"
| "needs_lock _ = False"

fun task_step ::
  "'w store_ops \<Rightarrow> ('h, 'p) process_manager \<Rightarrow> go_time \<Rightarrow> 'h task \<Rightarrow> ('h, 'w, 'p) conc \<Rightarrow>
   'h task \<times> ('h, 'w, 'p) conc" where
  "task_step st pm now (Asked (Req_Create u p x wd)) c = create_begin pm u p x wd c"
| "task_step st pm now (Asked (Req_Get sid)) c =
     (case m_handles (c_mgr c) sid of
        None \<Rightarrow> (Replied (Inl Mgr_Not_Found), c) | Some h \<Rightarrow> (Looking sid h, c))"
| "task_step st pm now (Asked (Req_Resume sid)) c =
     (case lookup_record st sid (m_store (c_mgr c)) of
        (res, w) \<Rightarrow> (found_or (Attaching sid) res, with_store w c))"
| "task_step st pm now (Asked (Req_List q)) c =
     (case st_list st q (m_store (c_mgr c)) of
        (Inl e, w) \<Rightarrow> (Replied (Inl (Mgr_Store e)), with_store w c)
      | (Inr rs, w) \<Rightarrow> (Replied (Inr (Sessions rs)), with_store w c))"
| "task_step st pm now (Asked (Req_Delete sid)) c =
     (case detach sid (c_mgr c) of (live, m) \<Rightarrow> (Erasing sid live, c\<lparr>c_mgr := m\<rparr>))"
| "task_step st pm now (Storing r h) c = create_store st now r h c"
| "task_step st pm now (Undoing sid h e) c =
     (Replied (Inl (Mgr_Store e)), (snd (close_handle pm sid h c))\<lparr>c_locked := False\<rparr>)"
| "task_step st pm now (Looking sid h) c =
     (case lookup_record st sid (m_store (c_mgr c)) of
        (res, w) \<Rightarrow> (found_or (\<lambda>r. Replied (Inr (Session (session_of r h)))) res, with_store w c))"
| "task_step st pm now (Attaching sid r) c = attach_step pm sid r c"
| "task_step st pm now (Touching sid r h) c =
     (Replied (Inr (Session ((session_of r h)\<lparr>se_last_active := now\<rparr>))),
      spawn (Watching sid h False) (touch_store st now sid c))"
| "task_step st pm now (Erasing sid live) c = erase_step st sid live c"
| "task_step st pm now (Closing sid h) c =
     (case close_handle pm sid h c of
        (Inl e, c') \<Rightarrow> (Replied (Inl (Mgr_Process e)), c') | (Inr u, c') \<Rightarrow> (Replied (Inr Done), c'))"
| "task_step st pm now (Watching sid h False) c =
     (Watching sid h True,
      c\<lparr>c_mgr := (c_mgr c)\<lparr>m_procs := snd (ah_subscribe pm h (m_procs (c_mgr c)))\<rparr>\<rparr>)"
| "task_step st pm now (Watching sid h True) c = (Watching sid h True, touch_store st now sid c)"
| "task_step st pm now (Replied res) c = (Replied res, c)"

section \<open>Interleavings\<close>

datatype conc_op = Arrive mgr_request | Step nat go_time

text \<open>The counter, a \<open>uint64\<close>, does not wrap; the clock is past year 1.\<close>

fun counts_on :: "'h task \<Rightarrow> ('h, 'w, 'p) conc \<Rightarrow> bool" where
  "counts_on (Asked (Req_Create u p x wd)) c = (unat (m_counter (c_mgr c)) + 1 < 2 ^ 64)"
| "counts_on _ c = True"

definition can_step :: "nat \<Rightarrow> ('h, 'w, 'p) conc \<Rightarrow> bool" where
  "can_step i c \<longleftrightarrow> i < length (c_tasks c) \<and> \<not> (c_locked c \<and> needs_lock (c_tasks c ! i)) \<and>
     counts_on (c_tasks c ! i) c"

fun conc_step ::
  "'w store_ops \<Rightarrow> ('h, 'p) process_manager \<Rightarrow> conc_op \<Rightarrow> ('h, 'w, 'p) conc \<Rightarrow> ('h, 'w, 'p) conc option" where
  "conc_step st pm (Arrive req) c = Some (spawn (Asked req) c)"
| "conc_step st pm (Step i now) c =
     (if \<not> can_step i c \<or> \<not> valid_time now \<or> now = zero_time then None
      else (case task_step st pm now (c_tasks c ! i) c of
              (t, c') \<Rightarrow> Some (c'\<lparr>c_tasks := (c_tasks c')[i := t]\<rparr>)))"


section \<open>Where every process is\<close>

text \<open>The registered handles, and the handle a request has in hand and will register or close.\<close>

definition live_pairs :: "(string \<rightharpoonup> 'h) \<Rightarrow> (string \<times> 'h) multiset" where
  "live_pairs hs = image_mset (\<lambda>sid. (sid, the (hs sid))) (mset_set (dom hs))"

fun held :: "'h task \<Rightarrow> (string \<times> 'h) multiset" where
  "held (Storing r h) = {#(s_id r, h)#}"
| "held (Undoing sid h e) = {#(sid, h)#}"
| "held (Erasing sid (Some h)) = {#(sid, h)#}"
| "held (Closing sid h) = {#(sid, h)#}"
| "held _ = {#}"

definition in_hand :: "('h, 'w, 'p) conc \<Rightarrow> (string \<times> 'h) multiset" where
  "in_hand c = (\<Sum>t\<leftarrow>c_tasks c. held t)"

definition accounted :: "('h, 'w, 'p) conc \<Rightarrow> bool" where
  "accounted c \<longleftrightarrow>
     mset (c_started c) = live_pairs (m_handles (c_mgr c)) + in_hand c + mset (c_closed c)"

lemma live_pairs_empty [simp]: "live_pairs Map.empty = {#}"
  by (simp add: live_pairs_def)

lemma live_pairs_insert:
  assumes "finite (dom hs)" "sid \<notin> dom hs"
  shows "live_pairs (hs(sid \<mapsto> h)) = add_mset (sid, h) (live_pairs hs)"
proof -
  have "image_mset (\<lambda>i. (i, the ((hs(sid \<mapsto> h)) i))) (mset_set (dom hs)) = live_pairs hs"
    unfolding live_pairs_def using assms by (intro image_mset_cong) auto
  then show ?thesis using assms by (simp add: live_pairs_def)
qed

lemma live_pairs_remove:
  assumes "finite (dom hs)" "hs sid = Some h"
  shows "live_pairs hs = add_mset (sid, h) (live_pairs (hs(sid := None)))"
proof -
  have "(hs(sid := None))(sid \<mapsto> h) = hs" using assms(2) by auto
  then show ?thesis using live_pairs_insert [of "hs(sid := None)" sid h] assms(1) by simp
qed

lemma live_pairs_once:
  assumes "finite (dom hs)"
  shows "size {#q \<in># live_pairs hs. fst q = sid#} \<le> 1"
proof -
  have "{#q \<in># live_pairs hs. fst q = sid#} =
      image_mset (\<lambda>i. (i, the (hs i))) {#i \<in># mset_set (dom hs). i = sid#}"
    by (simp add: live_pairs_def filter_mset_image_mset o_def)
  moreover have "{#i \<in># mset_set (dom hs). i = sid#} = replicate_mset (count (mset_set (dom hs)) sid) sid"
    by (rule filter_eq_replicate_mset)
  moreover have "count (mset_set (dom hs)) sid \<le> 1" by (simp add: count_mset_set')
  ultimately show ?thesis by simp
qed

section \<open>The invariant\<close>

fun holds_lock :: "'h task \<Rightarrow> bool" where
  "holds_lock (Storing r h) = True"
| "holds_lock (Undoing sid h e) = True"
| "holds_lock _ = False"

fun is_storing :: "'h task \<Rightarrow> bool" where
  "is_storing (Storing r h) = True"
| "is_storing _ = False"

text \<open>The ids given out, without the one whose session is being stored.\<close>

definition settled :: "('h, 'w, 'p) conc \<Rightarrow> string set" where
  "settled c = session_id ` {k. k \<le> unat (m_counter (c_mgr c)) \<and>
     ((\<exists>t\<in>set (c_tasks c). is_storing t) \<longrightarrow> k \<noteq> unat (m_counter (c_mgr c)))}"

definition was_stored :: "('w \<Rightarrow> string \<Rightarrow> session_record option) \<Rightarrow> ('h, 'w, 'p) conc \<Rightarrow> string set" where
  "was_stored view c = dom (view (m_store (c_mgr c))) \<union> set (c_erased c)"

fun task_ok :: "('w \<Rightarrow> string \<Rightarrow> session_record option) \<Rightarrow> ('h, 'w, 'p) conc \<Rightarrow> 'h task \<Rightarrow> bool" where
  "task_ok view c (Storing r h) \<longleftrightarrow> s_id r = session_id (unat (m_counter (c_mgr c)))"
| "task_ok view c (Attaching sid r) \<longleftrightarrow> s_id r = sid \<and> sid \<in> settled c \<and> sid \<in> was_stored view c"
| "task_ok view c t \<longleftrightarrow> True"

definition conc_ok ::
  "('w \<Rightarrow> string \<Rightarrow> session_record option) \<Rightarrow> ('w \<Rightarrow> bool) \<Rightarrow> ('h, 'w, 'p) conc \<Rightarrow> bool" where
  "conc_ok view ok c \<longleftrightarrow> ok (m_store (c_mgr c)) \<and>
     length (filter holds_lock (c_tasks c)) = (if c_locked c then 1 else 0) \<and>
     dom (view (m_store (c_mgr c))) \<subseteq> settled c \<and>
     dom (m_handles (c_mgr c)) \<subseteq> settled c \<and> dom (m_handles (c_mgr c)) \<subseteq> was_stored view c \<and>
     (\<forall>t\<in>set (c_tasks c). task_ok view c t) \<and> accounted c"


lemma storing_holds: "is_storing t \<Longrightarrow> holds_lock t"
  by (cases t) auto

lemma filter_one_split:
  "length (filter P (as @ t # bs)) = (if P t then 1 else 0) + length (filter P as) + length (filter P bs)"
  by simp

lemma in_hand_split: "c_tasks c = as @ t # bs \<Longrightarrow> in_hand c = held t + (\<Sum>u\<leftarrow>as. held u) + (\<Sum>u\<leftarrow>bs. held u)"
  by (simp add: in_hand_def ac_simps)

lemma finite_settled: "finite (settled c)"
  by (simp add: settled_def)

lemma settled_cong:
  assumes "m_counter (c_mgr c') = m_counter (c_mgr c)"
    "(\<exists>t\<in>set (c_tasks c'). is_storing t) \<longleftrightarrow> (\<exists>t\<in>set (c_tasks c). is_storing t)"
  shows "settled c' = settled c"
  unfolding settled_def using assms by simp

text \<open>When the lock is free, or the task that steps has it, no other task is storing.\<close>

lemma others_free:
  assumes "conc_ok view ok c" "c_tasks c = as @ t # bs" "holds_lock t \<or> \<not> c_locked c"
    and "u \<in> set as \<union> set bs"
  shows "\<not> holds_lock u" "\<not> is_storing u"
proof -
  have "length (filter holds_lock (as @ t # bs)) = (if c_locked c then 1 else 0)"
    using assms(1,2) by (simp add: conc_ok_def)
  then have "length (filter holds_lock as) = 0 \<and> length (filter holds_lock bs) = 0"
    unfolding filter_one_split using assms(3) by (auto split: if_splits)
  then show "\<not> holds_lock u" using assms(4) by (auto simp: filter_empty_conv)
  then show "\<not> is_storing u" using storing_holds by blast
qed

text \<open>What one step has to show; the rest of the invariant follows for the tasks that did not move.\<close>

lemma conc_ok_step:
  assumes inv: "conc_ok view ok c" and tasks: "c_tasks c = as @ t # bs"
    and tasks2: "c_tasks c2 = as @ t2 # bs @ ws" and ws: "\<forall>w\<in>set ws. \<exists>sid h. w = Watching sid h False"
    and store: "ok (m_store (c_mgr c2))"
    and lock: "(if c_locked c2 then 1 else 0) + (if holds_lock t then 1 else 0) =
      (if c_locked c then 1 else 0) + (if holds_lock t2 then 1 else (0::nat))"
    and settled: "settled c \<subseteq> settled c2"
    and view: "dom (view (m_store (c_mgr c2))) \<subseteq> settled c2"
    and handles: "dom (m_handles (c_mgr c2)) \<subseteq> settled c2" "dom (m_handles (c_mgr c2)) \<subseteq> was_stored view c2"
    and stored: "was_stored view c \<subseteq> was_stored view c2"
    and counter: "m_counter (c_mgr c2) = m_counter (c_mgr c) \<or> \<not> c_locked c"
    and moved: "task_ok view c2 t2"
    and places: "mset (c_started c2) + live_pairs (m_handles (c_mgr c)) + held t + mset (c_closed c) =
      mset (c_started c) + live_pairs (m_handles (c_mgr c2)) + held t2 + mset (c_closed c2)"
  shows "conc_ok view ok c2"
proof -
  have ws': "filter holds_lock ws = []" "(\<Sum>u\<leftarrow>ws. held u) = {#}" "\<forall>w\<in>set ws. task_ok view c2 w"
    using ws by (induction ws) auto
  have "(if holds_lock t then 1 else 0) + length (filter holds_lock as) + length (filter holds_lock bs) =
      (if c_locked c then 1 else (0::nat))"
    using inv unfolding conc_ok_def tasks filter_one_split by blast
  moreover have "length (filter holds_lock (c_tasks c2)) =
      (if holds_lock t2 then 1 else 0) + length (filter holds_lock as) + length (filter holds_lock bs)"
    using ws'(1) by (simp add: tasks2)
  ultimately have "length (filter holds_lock (c_tasks c2)) = (if c_locked c2 then 1 else 0)"
    using lock by linarith
  moreover have "task_ok view c2 u" if u: "u \<in> set as \<union> set bs" for u
  proof -
    have ok: "task_ok view c u" using inv tasks u by (auto simp: conc_ok_def)
    show ?thesis
    proof (cases u)
      case (Storing r h)
      then have "c_locked c" using others_free(1) [OF inv tasks _ u] by auto
      then show ?thesis using ok Storing counter by simp
    next
      case (Attaching sid r)
      then show ?thesis using ok settled stored by auto
    qed auto
  qed
  moreover have "accounted c2"
  proof -
    have "in_hand c2 = held t2 + (\<Sum>u\<leftarrow>as. held u) + (\<Sum>u\<leftarrow>bs. held u)"
      using in_hand_split [OF tasks2] ws'(2) by simp
    moreover have "mset (c_started c) = live_pairs (m_handles (c_mgr c)) +
        (held t + (\<Sum>u\<leftarrow>as. held u) + (\<Sum>u\<leftarrow>bs. held u)) + mset (c_closed c)"
      using inv in_hand_split [OF tasks] by (simp add: conc_ok_def accounted_def)
    ultimately show ?thesis
      using places unfolding accounted_def by (simp add: ac_simps)
  qed
  ultimately show ?thesis
    using store view handles moved ws'(3) tasks2 unfolding conc_ok_def by auto
qed


text \<open>A step that leaves the map, the counter, the history and the lock alone.\<close>

lemma conc_ok_still:
  assumes inv: "conc_ok view ok c" and tasks: "c_tasks c = as @ t # bs"
    and tasks2: "c_tasks c2 = as @ t2 # bs @ ws" and ws: "\<forall>w\<in>set ws. \<exists>sid h. w = Watching sid h False"
    and store: "ok (m_store (c_mgr c2))" "dom (view (m_store (c_mgr c2))) = dom (view (m_store (c_mgr c)))"
    and same: "m_handles (c_mgr c2) = m_handles (c_mgr c)" "m_counter (c_mgr c2) = m_counter (c_mgr c)"
      "c_locked c2 = c_locked c" "c_started c2 = c_started c" "c_closed c2 = c_closed c" "c_erased c2 = c_erased c"
    and quiet: "\<not> is_storing t" "\<not> is_storing t2" "holds_lock t = holds_lock t2" "held t2 = held t"
    and moved: "task_ok view c2 t2"
  shows "conc_ok view ok c2"
proof -
  have "settled c2 = settled c"
    using ws by (intro settled_cong same) (auto simp: tasks tasks2 quiet)
  moreover have "was_stored view c2 = was_stored view c"
    using store(2) same(6) by (simp add: was_stored_def)
  ultimately show ?thesis
    using inv by (intro conc_ok_step [OF inv tasks tasks2 ws store(1)])
      (use same store(2) quiet moved in \<open>simp_all add: conc_ok_def\<close>)
qed

lemma with_store_simps [simp]:
  "c_mgr (with_store w c) = (c_mgr c)\<lparr>m_store := w\<rparr>" "c_locked (with_store w c) = c_locked c"
  "c_tasks (with_store w c) = c_tasks c" "c_started (with_store w c) = c_started c"
  "c_closed (with_store w c) = c_closed c" "c_erased (with_store w c) = c_erased c"
  by (simp_all add: with_store_def)

lemma spawn_simps [simp]:
  "c_mgr (spawn t c) = c_mgr c" "c_locked (spawn t c) = c_locked c"
  "c_tasks (spawn t c) = c_tasks c @ [t]" "c_started (spawn t c) = c_started c"
  "c_closed (spawn t c) = c_closed c" "c_erased (spawn t c) = c_erased c"
  by (simp_all add: spawn_def)

lemma close_handle_simps [simp]:
  "m_store (c_mgr (snd (close_handle pm sid h c))) = m_store (c_mgr c)"
  "m_handles (c_mgr (snd (close_handle pm sid h c))) = m_handles (c_mgr c)"
  "m_counter (c_mgr (snd (close_handle pm sid h c))) = m_counter (c_mgr c)"
  "c_locked (snd (close_handle pm sid h c)) = c_locked c" "c_tasks (snd (close_handle pm sid h c)) = c_tasks c"
  "c_started (snd (close_handle pm sid h c)) = c_started c" "c_erased (snd (close_handle pm sid h c)) = c_erased c"
  "c_closed (snd (close_handle pm sid h c)) = c_closed c @ [(sid, h)]"
  by (simp_all add: close_handle_def split: prod.split)

definition stepped :: "nat \<Rightarrow> 'h task \<times> ('h, 'w, 'p) conc \<Rightarrow> ('h, 'w, 'p) conc" where
  "stepped i r = (case r of (t, c) \<Rightarrow> c\<lparr>c_tasks := (c_tasks c)[i := t]\<rparr>)"

lemma conc_step_Step:
  "conc_step st pm (Step i now) c = Some c' \<longleftrightarrow>
     can_step i c \<and> valid_time now \<and> now \<noteq> zero_time \<and> c' = stepped i (task_step st pm now (c_tasks c ! i) c)"
  by (auto simp: stepped_def split: prod.split)

lemma stepped_simps [simp]:
  "c_mgr (stepped i r) = c_mgr (snd r)" "c_locked (stepped i r) = c_locked (snd r)"
  "c_started (stepped i r) = c_started (snd r)" "c_closed (stepped i r) = c_closed (snd r)"
  "c_erased (stepped i r) = c_erased (snd r)"
  by (simp_all add: stepped_def split: prod.split)

lemma stepped_tasks:
  assumes "c_tasks c = as @ t # bs" "c_tasks (snd r) = c_tasks c @ ws"
  shows "c_tasks (stepped (length as) r) = as @ fst r # bs @ ws"
  using assms by (cases r) (simp add: stepped_def)

section \<open>Every step keeps it\<close>

context session_manager
begin

text \<open>Reads: the first part of \<open>Resume\<close>, the second of \<open>Get\<close>, \<open>List\<close>.\<close>

lemma resume_read_inv:
  assumes inv: "conc_ok view ok c" and tasks: "c_tasks c = as @ Asked (Req_Resume sid) # bs"
  shows "conc_ok view ok (stepped (length as) (task_step st pm now (Asked (Req_Resume sid)) c))"
proof -
  have ok: "ok (m_store (c_mgr c))" and sub: "dom (view (m_store (c_mgr c))) \<subseteq> settled c"
    using inv by (simp_all add: conc_ok_def)
  obtain res w where look: "lookup_record st sid (m_store (c_mgr c)) = (res, w)" by fastforce
  note w = lookup_outcome [OF ok, of sid, unfolded look fst_conv snd_conv]
  let ?t = "found_or (Attaching sid) res"
  let ?c = "stepped (length as) (task_step st pm now (Asked (Req_Resume sid)) c)"
  have ts: "c_tasks ?c = as @ ?t # bs @ []"
    using stepped_tasks [OF tasks, of "task_step st pm now (Asked (Req_Resume sid)) c" "[]"] look tasks by simp
  have same: "settled ?c = settled c"
    by (rule settled_cong, simp add: look, simp only: ts tasks) (auto simp: found_or_def split: sum.split)
  have "was_stored view ?c = was_stored view c" using w look by (simp add: was_stored_def)
  moreover have "s_id rec = sid" if "res = Inr rec" for rec
    using view_id [OF ok, of sid rec] w that by simp
  ultimately have "task_ok view ?c ?t"
    using w same sub by (auto simp: found_or_def was_stored_def split: sum.split)
  then show ?thesis
    using w look by (intro conc_ok_still [OF inv tasks ts]) (auto simp: found_or_def split: sum.split)
qed

lemma looking_inv:
  assumes inv: "conc_ok view ok c" and tasks: "c_tasks c = as @ Looking sid h # bs"
  shows "conc_ok view ok (stepped (length as) (task_step st pm now (Looking sid h) c))"
proof -
  have ok: "ok (m_store (c_mgr c))" using inv by (simp add: conc_ok_def)
  obtain res w where look: "lookup_record st sid (m_store (c_mgr c)) = (res, w)" by fastforce
  note w = lookup_outcome [OF ok, of sid, unfolded look fst_conv snd_conv]
  let ?t = "found_or (\<lambda>r. Replied (Inr (Session (session_of r h)))) res"
  let ?c = "stepped (length as) (task_step st pm now (Looking sid h) c)"
  have ts: "c_tasks ?c = as @ ?t # bs @ []"
    using stepped_tasks [OF tasks, of "task_step st pm now (Looking sid h) c" "[]"] look tasks by simp
  show ?thesis
    using w look by (intro conc_ok_still [OF inv tasks ts]) (auto simp: found_or_def split: sum.split)
qed

lemma list_inv:
  assumes inv: "conc_ok view ok c" and tasks: "c_tasks c = as @ Asked (Req_List q) # bs"
  shows "conc_ok view ok (stepped (length as) (task_step st pm now (Asked (Req_List q)) c))"
proof -
  let ?r = "task_step st pm now (Asked (Req_List q)) c"
  let ?w = "snd (st_list st q (m_store (c_mgr c)))"
  have ok: "ok (m_store (c_mgr c))" using inv by (simp add: conc_ok_def)
  have c': "snd ?r = with_store ?w c" by (simp split: prod.split sum.split)
  obtain res w where "st_list st q (m_store (c_mgr c)) = (res, w)" by fastforce
  then obtain x where x: "fst ?r = Replied x" by (cases res) auto
  have ts: "c_tasks (stepped (length as) ?r) = as @ fst ?r # bs @ []"
    by (rule stepped_tasks [OF tasks]) (simp only: c', simp)
  show ?thesis
    using ok_list [OF ok] list_view by (intro conc_ok_still [OF inv tasks ts]) (simp_all only: c' x stepped_simps, simp_all)
qed

lemma get_inv:
  assumes inv: "conc_ok view ok c" and tasks: "c_tasks c = as @ Asked (Req_Get sid) # bs"
  shows "conc_ok view ok (stepped (length as) (task_step st pm now (Asked (Req_Get sid)) c))"
proof -
  let ?r = "task_step st pm now (Asked (Req_Get sid)) c"
  have c': "snd ?r = c" by (simp split: option.split)
  have ok: "ok (m_store (c_mgr c))" using inv by (simp add: conc_ok_def)
  have ts: "c_tasks (stepped (length as) ?r) = as @ fst ?r # bs @ []"
    by (rule stepped_tasks [OF tasks]) (simp only: c', simp)
  show ?thesis
    using ok by (intro conc_ok_still [OF inv tasks ts]) (simp_all only: c' stepped_simps, auto split: option.split)
qed

text \<open>Writes of the activity time, and the subscription of the watcher.\<close>

lemma touch_ok:
  assumes "conc_ok view ok c" "valid_time now"
  shows "ok (m_store (c_mgr (touch_store st now sid c)))"
    "dom (view (m_store (c_mgr (touch_store st now sid c)))) = dom (view (m_store (c_mgr c)))"
  using assms ok_touch touch_dom by (simp_all add: touch_store_def conc_ok_def)

lemma touch_simps [simp]:
  "m_handles (c_mgr (touch_store st now sid c)) = m_handles (c_mgr c)"
  "m_counter (c_mgr (touch_store st now sid c)) = m_counter (c_mgr c)"
  "c_locked (touch_store st now sid c) = c_locked c" "c_tasks (touch_store st now sid c) = c_tasks c"
  "c_started (touch_store st now sid c) = c_started c" "c_closed (touch_store st now sid c) = c_closed c"
  "c_erased (touch_store st now sid c) = c_erased c"
  by (simp_all add: touch_store_def)

lemma touching_inv:
  assumes inv: "conc_ok view ok c" and tasks: "c_tasks c = as @ Touching sid r h # bs" and now: "valid_time now"
  shows "conc_ok view ok (stepped (length as) (task_step st pm now (Touching sid r h) c))"
proof -
  let ?r = "task_step st pm now (Touching sid r h) c"
  have ts: "c_tasks (stepped (length as) ?r) = as @ fst ?r # bs @ [Watching sid h False]"
    by (rule stepped_tasks [OF tasks]) simp
  show ?thesis
    by (rule conc_ok_still [OF inv tasks ts]) (use touch_ok [OF inv now] in simp_all)
qed

lemma watching_inv:
  assumes inv: "conc_ok view ok c" and tasks: "c_tasks c = as @ Watching sid h b # bs" and now: "valid_time now"
  shows "conc_ok view ok (stepped (length as) (task_step st pm now (Watching sid h b) c))"
proof -
  let ?r = "task_step st pm now (Watching sid h b) c"
  have ts: "c_tasks (stepped (length as) ?r) = as @ fst ?r # bs @ []"
    by (rule stepped_tasks [OF tasks]) (cases b; simp)
  have ok: "ok (m_store (c_mgr c))" using inv by (simp add: conc_ok_def)
  show ?thesis
    by (cases b; rule conc_ok_still [OF inv tasks ts]) (use touch_ok [OF inv now] ok in simp_all)
qed

text \<open>\<open>Create\<close>.\<close>

lemma create_begin_inv:
  assumes inv: "conc_ok view ok c" and tasks: "c_tasks c = as @ Asked (Req_Create u p x wd) # bs"
    and free: "\<not> c_locked c" and room: "unat (m_counter (c_mgr c)) + 1 < 2 ^ 64"
  shows "conc_ok view ok (stepped (length as) (task_step st pm now (Asked (Req_Create u p x wd)) c))"
proof -
  let ?r = "task_step st pm now (Asked (Req_Create u p x wd)) c"
  let ?c = "stepped (length as) ?r" and ?n = "unat (m_counter (c_mgr c))"
  let ?sid = "session_id (unat (m_counter (c_mgr c) + 1))"
  have n: "unat (m_counter (c_mgr c) + 1) = Suc ?n" using unat_next [OF room] by simp
  have facts: "m_counter (c_mgr (snd ?r)) = m_counter (c_mgr c) + 1" "c_tasks (snd ?r) = c_tasks c @ []"
    "m_store (c_mgr (snd ?r)) = m_store (c_mgr c)" "m_handles (c_mgr (snd ?r)) = m_handles (c_mgr c)"
    "c_closed (snd ?r) = c_closed c" "c_erased (snd ?r) = c_erased c"
    "(\<exists>h rec. fst ?r = Storing rec h \<and> s_id rec = ?sid \<and> c_locked (snd ?r) \<and> c_started (snd ?r) = c_started c @ [(?sid, h)]) \<or>
     (\<exists>e. fst ?r = Replied e \<and> c_locked (snd ?r) = c_locked c \<and> c_started (snd ?r) = c_started c)"
    by (simp_all add: create_begin_def Let_def create_record_def split: sum.split prod.split)
  have ts: "c_tasks ?c = as @ fst ?r # bs @ []" by (rule stepped_tasks [OF tasks facts(2)])
  have none: "\<not> is_storing v" if "v \<in> set as \<union> set bs" for v
    using others_free(2) [OF inv tasks] free that by blast
  have old: "settled c = session_id ` {k. k \<le> ?n}"
    unfolding settled_def tasks using none by auto
  have new: "session_id ` {k. k \<le> ?n} \<subseteq> settled ?c"
    unfolding settled_def stepped_simps facts(1) n by (intro image_mono) auto
  have stored: "was_stored view ?c = was_stored view c"
    unfolding was_stored_def stepped_simps facts by simp
  have "dom (view (m_store (c_mgr c))) \<subseteq> settled c" "dom (m_handles (c_mgr c)) \<subseteq> settled c"
    and ok: "ok (m_store (c_mgr c))" and live: "dom (m_handles (c_mgr c)) \<subseteq> was_stored view c"
    using inv by (simp_all add: conc_ok_def)
  note sub = this(1,2) [unfolded old, THEN subset_trans, OF new]
  note same = stepped_simps facts(1-6)
  from facts(7) show ?thesis
  proof (elim disjE exE conjE)
    fix h rec
    assume r: "fst ?r = Storing rec h" "s_id rec = ?sid" "c_locked (snd ?r)" "c_started (snd ?r) = c_started c @ [(?sid, h)]"
    have "task_ok view ?c (Storing rec h)" by (simp only: task_ok.simps same r)
    then show ?thesis
      by (intro conc_ok_step [OF inv tasks ts]; (simp only: same r stored)?)
        (use ok sub live new old free r(2) in simp_all)
  next
    fix e
    assume r: "fst ?r = Replied e" "c_locked (snd ?r) = c_locked c" "c_started (snd ?r) = c_started c"
    show ?thesis
      by (rule conc_ok_step [OF inv tasks ts]; (simp only: same r stored)?)
        (use ok sub live new old free in simp_all)
  qed
qed

lemma create_store_inv:
  assumes inv: "conc_ok view ok c" and tasks: "c_tasks c = as @ Storing rec h # bs" and now: "valid_time now"
  shows "conc_ok view ok (stepped (length as) (task_step st pm now (Storing rec h) c))"
proof -
  let ?r = "task_step st pm now (Storing rec h) c"
  let ?c = "stepped (length as) ?r" and ?n = "unat (m_counter (c_mgr c))"
  let ?rec = "rec\<lparr>s_created_at := now, s_last_active_at := now\<rparr>" and ?sid = "session_id ?n"
  have ok: "ok (m_store (c_mgr c))" and sid: "s_id rec = ?sid" and fin: "finite (dom (m_handles (c_mgr c)))"
    using inv tasks finite_settled finite_subset by (auto simp: conc_ok_def)
  have locked: "c_locked c"
    using inv unfolding conc_ok_def tasks by (auto split: if_splits)
  have none: "\<not> is_storing v" if "v \<in> set as \<union> set bs" for v
    using others_free(2) [OF inv tasks] that by simp
  have old: "settled c = session_id ` {k. k \<le> ?n \<and> k \<noteq> ?n}"
    unfolding settled_def tasks by auto
  have fresh: "m_handles (c_mgr c) ?sid = None"
    using inv old by (auto simp: conc_ok_def domIff)
  have storable: "storable now ?rec" using now by (simp add: storable_def)
  show ?thesis
  proof (cases "st_create st now ?rec (m_store (c_mgr c))")
    case (Pair res w)
    note dom = create_dom [OF ok storable, unfolded Pair fst_conv snd_conv]
    have okw: "ok w" using ok_create [OF ok, of now ?rec] Pair by simp
    show ?thesis
    proof (cases res)
      case (Inl e)
      then have r: "create_store st now rec h c = (Undoing ?sid h e, with_store w c)" using Pair sid by (simp add: create_store_def)
      have ts: "c_tasks ?c = as @ Undoing ?sid h e # bs @ []"
        using stepped_tasks [OF tasks, of ?r "[]"] r by simp
      have "settled c \<subseteq> settled ?c" unfolding old by (auto simp: settled_def r)
      then show ?thesis
        using inv dom okw Inl sid
        by (intro conc_ok_step [OF inv tasks ts]) (auto simp: r was_stored_def conc_ok_def)
    next
      case (Inr u)
      then have r: "create_store st now rec h c = (Replied (Inr (Session (session_of ?rec h))), spawn (Watching ?sid h False)
          (c\<lparr>c_mgr := (c_mgr c)\<lparr>m_store := w, m_handles := (m_handles (c_mgr c))(?sid \<mapsto> h)\<rparr>, c_locked := False\<rparr>))"
        using Pair sid by (simp add: create_store_def)
      have ts: "c_tasks ?c = as @ Replied (Inr (Session (session_of ?rec h))) # bs @ [Watching ?sid h False]"
        using stepped_tasks [OF tasks, of ?r "[Watching ?sid h False]"] r by simp
      have new: "settled ?c = session_id ` {k. k \<le> ?n}"
        unfolding settled_def ts using none by (auto simp: r)
      then have "insert ?sid (settled c) \<subseteq> settled ?c" using old by auto
      moreover have "dom (view w) = insert ?sid (dom (view (m_store (c_mgr c))))"
        using dom Inr sid by simp
      moreover have "live_pairs ((m_handles (c_mgr c))(?sid \<mapsto> h)) = add_mset (?sid, h) (live_pairs (m_handles (c_mgr c)))"
        using live_pairs_insert [OF fin] fresh by (simp add: domIff)
      ultimately show ?thesis
        using inv okw sid locked
        by (intro conc_ok_step [OF inv tasks ts]) (auto simp: r was_stored_def conc_ok_def)
    qed
  qed
qed

text \<open>The steps that close a handle in hand: of \<open>Create\<close> after a refusal, and of \<open>Delete\<close>.\<close>

lemma close_inv:
  assumes inv: "conc_ok view ok c" and tasks: "c_tasks c = as @ t # bs"
    and t: "t = Undoing sid h e \<or> t = Closing sid h"
  shows "conc_ok view ok (stepped (length as) (task_step st pm now t c))"
proof -
  let ?r = "task_step st pm now t c"
  let ?c = "stepped (length as) ?r"
  obtain res c' where cl: "close_handle pm sid h c = (res, c')" by fastforce
  note same = close_handle_simps [of pm sid h c, unfolded cl snd_conv]
  have r: "m_store (c_mgr (snd ?r)) = m_store (c_mgr c)" "m_handles (c_mgr (snd ?r)) = m_handles (c_mgr c)"
    "m_counter (c_mgr (snd ?r)) = m_counter (c_mgr c)" "c_tasks (snd ?r) = c_tasks c @ []"
    "c_started (snd ?r) = c_started c" "c_erased (snd ?r) = c_erased c"
    "c_closed (snd ?r) = c_closed c @ [(sid, h)]" "c_locked (snd ?r) = (c_locked c \<and> \<not> holds_lock t)"
    "\<exists>x. fst ?r = Replied x"
    using t by (cases res; auto simp: cl same)+
  obtain x where x: "fst ?r = Replied x" using r(9) by blast
  have ts: "c_tasks ?c = as @ fst ?r # bs @ []" by (rule stepped_tasks [OF tasks r(4)])
  have "settled ?c = settled c"
    by (rule settled_cong, simp add: r, simp only: ts tasks x) (use t in auto)
  moreover have "was_stored view ?c = was_stored view c" by (simp add: was_stored_def r)
  moreover have "holds_lock t \<longrightarrow> c_locked c"
    using inv unfolding conc_ok_def tasks by (auto split: if_splits)
  ultimately show ?thesis
    using inv t by (intro conc_ok_step [OF inv tasks ts]) (auto simp: r x conc_ok_def)
qed

text \<open>\<open>Resume\<close> under the lock.\<close>

lemma attach_inv:
  assumes inv: "conc_ok view ok c" and tasks: "c_tasks c = as @ Attaching sid rec # bs"
  shows "conc_ok view ok (stepped (length as) (task_step st pm now (Attaching sid rec) c))"
proof -
  let ?r = "task_step st pm now (Attaching sid rec) c"
  let ?c = "stepped (length as) ?r"
  have ok: "ok (m_store (c_mgr c))" and fin: "finite (dom (m_handles (c_mgr c)))"
    and sid: "sid \<in> settled c" "sid \<in> was_stored view c"
    using inv tasks finite_settled finite_subset by (auto simp: conc_ok_def)
  have same: "m_store (c_mgr (snd ?r)) = m_store (c_mgr c)" "m_counter (c_mgr (snd ?r)) = m_counter (c_mgr c)"
    "c_tasks (snd ?r) = c_tasks c @ []" "c_locked (snd ?r) = c_locked c" "c_closed (snd ?r) = c_closed c"
    "c_erased (snd ?r) = c_erased c"
    and new: "(\<exists>h. m_handles (c_mgr c) sid = None \<and> m_handles (c_mgr (snd ?r)) = (m_handles (c_mgr c))(sid \<mapsto> h) \<and>
        c_started (snd ?r) = c_started c @ [(sid, h)] \<and> fst ?r = Touching sid rec h) \<or>
      m_handles (c_mgr (snd ?r)) = m_handles (c_mgr c) \<and> c_started (snd ?r) = c_started c \<and> (\<exists>x. fst ?r = Replied x)"
    by (simp_all add: attach_step_def resume_attach_def split: option.split prod.split sum.split)
  have ts: "c_tasks ?c = as @ fst ?r # bs @ []" by (rule stepped_tasks [OF tasks same(3)])
  have t2: "\<not> is_storing (fst ?r)" "\<not> holds_lock (fst ?r)" "held (fst ?r) = {#}" "task_ok view ?c (fst ?r)"
    using new by auto
  have settled: "settled ?c = settled c"
    by (rule settled_cong, simp only: stepped_simps same, simp only: ts tasks) (use t2 in auto)
  have stored: "was_stored view ?c = was_stored view c"
    unfolding was_stored_def stepped_simps same by simp
  have "dom (m_handles (c_mgr (snd ?r))) \<subseteq> insert sid (dom (m_handles (c_mgr c)))"
    using new by (elim disjE exE conjE; simp only:) auto
  moreover have sub: "dom (view (m_store (c_mgr c))) \<subseteq> settled c"
    and old: "dom (m_handles (c_mgr c)) \<subseteq> settled c" "dom (m_handles (c_mgr c)) \<subseteq> was_stored view c"
    using inv by (simp_all add: conc_ok_def)
  ultimately have more: "dom (m_handles (c_mgr (snd ?r))) \<subseteq> settled c"
    "dom (m_handles (c_mgr (snd ?r))) \<subseteq> was_stored view c"
    using sid by blast+
  have places: "mset (c_started (snd ?r)) + live_pairs (m_handles (c_mgr c)) =
      mset (c_started c) + live_pairs (m_handles (c_mgr (snd ?r)))"
    using new live_pairs_insert [OF fin, of sid] by (auto simp: domIff)
  show ?thesis
    by (rule conc_ok_step [OF inv tasks ts]; (simp only: settled stored)?; (simp only: stepped_simps same)?)
      (use ok sub more t2 places in simp_all)
qed

text \<open>\<open>Delete\<close>.\<close>

lemma delete_inv:
  assumes inv: "conc_ok view ok c" and tasks: "c_tasks c = as @ Asked (Req_Delete sid) # bs"
  shows "conc_ok view ok (stepped (length as) (task_step st pm now (Asked (Req_Delete sid)) c))"
proof -
  let ?hs = "m_handles (c_mgr c)"
  let ?r = "(Erasing sid (?hs sid), c\<lparr>c_mgr := (c_mgr c)\<lparr>m_handles := ?hs(sid := None)\<rparr>\<rparr>)"
  let ?c = "stepped (length as) ?r"
  have r: "task_step st pm now (Asked (Req_Delete sid)) c = ?r" by (simp add: detach_def)
  have ok: "ok (m_store (c_mgr c))" and fin: "finite (dom ?hs)"
    using inv finite_settled finite_subset by (auto simp: conc_ok_def)
  have ts: "c_tasks ?c = as @ Erasing sid (?hs sid) # bs @ []"
    using stepped_tasks [OF tasks, of ?r "[]"] by simp
  have settled: "settled ?c = settled c"
    by (rule settled_cong, simp, simp only: ts tasks) auto
  have stored: "was_stored view ?c = was_stored view c" by (simp add: was_stored_def)
  have "live_pairs ?hs = held (Erasing sid (?hs sid)) + live_pairs (?hs(sid := None))"
    using live_pairs_remove [OF fin, of sid] by (cases "?hs sid") (simp_all add: fun_upd_idem)
  then show ?thesis
    unfolding r using inv
    by (intro conc_ok_step [OF inv tasks ts]) (auto simp: settled stored conc_ok_def)
qed

lemma erase_inv:
  assumes inv: "conc_ok view ok c" and tasks: "c_tasks c = as @ Erasing sid live # bs"
  shows "conc_ok view ok (stepped (length as) (task_step st pm now (Erasing sid live) c))"
proof -
  obtain res w where del: "st_delete st sid (m_store (c_mgr c)) = (res, w)" by fastforce
  let ?t = "case live of Some h \<Rightarrow> Closing sid h
    | None \<Rightarrow> Replied (case res of Inl e \<Rightarrow> Inl Mgr_Not_Found | Inr u \<Rightarrow> Inr Done)"
  let ?c = "stepped (length as) (task_step st pm now (Erasing sid live) c)"
  have r: "erase_step st sid live c = (?t, (with_store w c)\<lparr>c_erased := c_erased c @ [sid]\<rparr>)"
    using del by (simp add: erase_step_def)
  have ok: "ok (m_store (c_mgr c))" "ok w" using inv ok_delete del by (auto simp: conc_ok_def) (metis snd_conv)
  have ts: "c_tasks ?c = as @ ?t # bs @ []"
    using stepped_tasks [OF tasks, of "task_step st pm now (Erasing sid live) c" "[]"] r tasks by simp
  have settled: "settled ?c = settled c"
    by (rule settled_cong, simp add: r, simp only: ts tasks) (auto split: option.split)
  have dom: "dom (view w) = (if res = Inr () then dom (view (m_store (c_mgr c))) - {sid} else dom (view (m_store (c_mgr c))))"
    using delete_dom [OF ok(1), of sid] del by simp
  then have stored: "was_stored view c \<subseteq> was_stored view ?c" by (auto simp: was_stored_def r)
  have live: "dom (m_handles (c_mgr c)) \<subseteq> was_stored view c" "dom (view (m_store (c_mgr c))) \<subseteq> settled c"
    "dom (m_handles (c_mgr c)) \<subseteq> settled c"
    using inv by (simp_all add: conc_ok_def)
  then have live2: "dom (m_handles (c_mgr c)) \<subseteq> was_stored view ?c" "dom (view w) \<subseteq> settled c"
    using stored dom by auto
  have same: "c_mgr ?c = (c_mgr c)\<lparr>m_store := w\<rparr>" "c_locked ?c = c_locked c" "c_started ?c = c_started c"
    "c_closed ?c = c_closed c"
    by (simp_all add: r)
  show ?thesis
    by (rule conc_ok_step [OF inv tasks ts]; (simp only: settled same)?)
      (use ok(2) live(3) live2 stored in \<open>simp_all split: option.split\<close>)
qed

lemma replied_inv:
  assumes inv: "conc_ok view ok c" and tasks: "c_tasks c = as @ Replied x # bs"
  shows "conc_ok view ok (stepped (length as) (task_step st pm now (Replied x) c))"
proof -
  have "stepped (length as) (task_step st pm now (Replied x) c) = c"
    using tasks by (simp add: stepped_def)
  then show ?thesis using inv by simp
qed

lemma arrive_inv:
  assumes inv: "conc_ok view ok c"
  shows "conc_ok view ok (spawn (Asked req) c)"
proof -
  have "settled (spawn (Asked req) c) = settled c" by (rule settled_cong) auto
  moreover have "was_stored view (spawn (Asked req) c) = was_stored view c" by (simp add: was_stored_def)
  moreover have "in_hand (spawn (Asked req) c) = in_hand c" by (simp add: in_hand_def)
  moreover have "task_ok view (spawn (Asked req) c) t" if "task_ok view c t" for t
    using that calculation(1,2) by (cases t) simp_all
  ultimately show ?thesis using inv by (simp add: conc_ok_def accounted_def)
qed

lemma conc_step_inv:
  assumes inv: "conc_ok view ok c" and step: "conc_step st pm e c = Some c'"
  shows "conc_ok view ok c'"
proof (cases e)
  case (Arrive req)
  then show ?thesis using step arrive_inv [OF inv] by auto
next
  case (Step i now)
  then have can: "can_step i c" and now: "valid_time now"
    and c': "c' = stepped i (task_step st pm now (c_tasks c ! i) c)"
    using step by (simp_all only: conc_step_Step)
  let ?as = "take i (c_tasks c)" and ?bs = "drop (Suc i) (c_tasks c)" and ?t = "c_tasks c ! i"
  have i: "i < length (c_tasks c)" "length ?as = i" using can by (simp_all add: can_step_def)
  then have tasks: "c_tasks c = ?as @ ?t # ?bs" by (simp add: id_take_nth_drop)
  have "conc_ok view ok (stepped (length ?as) (task_step st pm now ?t c))"
  proof (cases ?t)
    case (Asked req)
    show ?thesis
    proof (cases req)
      case (Req_Create u p x wd)
      then have "\<not> c_locked c" "unat (m_counter (c_mgr c)) + 1 < 2 ^ 64"
        using can Asked by (simp_all add: can_step_def)
      then show ?thesis using create_begin_inv [OF inv] tasks unfolding Asked Req_Create by blast
    qed (use tasks Asked in \<open>simp_all only: resume_read_inv [OF inv] list_inv [OF inv] get_inv [OF inv]
        delete_inv [OF inv]\<close>)
  next
    case (Undoing sid h e)
    show ?thesis using close_inv [OF inv tasks] Undoing by blast
  next
    case (Closing sid h)
    show ?thesis using close_inv [OF inv tasks] Closing by blast
  qed (use tasks now in \<open>simp_all only: looking_inv [OF inv] touching_inv [OF inv] watching_inv [OF inv]
      create_store_inv [OF inv] attach_inv [OF inv] erase_inv [OF inv] replied_inv [OF inv]\<close>)
  then show ?thesis unfolding c' i(2) .
qed

end

sublocale session_manager \<subseteq> runs: partial_invariant "conc_step st pm" "conc_ok view ok"
  by unfold_locales (rule conc_step_inv)

lemma quiet_ok:
  assumes "mgr_ok view ok m" "m_handles m = Map.empty"
  shows "conc_ok view ok (quiet m)"
proof -
  have "settled (quiet m) = issued (unat (m_counter m))" by (simp add: settled_def quiet_def issued_def)
  then show ?thesis using assms by (simp add: conc_ok_def quiet_def mgr_ok_def accounted_def in_hand_def)
qed

section \<open>A request alone\<close>

text \<open>A request that nothing interleaves with: its own steps up to the reply, then the subscription of
  the watcher it started.\<close>

fun settle ::
  "'w store_ops \<Rightarrow> ('h, 'p) process_manager \<Rightarrow> go_time \<Rightarrow> nat \<Rightarrow> 'h task \<Rightarrow> ('h, 'w, 'p) conc \<Rightarrow>
   'h task \<times> ('h, 'w, 'p) conc" where
  "settle st pm now 0 t c = (t, c)"
| "settle st pm now (Suc n) t c = (case task_step st pm now t c of (t', c') \<Rightarrow> settle st pm now n t' c')"

definition alone ::
  "'w store_ops \<Rightarrow> ('h, 'p) process_manager \<Rightarrow> go_time \<Rightarrow> mgr_request \<Rightarrow> ('h, 'w, 'p) manager \<Rightarrow>
   'h task \<times> ('h, 'w, 'p) manager" where
  "alone st pm now req m =
     (case settle st pm now 3 (Asked req) (quiet m) of
        (t, c) \<Rightarrow> (t, c_mgr (fold (\<lambda>w c. snd (task_step st pm now w c)) (c_tasks c) c)))"

fun sequential ::
  "'w store_ops \<Rightarrow> ('h, 'p) process_manager \<Rightarrow> go_time \<Rightarrow> mgr_request \<Rightarrow> ('h, 'w, 'p) manager \<Rightarrow>
   (mgr_error + 'h reply) \<times> ('h, 'w, 'p) manager" where
  "sequential st pm now (Req_Create u p x wd) m =
     map_prod (map_sum (\<lambda>e. e) Session) (\<lambda>m. m) (manager_create st pm now u p x wd m)"
| "sequential st pm now (Req_Get sid) m =
     map_prod (map_sum (\<lambda>e. e) Session) (\<lambda>m. m) (manager_get st sid m)"
| "sequential st pm now (Req_Resume sid) m =
     map_prod (map_sum (\<lambda>e. e) Session) (\<lambda>m. m) (manager_resume st pm now sid m)"
| "sequential st pm now (Req_List q) m =
     map_prod (map_sum (\<lambda>e. e) Sessions) (\<lambda>m. m) (manager_list st q m)"
| "sequential st pm now (Req_Delete sid) m =
     map_prod (map_sum (\<lambda>e. e) (\<lambda>u. Done)) (\<lambda>m. m) (manager_delete st pm sid m)"

lemma settle_Replied [simp]: "settle st pm now n (Replied x) c = (Replied x, c)"
  by (induction n) simp_all

lemma settle_3: "settle st pm now 3 t c =
   (case task_step st pm now t c of (t1, c1) \<Rightarrow> settle st pm now 2 t1 c1)"
  "settle st pm now 2 t c = (case task_step st pm now t c of (t1, c1) \<Rightarrow> settle st pm now 1 t1 c1)"
  "settle st pm now 1 t c = task_step st pm now t c"
  by (simp_all add: numeral_3_eq_3 numeral_2_eq_2 split: prod.split)

text \<open>The two models of the session manager agree: a request whose steps nothing interleaves with,
  followed by the first step of the goroutine it starts, gives the reply and leaves the manager that
  the method as one function gives. What is proved of the one is so far about the other.\<close>

lemma alone_is_sequential:
  "alone st pm now req m = map_prod Replied (\<lambda>m. m) (sequential st pm now req m)"
proof (cases req)
  case (Req_Create u p x wd)
  then show ?thesis
    by (simp add: alone_def quiet_def settle_3 create_begin_def manager_create_def Let_def create_record_def
        create_store_def close_handle_def with_store_def spawn_def session_of_def split: sum.split prod.split)
next
  case (Req_Get sid)
  then show ?thesis
    by (simp add: alone_def quiet_def settle_3 manager_get_def found_or_def with_store_def
        split: option.split sum.split prod.split)
next
  case (Req_Resume sid)
  then show ?thesis
    by (simp add: alone_def quiet_def settle_3 manager_resume_def found_or_def with_store_def attach_step_def
        touch_store_def spawn_def split: sum.split prod.split)
next
  case (Req_List q)
  then show ?thesis
    by (simp add: alone_def quiet_def settle_3 manager_list_def with_store_def split: sum.split prod.split)
next
  case (Req_Delete sid)
  obtain res w where del: "st_delete st sid (m_store m) = (res, w)" by fastforce
  note defs = alone_def quiet_def settle_3 manager_delete_def detach_def erase_step_def close_handle_def
    with_store_def del Req_Delete
  show ?thesis
  proof (cases "m_handles m sid")
    case None
    then show ?thesis by (simp add: defs split: sum.split)
  next
    case (Some h)
    obtain res2 q where "ah_close pm h (m_procs m) = (res2, q)" by fastforce
    then show ?thesis using Some by (cases res2) (simp_all add: defs)
  qed
qed


section \<open>Progress\<close>

fun rank :: "'h task \<Rightarrow> nat" where
  "rank (Asked req) = 3"
| "rank (Storing r h) = 2"
| "rank (Attaching sid r) = 2"
| "rank (Erasing sid live) = 2"
| "rank (Replied res) = 0"
| "rank _ = 1"

fun is_watcher :: "'h task \<Rightarrow> bool" where
  "is_watcher (Watching sid h b) = True"
| "is_watcher _ = False"

fun is_asked :: "'h task \<Rightarrow> bool" where
  "is_asked (Asked req) = True"
| "is_asked _ = False"

lemma rank_0: "rank t = 0 \<longleftrightarrow> (\<exists>x. t = Replied x)"
  by (cases t) auto

lemma not_asked_counts: "\<not> is_asked t \<Longrightarrow> counts_on t c"
  by (cases t) auto

text \<open>A request's own step brings it closer to its reply and does not leave the lock behind.\<close>

lemma task_progress:
  assumes "\<not> is_watcher t" "rank t \<noteq> 0" "holds_lock t \<or> \<not> c_locked c" "task_step st pm now t c = (t', c')"
  shows "rank t' < rank t \<and> \<not> is_watcher t' \<and> \<not> is_asked t' \<and> (holds_lock t' \<or> \<not> c_locked c') \<and>
    (\<exists>ws. c_tasks c' = c_tasks c @ ws) \<and> (is_asked t \<or> m_counter (c_mgr c') = m_counter (c_mgr c))"
proof (cases t)
  case (Asked req)
  then show ?thesis
    using assms
    by (cases req)
      (auto simp: create_begin_def Let_def found_or_def detach_def split: sum.splits prod.splits option.splits)
next
  case (Storing r h)
  then show ?thesis using assms by (auto simp: create_store_def Let_def split: sum.splits prod.splits)
next
  case (Undoing sid h e)
  then show ?thesis using assms by auto
next
  case (Closing sid h)
  obtain res k where "close_handle pm sid h c = (res, k)" by fastforce
  then show ?thesis
    using assms Closing close_handle_simps [of pm sid h c] by (cases res) auto
next
  case (Attaching sid r)
  then show ?thesis
    using assms by (auto simp: attach_step_def resume_attach_def split: sum.splits prod.splits option.splits if_splits)
next
  case (Erasing sid live)
  then show ?thesis using assms by (auto simp: erase_step_def split: option.splits prod.splits)
next
  case (Touching sid r h)
  then show ?thesis using assms by (auto simp: touch_store_def)
next
  case (Looking sid h)
  then show ?thesis using assms by (auto simp: found_or_def split: prod.splits sum.splits)
qed (use assms in auto)

text \<open>A request that has the lock, or needs nobody to give it up, replies in at most three steps of its
  own, whatever the store and the processes answer.\<close>

lemma finish_alone:
  assumes "valid_time now" "now \<noteq> zero_time"
  shows "i < length (c_tasks c) \<Longrightarrow> \<not> is_watcher (c_tasks c ! i) \<Longrightarrow>
    holds_lock (c_tasks c ! i) \<or> \<not> c_locked c \<Longrightarrow> counts_on (c_tasks c ! i) c \<Longrightarrow> rank (c_tasks c ! i) \<le> n \<Longrightarrow>
    \<exists>k\<le>n. \<exists>c' x. attempt (conc_step st pm) (replicate k (Step i now)) c = Some c' \<and>
      c_tasks c' ! i = Replied x \<and> \<not> c_locked c' \<and> length (c_tasks c) \<le> length (c_tasks c') \<and>
      (\<forall>j<length (c_tasks c). j \<noteq> i \<longrightarrow> c_tasks c' ! j = c_tasks c ! j) \<and>
      (is_asked (c_tasks c ! i) \<or> m_counter (c_mgr c') = m_counter (c_mgr c))"
proof (induction n arbitrary: c)
  case 0
  then obtain x where "c_tasks c ! i = Replied x" by (auto simp: rank_0)
  then show ?case using 0 by (intro exI [of _ 0] conjI exI [of _ c]) auto
next
  case (Suc n)
  let ?t = "c_tasks c ! i"
  show ?case
  proof (cases "rank ?t = 0")
    case True
    then obtain x where "?t = Replied x" by (auto simp: rank_0)
    then show ?thesis using Suc.prems by (intro exI [of _ 0] conjI exI [of _ c]) auto
  next
    case False
    obtain t' c1 where step: "task_step st pm now ?t c = (t', c1)" by fastforce
    note prog = task_progress [OF Suc.prems(2) False Suc.prems(3) step]
    obtain ws where ws: "c_tasks c1 = c_tasks c @ ws" using prog by blast
    let ?c2 = "c1\<lparr>c_tasks := (c_tasks c1)[i := t']\<rparr>"
    have t2: "c_tasks ?c2 ! i = t'" "length (c_tasks c) \<le> length (c_tasks ?c2)"
      "\<forall>j<length (c_tasks c). j \<noteq> i \<longrightarrow> c_tasks ?c2 ! j = c_tasks c ! j"
      using Suc.prems(1) by (simp_all add: ws nth_append)
    have "\<not> (c_locked c \<and> needs_lock ?t)" using Suc.prems(3) by (cases ?t) auto
    then have c2: "conc_step st pm (Step i now) c = Some ?c2"
      using Suc.prems(1,4) assms step by (simp add: can_step_def)
    have "\<exists>k\<le>n. \<exists>c' x. attempt (conc_step st pm) (replicate k (Step i now)) ?c2 = Some c' \<and>
      c_tasks c' ! i = Replied x \<and> \<not> c_locked c' \<and> length (c_tasks ?c2) \<le> length (c_tasks c') \<and>
      (\<forall>j<length (c_tasks ?c2). j \<noteq> i \<longrightarrow> c_tasks c' ! j = c_tasks ?c2 ! j) \<and>
      (is_asked (c_tasks ?c2 ! i) \<or> m_counter (c_mgr c') = m_counter (c_mgr ?c2))"
      by (rule Suc.IH) (use prog t2 Suc.prems not_asked_counts [of t' ?c2] in \<open>simp_all\<close>)
    then obtain k c' x where k: "k \<le> n" "attempt (conc_step st pm) (replicate k (Step i now)) ?c2 = Some c'"
      "c_tasks c' ! i = Replied x" "\<not> c_locked c'" "length (c_tasks ?c2) \<le> length (c_tasks c')"
      "\<forall>j<length (c_tasks ?c2). j \<noteq> i \<longrightarrow> c_tasks c' ! j = c_tasks ?c2 ! j"
      "is_asked (c_tasks ?c2 ! i) \<or> m_counter (c_mgr c') = m_counter (c_mgr ?c2)"
      by blast
    have "attempt (conc_step st pm) (replicate (Suc k) (Step i now)) c = Some c'"
      using c2 k(2) by (simp del: conc_step.simps)
    moreover have "\<forall>j<length (c_tasks c). j \<noteq> i \<longrightarrow> c_tasks c' ! j = c_tasks c ! j"
      using k(6) t2 by auto
    moreover have "is_asked ?t \<or> m_counter (c_mgr c') = m_counter (c_mgr c)"
      using k(7) prog t2(1) by auto
    ultimately show ?thesis
      using k t2(2) by (intro exI [of _ "Suc k"] conjI exI [of _ c'] exI [of _ x]) auto
  qed
qed

lemma lock_has_holder:
  assumes "conc_ok view ok c" "c_locked c"
  shows "\<exists>j<length (c_tasks c). holds_lock (c_tasks c ! j)"
proof -
  have "filter holds_lock (c_tasks c) \<noteq> []" using assms by (auto simp: conc_ok_def)
  then show ?thesis by (auto simp: filter_empty_conv in_set_conv_nth)
qed

lemma request_finishes:
  assumes "conc_ok view ok c" "i < length (c_tasks c)" "\<not> is_watcher (c_tasks c ! i)"
    and "unat (m_counter (c_mgr c)) + 1 < 2 ^ 64" "valid_time now" "now \<noteq> zero_time"
  shows "\<exists>ops c' x. length ops \<le> 5 \<and> set ops \<subseteq> range (\<lambda>j. Step j now) \<and>
    attempt (conc_step st pm) ops c = Some c' \<and> c_tasks c' ! i = Replied x"
proof (cases "c_locked c")
  case False
  have "counts_on (c_tasks c ! i) c" using assms(4) by (cases "(c_tasks c ! i, c)" rule: counts_on.cases) auto
  moreover have "rank (c_tasks c ! i) \<le> 3" by (cases "c_tasks c ! i") auto
  ultimately obtain k c' x where k: "k \<le> 3" "attempt (conc_step st pm) (replicate k (Step i now)) c = Some c'"
    "c_tasks c' ! i = Replied x"
    using finish_alone [OF assms(5,6,2,3), of 3 st pm] False by blast
  then show ?thesis by (intro exI [of _ "replicate k (Step i now)"] exI [of _ c'] exI [of _ x]) auto
next
  case True
  from lock_has_holder [OF assms(1) True] obtain j where j: "j < length (c_tasks c)" "holds_lock (c_tasks c ! j)"
    by blast
  then have h: "\<not> is_watcher (c_tasks c ! j)" "rank (c_tasks c ! j) \<le> 2" "\<not> is_asked (c_tasks c ! j)"
    by (cases "c_tasks c ! j"; simp)+
  obtain k c1 y where k: "k \<le> 2" "attempt (conc_step st pm) (replicate k (Step j now)) c = Some c1"
    "c_tasks c1 ! j = Replied y" "\<not> c_locked c1" "length (c_tasks c) \<le> length (c_tasks c1)"
    "\<forall>a<length (c_tasks c). a \<noteq> j \<longrightarrow> c_tasks c1 ! a = c_tasks c ! a" "m_counter (c_mgr c1) = m_counter (c_mgr c)"
    using finish_alone [OF assms(5,6) j(1) h(1), of 2 st pm] j(2) h not_asked_counts by blast
  have t: "\<not> is_watcher (c_tasks c1 ! i)" "i < length (c_tasks c1)"
    using assms(2,3) k(3,5,6) by (cases "i = j"; auto)+
  have "counts_on (c_tasks c1 ! i) c1" using assms(4) k(7) by (cases "(c_tasks c1 ! i, c1)" rule: counts_on.cases) auto
  moreover have "rank (c_tasks c1 ! i) \<le> 3" by (cases "c_tasks c1 ! i") auto
  ultimately obtain l c' x where l: "l \<le> 3" "attempt (conc_step st pm) (replicate l (Step i now)) c1 = Some c'"
    "c_tasks c' ! i = Replied x"
    using finish_alone [OF assms(5,6) t(2,1), of 3 st pm] k(4) by blast
  then show ?thesis
    using k by (intro exI [of _ "replicate k (Step j now) @ replicate l (Step i now)"] exI [of _ c'] exI [of _ x])
      (auto simp: attempt_append)
qed


section \<open>Properties\<close>

lemma interleaved_ok:
  assumes "db_ok d" "six_digit_ids (dom (sqlite_view d))"
    and "manager_init sqlite_store (new_manager d p) = (Inr (), m)"
    and "attempt (conc_step sqlite_store pm) ops (quiet m) = Some c"
  shows "conc_ok sqlite_view db_ok c"
proof -
  have "mgr_ok sqlite_view db_ok m" using sqlite_mgr.init_outcome [OF assms(1-3)] by blast
  moreover have "m_handles m = Map.empty"
    using assms(3) by (auto simp: manager_init_def new_manager_def split: sum.splits prod.splits)
  ultimately have "conc_ok sqlite_view db_ok (quiet m)" by (rule quiet_ok)
  from sqlite_mgr.runs.attempt_inv [OF this assms(4)] show ?thesis .
qed

text \<open>A sample run over the no-op process manager: two requests create sessions with one external id,
  so the store refuses the second, while a third request deletes the first session.\<close>

definition waiting_ops :: "conc_op list" where
  "waiting_ops = [Arrive (Req_Create ''u1'' [] ''e2'' ''/w''), Arrive (Req_Create ''u1'' [] ''e2'' ''/w''),
     Step 0 (noon 2 0)]"

definition race_ops :: "conc_op list" where
  "race_ops = waiting_ops @ [Step 0 (noon 2 0), Step 1 (noon 2 0), Step 1 (noon 2 0),
     Arrive (Req_Delete ''s_000002''), Step 1 (noon 2 0), Step 3 (noon 2 0)]"

definition demo_run :: "conc_op list \<Rightarrow> (nat, db, noop_world) conc option" where
  "demo_run ops = attempt (conc_step sqlite_store (noop_manager [])) ops (quiet demo_manager)"

lemma demo_some: "demo_run ops \<noteq> None \<Longrightarrow>
    attempt (conc_step sqlite_store (noop_manager [])) ops (quiet demo_manager) = Some (the (demo_run ops))"
  by (simp add: demo_run_def)

lemma race_state:
  "demo_run race_ops \<noteq> None"
  "c_started (the (demo_run race_ops)) = [(''s_000002'', 0), (''s_000003'', 1)]"
  "c_closed (the (demo_run race_ops)) = [(''s_000003'', 1)]"
  "c_tasks (the (demo_run race_ops)) ! 1 = Replied (Inl (Mgr_Store Store_Conflict))"
  "c_tasks (the (demo_run race_ops)) ! 3 = Erasing ''s_000002'' (Some 0)"
  by code_simp+

text \<open>C2: Whatever the requests and however their steps interleave, every process that was started is in
  exactly one place: registered under its session, in the hand of a request that will register or
  close it, or closed. None is lost, none is closed twice, and of one session at most one process is
  neither closed nor in the hand of a request.\<close>

theorem no_process_lost:
  assumes "db_ok d" "six_digit_ids (dom (sqlite_view d))"
    and "manager_init sqlite_store (new_manager d p) = (Inr (), m)"
    and "attempt (conc_step sqlite_store pm) ops (quiet m) = Some c"
  shows "mset (c_started c) = live_pairs (m_handles (c_mgr c)) + in_hand c + mset (c_closed c) \<and>
    size {#q \<in># mset (c_started c). fst q = sid#} \<le>
      size {#q \<in># in_hand c + mset (c_closed c). fst q = sid#} + 1"
proof -
  have ok: "conc_ok sqlite_view db_ok c" by (rule interleaved_ok [OF assms])
  then have eq: "mset (c_started c) = live_pairs (m_handles (c_mgr c)) + in_hand c + mset (c_closed c)"
    by (simp add: conc_ok_def accounted_def)
  have "finite (dom (m_handles (c_mgr c)))"
    using ok finite_settled finite_subset by (auto simp: conc_ok_def)
  then have "size {#q \<in># live_pairs (m_handles (c_mgr c)). fst q = sid#} \<le> 1"
    by (rule live_pairs_once)
  then show ?thesis using eq by simp
qed

theorem no_process_lost_witness:
  "let c = the (demo_run race_ops) in
   {#(''s_000002'', 0), (''s_000003'', 1)#} = live_pairs (m_handles (c_mgr c)) + in_hand c + {#(''s_000003'', 1)#}"
  using no_process_lost [OF demo_init(1) six_digit_one_session demo_init(2) demo_some [OF race_state(1)]]
    race_state(2,3)
  by (simp add: Let_def)

text \<open>C9: The manager's invariant under concurrent requests: the database stays consistent, every stored
  and every live id was given out by the counter, and a live session is in the store unless a
  \<open>Delete\<close> of that id has reached the store.\<close>

theorem manager_invariant_interleaved:
  assumes "db_ok d" "six_digit_ids (dom (sqlite_view d))"
    and "manager_init sqlite_store (new_manager d p) = (Inr (), m)"
    and "attempt (conc_step sqlite_store pm) ops (quiet m) = Some c"
  shows "db_ok (m_store (c_mgr c)) \<and> dom (sqlite_view (m_store (c_mgr c))) \<subseteq> issued (unat (m_counter (c_mgr c))) \<and>
    dom (m_handles (c_mgr c)) \<subseteq> issued (unat (m_counter (c_mgr c))) \<and>
    dom (m_handles (c_mgr c)) \<subseteq> dom (sqlite_view (m_store (c_mgr c))) \<union> set (c_erased c)"
proof -
  have "settled c \<subseteq> issued (unat (m_counter (c_mgr c)))" by (auto simp: settled_def issued_def)
  then show ?thesis
    using interleaved_ok [OF assms] by (auto simp: conc_ok_def was_stored_def)
qed

theorem manager_invariant_interleaved_witness:
  "let c = the (demo_run race_ops) in
   dom (m_handles (c_mgr c)) \<subseteq> dom (sqlite_view (m_store (c_mgr c))) \<union> set (c_erased c)"
  using manager_invariant_interleaved
    [OF demo_init(1) six_digit_one_session demo_init(2) demo_some [OF race_state(1)]]
  by (simp add: Let_def)

text \<open>C15: No request is stuck behind another: in every state that interleaved requests reach, each
  request can be brought to its reply in at most five steps, two of the request that holds the lock
  and three of its own, whatever the store and the processes answer.\<close>

theorem request_can_finish:
  assumes "db_ok d" "six_digit_ids (dom (sqlite_view d))"
    and "manager_init sqlite_store (new_manager d p) = (Inr (), m)"
    and "attempt (conc_step sqlite_store pm) ops (quiet m) = Some c"
    and "i < length (c_tasks c)" "\<not> is_watcher (c_tasks c ! i)"
    and "unat (m_counter (c_mgr c)) + 1 < 2 ^ 64" "valid_time now" "now \<noteq> zero_time"
  shows "\<exists>more c' x. length more \<le> 5 \<and> set more \<subseteq> range (\<lambda>j. Step j now) \<and>
    attempt (conc_step sqlite_store pm) more c = Some c' \<and> c_tasks c' ! i = Replied x"
  by (rule request_finishes [OF interleaved_ok [OF assms(1-4)] assms(5-9)])

lemma waiting_state:
  "demo_run waiting_ops \<noteq> None" "c_locked (the (demo_run waiting_ops))"
  "1 < length (c_tasks (the (demo_run waiting_ops)))"
  "\<not> is_watcher (c_tasks (the (demo_run waiting_ops)) ! 1)"
  "unat (m_counter (c_mgr (the (demo_run waiting_ops)))) + 1 < 2 ^ 64"
  "valid_time (noon 2 0)" "noon 2 0 \<noteq> zero_time"
  by code_simp+

theorem request_can_finish_witness:
  "\<exists>more c' x. length more \<le> 5 \<and>
     attempt (conc_step sqlite_store (noop_manager [])) more (the (demo_run waiting_ops)) = Some c' \<and>
     c_tasks c' ! 1 = Replied x"
  using request_can_finish
    [OF demo_init(1) six_digit_one_session demo_init(2) demo_some [OF waiting_state(1)] waiting_state(3-7)]
  by blast

text \<open>C34: \<open>Resume\<close> reads the record before it takes the lock and does not look again. When a \<open>Delete\<close> of
  the same session runs in between, both report success, the record is gone, and a new process
  runs, registered under the deleted id, for a session that \<open>Get\<close> and \<open>Resume\<close> do not find.\<close>

theorem resume_outlives_delete:
  assumes "mgr_ok sqlite_view db_ok m" "healthy (m_store m)" "valid_time now" "now \<noteq> zero_time"
    and "sqlite_view (m_store m) sid = Some r" "m_handles m sid = None"
    and "\<And>opts q. \<exists>h q'. pm_start pm opts q = (Inr h, q')"
  shows "\<exists>c h s. attempt (conc_step sqlite_store pm)
      [Arrive (Req_Resume sid), Arrive (Req_Delete sid), Step 0 now, Step 1 now, Step 1 now, Step 0 now, Step 0 now]
      (quiet m) = Some c \<and>
    c_tasks c = [Replied (Inr (Session s)), Replied (Inr Done), Watching sid h False] \<and>
    m_handles (c_mgr c) sid = Some h \<and> sqlite_view (m_store (c_mgr c)) sid = None \<and>
    fst (manager_get sqlite_store sid (c_mgr c)) = Inl Mgr_Not_Found \<and>
    fst (manager_resume sqlite_store pm now sid (c_mgr c)) = Inl Mgr_Not_Found"
proof -
  let ?d = "m_store m" and ?opts = "\<lparr>so_session_id = s_id r, so_user_id = s_user_id r,
    so_project_id = s_project_id r, so_working_dir = s_working_dir r\<rparr>"
  let ?e = "without_session sid ?d"
  obtain h q where start: "pm_start pm ?opts (m_procs m) = (Inr h, q)" using assms(7) by blast
  have read: "lookup_record sqlite_store sid ?d = (Inr r, ?d)"
    using get_step [OF assms(2)] assms(5) by (simp add: lookup_record_def sqlite_store_def)
  have del: "st_delete sqlite_store sid ?d = (Inr (), ?e)"
    using delete_step [OF assms(2)] assms(5) by (simp add: sqlite_store_def)
  have healthy: "healthy ?e" by (rule healthy_cong [OF assms(2)]) (simp_all add: without_session_def)
  have gone: "sqlite_view ?e sid = None" by (simp add: view_without)
  have touch: "st_touch sqlite_store now sid now ?e = (Inl Store_Not_Found, ?e)"
    using touch_step [OF healthy] gone by (simp add: sqlite_store_def)
  have again: "lookup_record sqlite_store sid ?e = (Inl Mgr_Not_Found, ?e)"
    using get_step [OF healthy] gone by (simp add: lookup_record_def sqlite_store_def)
  have same: "(m_handles m)(sid := None) = m_handles m" using assms(6) by (rule fun_upd_idem)
  show ?thesis
    using start assms(3,4,6) gone
    by (simp add: quiet_def spawn_def can_step_def read found_or_def with_store_def detach_def same erase_step_def del
        attach_step_def resume_attach_def touch_store_def touch manager_get_def manager_resume_def again)
qed

theorem resume_outlives_delete_witness:
  "\<exists>c h. attempt (conc_step sqlite_store (noop_manager []))
      [Arrive (Req_Resume ''s_000001''), Arrive (Req_Delete ''s_000001''), Step 0 (noon 2 0), Step 1 (noon 2 0),
       Step 1 (noon 2 0), Step 0 (noon 2 0), Step 0 (noon 2 0)] (quiet demo_manager) = Some c \<and>
    m_handles (c_mgr c) ''s_000001'' = Some h \<and> sqlite_view (m_store (c_mgr c)) ''s_000001'' = None"
proof -
  have st: "healthy (m_store demo_manager)" "valid_time (noon 2 0)" "noon 2 0 \<noteq> zero_time"
    "m_handles demo_manager ''s_000001'' = None" "sqlite_view (m_store demo_manager) ''s_000001'' \<noteq> None"
    by code_simp+
  then obtain r where r: "sqlite_view (m_store demo_manager) ''s_000001'' = Some r" by blast
  have "\<exists>h q'. pm_start (noop_manager []) opts q = (Inr h, q')" for opts q
    by (simp add: noop_manager_def noop_start_def)
  from resume_outlives_delete [OF demo_ok st(1-3) r st(4) this] show ?thesis by blast
qed

end
