(* ===== verification/Introspect.thy ===== *)
theory Introspect
  imports Rpc_Mapper Process Timestamps
begin

text \<open>
  \<open>internal/introspect/introspect.go\<close>: the agent started once at boot to capture the slash commands
  and tools. The process manager is a parameter; the events its subscription delivers before the
  deadline are an argument, the goroutine that watches them is \<open>run_announced\<close>.
\<close>

definition introspect_user_id :: string where "introspect_user_id = ''__zoea_introspect__''"
definition introspect_session_id :: string where "introspect_session_id = ''s_introspect''"
definition introspect_command :: string where "introspect_command = ''/zoea-introspect''"
definition introspect_custom_tag :: string where "introspect_custom_tag = ''zoea-introspect''"

record introspect_config =
  ic_commands :: "json list"
  ic_tools :: "json list"
  ic_captured_at :: go_time

section \<open>The transcript\<close>

record introspect_details =
  id_version :: int
  id_commands :: "json list option"
  id_tools :: "json list option"

record custom_msg =
  cu_role :: string
  cu_custom_type :: string
  cu_details :: introspect_details

definition details_fields :: "(string \<times> introspect_details field_decoder) list" where
  "details_fields =
     [(''version'', field (\<lambda>x s. s\<lparr>id_version := x\<rparr>) id_version dec_int),
      (''commands'', field (\<lambda>x s. s\<lparr>id_commands := x\<rparr>) id_commands dec_raw_list),
      (''tools'', field (\<lambda>x s. s\<lparr>id_tools := x\<rparr>) id_tools dec_raw_list)]"

definition custom_fields :: "(string \<times> custom_msg field_decoder) list" where
  "custom_fields =
     [(''role'', field (\<lambda>x s. s\<lparr>cu_role := x\<rparr>) cu_role dec_string),
      (''customType'', field (\<lambda>x s. s\<lparr>cu_custom_type := x\<rparr>) cu_custom_type dec_string),
      (''details'', field (\<lambda>x s. s\<lparr>cu_details := x\<rparr>) cu_details (decode_struct details_fields))]"

definition decode_custom :: "json \<Rightarrow> custom_msg option" where
  "decode_custom j = decode_struct custom_fields j
     \<lparr>cu_role = [], cu_custom_type = [],
      cu_details = \<lparr>id_version = 0, id_commands = None, id_tools = None\<rparr>\<rparr>"

definition is_introspection :: "custom_msg \<Rightarrow> bool" where
  "is_introspection m \<longleftrightarrow> cu_role m = ''custom'' \<and> cu_custom_type m = introspect_custom_tag"

text \<open>The loop of \<open>parseIntrospectMessage\<close>, on the messages from the last one back. The time is set by
  \<open>Run\<close>.\<close>

fun parse_backwards :: "json list \<Rightarrow> string + (json list \<times> json list)" where
  "parse_backwards [] = Inl ''introspect: no zoea-introspect custom message found in transcript''"
| "parse_backwards (raw # rs) =
     (case decode_custom raw of
        None \<Rightarrow> parse_backwards rs
      | Some m \<Rightarrow>
          if \<not> is_introspection m then parse_backwards rs
          else Inr (case id_commands (cu_details m) of None \<Rightarrow> [] | Some cs \<Rightarrow> cs,
                    case id_tools (cu_details m) of None \<Rightarrow> [] | Some ts \<Rightarrow> ts))"

definition parse_introspect_message :: "json list \<Rightarrow> string + (json list \<times> json list)" where
  "parse_introspect_message messages = parse_backwards (rev messages)"

section \<open>The events\<close>

record probe =
  pb_role :: string
  pb_custom_type :: string

definition decode_probe :: "json \<Rightarrow> probe option" where
  "decode_probe j = decode_struct
     [(''role'', field (\<lambda>x s. s\<lparr>pb_role := x\<rparr>) pb_role dec_string),
      (''customType'', field (\<lambda>x s. s\<lparr>pb_custom_type := x\<rparr>) pb_custom_type dec_string)]
     j \<lparr>pb_role = [], pb_custom_type = []\<rparr>"

text \<open>One iteration of the watching goroutine: does it close \<open>done\<close> on this event?\<close>

definition announces_end :: "event \<Rightarrow> bool" where
  "announces_end ev =
     (if ev_type ev = ''agent.run.end'' then True
      else if ev_type ev \<noteq> ''agent.message.end'' then False
      else
        (case ev_data ev of
           MessageEnd (Some m) \<Rightarrow>
             (case decode_probe m of
                None \<Rightarrow> False
              | Some p \<Rightarrow> pb_role p = ''custom'' \<and> pb_custom_type p = introspect_custom_tag)
         | _ \<Rightarrow> False))"

fun run_announced :: "event list \<Rightarrow> bool" where
  "run_announced [] = False"
| "run_announced (ev # evs) = (if announces_end ev then True else run_announced evs)"

section \<open>Run\<close>

text \<open>The two deferred calls, in the order in which they run.\<close>

definition release :: "('h, 'p) process_manager \<Rightarrow> 'h \<Rightarrow> 64 word \<Rightarrow> 'p \<Rightarrow> 'p" where
  "release pm h sub p = snd (ah_close pm h (ah_unsubscribe pm h sub p))"

definition introspect_run ::
  "('h, 'p) process_manager \<Rightarrow> string \<Rightarrow> event list \<Rightarrow> string \<Rightarrow> go_time \<Rightarrow> 'p \<Rightarrow>
   (string + introspect_config) \<times> 'p" where
  "introspect_run pm working_dir evs ctx_err now p0 =
     (case pm_start pm \<lparr>so_session_id = introspect_session_id, so_user_id = introspect_user_id,
          so_project_id = [], so_working_dir = working_dir\<rparr> p0 of
        (Inl e, p) \<Rightarrow> (Inl (''start introspect agent: '' @ e), p)
      | (Inr h, p) \<Rightarrow>
          (case ah_subscribe pm h p of
             ((sub, ch), p) \<Rightarrow>
               (case ah_prompt pm h \<lparr>pr_message = introspect_command, pr_streaming_behavior = []\<rparr> p of
                  (Inl e, p) \<Rightarrow> (Inl (''send introspect prompt: '' @ e), release pm h sub p)
                | (Inr u, p) \<Rightarrow>
                    if \<not> run_announced evs then (Inl ctx_err, release pm h sub p)
                    else
                      (case ah_get_messages_raw pm h p of
                         (Inl e, p) \<Rightarrow> (Inl (''read introspect messages: '' @ e), release pm h sub p)
                       | (Inr raw, p) \<Rightarrow>
                           (case parse_introspect_message (case raw of None \<Rightarrow> [] | Some ms \<Rightarrow> ms) of
                              Inl e \<Rightarrow> (Inl e, release pm h sub p)
                            | Inr (cs, ts) \<Rightarrow>
                                (Inr \<lparr>ic_commands = cs, ic_tools = ts, ic_captured_at = now\<rparr>,
                                 release pm h sub p))))))"

section \<open>Facts\<close>

definition introspection_of :: "json \<Rightarrow> (json list \<times> json list) option" where
  "introspection_of raw =
     (case decode_custom raw of
        None \<Rightarrow> None
      | Some m \<Rightarrow>
          if is_introspection m then
            Some (case id_commands (cu_details m) of None \<Rightarrow> [] | Some cs \<Rightarrow> cs,
                  case id_tools (cu_details m) of None \<Rightarrow> [] | Some ts \<Rightarrow> ts)
          else None)"

lemma parse_backwards_skip:
  "list_all (\<lambda>m. introspection_of m = None) ms \<Longrightarrow> parse_backwards (ms @ rest) = parse_backwards rest"
  by (induction ms) (auto simp: introspection_of_def split: option.splits if_splits)

lemma parse_backwards_hit:
  "introspection_of m = Some r \<Longrightarrow> parse_backwards (m # rest) = Inr r"
  by (auto simp: introspection_of_def split: option.splits if_splits)

text \<open>The last introspection message of a transcript wins, whatever precedes it; later messages that
  are not introspections, or do not decode, are passed over.\<close>

lemma parse_last_introspection:
  assumes "introspection_of m = Some r" "list_all (\<lambda>m. introspection_of m = None) later"
  shows "parse_introspect_message (earlier @ m # later) = Inr r"
  using assms
  by (simp add: parse_introspect_message_def parse_backwards_skip parse_backwards_hit list_all_rev
      del: parse_backwards.simps)

lemma parse_without_introspection:
  "list_all (\<lambda>m. introspection_of m = None) ms \<Longrightarrow> \<exists>e. parse_introspect_message ms = Inl e"
  using parse_backwards_skip [of "rev ms" "[]"] by (simp add: parse_introspect_message_def list_all_rev)

lemma run_announced_iff: "run_announced evs \<longleftrightarrow> list_ex announces_end evs"
  by (induction evs) auto

text \<open>C32: \<open>parseIntrospectMessage\<close> returns the commands and tools of the last introspection message of the
  transcript, and an error exactly when there is none.\<close>

theorem parse_introspect_result:
  "parse_introspect_message ms =
     (case List.map_filter introspection_of (rev ms) of
        [] \<Rightarrow> Inl ''introspect: no zoea-introspect custom message found in transcript''
      | r # rs \<Rightarrow> Inr r)"
proof -
  have "parse_backwards xs =
      (case List.map_filter introspection_of xs of
         [] \<Rightarrow> Inl ''introspect: no zoea-introspect custom message found in transcript''
       | r # rs \<Rightarrow> Inr r)" for xs
    by (induction xs) (auto simp: introspection_of_def List.map_filter_simps split: option.splits)
  then show ?thesis by (simp add: parse_introspect_message_def)
qed

text \<open>The agent's own line for the custom message: the mapper turns it into an event that ends the
  wait, and the message in the transcript is the one that is read.\<close>

definition introspection_message :: "json list \<Rightarrow> json list \<Rightarrow> json" where
  "introspection_message cs ts =
     JObj [(''role'', JStr ''custom''), (''customType'', JStr introspect_custom_tag),
           (''details'', JObj [(''version'', JNum ''1''), (''commands'', JArr cs), (''tools'', JArr ts)])]"

definition message_end_line :: "json \<Rightarrow> json" where
  "message_end_line m = JObj [(''type'', JStr ''message_end''), (''message'', m)]"

lemma introspection_keys:
  "fold_key ''role'' = ''role''" "fold_key ''customType'' = ''customtype''"
  "fold_key ''details'' = ''details''" "fold_key ''type'' = ''type''" "fold_key ''message'' = ''message''"
  "fold_key ''version'' = ''version''" "fold_key ''commands'' = ''commands''" "fold_key ''tools'' = ''tools''"
  by code_simp+

lemma introspection_message_decodes:
  "introspection_of (introspection_message cs ts) = Some (cs, ts)"
proof -
  have "int64_lit ''1'' = Some 1" by code_simp
  then have "decode_custom (introspection_message cs ts) =
      Some \<lparr>cu_role = ''custom'', cu_custom_type = introspect_custom_tag,
        cu_details = \<lparr>id_version = 1, id_commands = Some cs, id_tools = Some ts\<rparr>\<rparr>"
    by (simp add: decode_custom_def introspection_message_def custom_fields_def details_fields_def
        decode_struct_def lookup_field_def field_def
        introspect_custom_tag_def introspection_keys)
  then show ?thesis by (simp add: introspection_of_def is_introspection_def)
qed

lemma introspection_message_probe:
  "decode_probe (introspection_message cs ts) =
     Some \<lparr>pb_role = ''custom'', pb_custom_type = introspect_custom_tag\<rparr>"
  by (simp add: decode_probe_def introspection_message_def decode_struct_def lookup_field_def field_def
      introspect_custom_tag_def introspection_keys)

lemma message_end_value:
  "map_rpc_value now (message_end_line m) = [new_event now ''agent.message.end'' (MessageEnd (Some m))]"
proof -
  have "decode_rpc_event (message_end_line m) = Some \<lparr>re_type = ''message_end''\<rparr>"
    by (simp add: decode_rpc_event_def message_end_line_def decode_struct_def lookup_field_def
        rpc_event_fields_def field_def introspection_keys)
  moreover have "map_message_end now (message_end_line m) =
      [new_event now ''agent.message.end'' (MessageEnd (Some m))]"
    by (simp add: map_message_end_def decode_message_env_def message_end_line_def decode_struct_def
        lookup_field_def field_def introspection_keys one_def dec_raw_def)
  ultimately show ?thesis by (simp add: map_rpc_value_def)
qed

lemma probe_announces:
  "decode_probe m = Some \<lparr>pb_role = ''custom'', pb_custom_type = introspect_custom_tag\<rparr> \<Longrightarrow>
   announces_end (new_event now ''agent.message.end'' (MessageEnd (Some m)))"
  by (simp add: announces_end_def new_event_def)

text \<open>C33: The pieces fit: the line an agent writes when the introspection command ends is mapped to an event
  on which the wait ends, and reading the transcript that ends with that message gives exactly the
  commands and tools the agent listed, whatever older transcript the session carries.\<close>

theorem introspection_recognised:
  assumes "json_ok (message_end_line (introspection_message cs ts))"
    "json_depth (message_end_line (introspection_message cs ts)) \<le> max_depth"
  shows "run_announced (map_rpc_line now (json_print (message_end_line (introspection_message cs ts)))) \<and>
    parse_introspect_message (earlier @ [introspection_message cs ts]) = Inr (cs, ts)"
proof
  show "parse_introspect_message (earlier @ [introspection_message cs ts]) = Inr (cs, ts)"
    using parse_last_introspection [OF introspection_message_decodes, of "[]"] by simp
  show "run_announced (map_rpc_line now (json_print (message_end_line (introspection_message cs ts))))"
    using assms probe_announces [OF introspection_message_probe]
    by (simp add: map_rpc_line_print message_end_value del: One_nat_def)
qed

theorem introspection_recognised_witness:
  "run_announced (map_rpc_line [] (json_print (message_end_line (introspection_message [JStr ''/help''] [])))) \<and>
    parse_introspect_message ([JNull] @ [introspection_message [JStr ''/help''] []]) = Inr ([JStr ''/help''], [])"
proof (rule introspection_recognised)
  show "json_ok (message_end_line (introspection_message [JStr ''/help''] []))" by code_simp
  show "json_depth (message_end_line (introspection_message [JStr ''/help''] [])) \<le> max_depth" by code_simp
qed

text \<open>Whatever happens after the agent was started, \<open>Run\<close> ends by unsubscribing and closing it, and a
  configuration is only returned when the transcript holds an introspection message.\<close>

lemma introspect_releases_agent:
  assumes "pm_start pm \<lparr>so_session_id = introspect_session_id, so_user_id = introspect_user_id,
      so_project_id = [], so_working_dir = wd\<rparr> p0 = (Inr h, p1)"
    "introspect_run pm wd evs ctx_err now p0 = (res, p)"
  shows "\<exists>q. p = release pm h (fst (fst (ah_subscribe pm h p1))) q"
  using assms by (auto simp: introspect_run_def split: prod.splits sum.splits if_splits)

end
