(* ===== verification/Api_Common.thy ===== *)
theory Api_Common
  imports Auth Json_Text
begin

text \<open>
  \<open>internal/api/handler.go\<close>, the helpers every endpoint uses. \<open>writeJSON\<close> is \<open>json_response\<close> of Http.
\<close>

definition method_not_allowed :: response where
  "method_not_allowed = error_response 405 ''method not allowed''"

text \<open>\<open>requireScope\<close>: the response it has written, if the scope is missing.\<close>

definition require_scope :: "request \<Rightarrow> string \<Rightarrow> response option" where
  "require_scope r scope =
     (if \<not> has_scope (from_context r) scope then Some (error_response 403 ''insufficient scope'') else None)"

text \<open>\<open>decodeJSON\<close>: the first JSON value of the body, unknown members refused; \<open>None\<close> when it has
  answered \<open>bad_body\<close>.\<close>

definition bad_body :: response where
  "bad_body = error_response 400 ''invalid JSON body''"

definition decode_body :: "(string \<times> 's field_decoder) list \<Rightarrow> 's \<Rightarrow> request \<Rightarrow> 's option" where
  "decode_body fs zero r =
     (case json_decode_first (r_body r) of
        None \<Rightarrow> None
      | Some j \<Rightarrow> if \<not> known_members fs j then None else decode_struct fs j zero)"

text \<open>\<open>http.NotFound\<close>.\<close>

definition http_not_found :: response where
  "http_not_found =
     \<lparr>rs_status = 404,
      rs_headers = [(''Content-Type'', ''text/plain; charset=utf-8''), (''X-Content-Type-Options'', ''nosniff'')],
      rs_body = RawBody (''404 page not found'' @ [CHR 0x0A])\<rparr>"

lemma require_scope_None [simp]: "require_scope r scope = None \<longleftrightarrow> has_scope (from_context r) scope"
  by (simp add: require_scope_def)

lemma require_scope_Some:
  "require_scope r scope = Some resp \<longleftrightarrow>
     \<not> has_scope (from_context r) scope \<and> resp = error_response 403 ''insufficient scope''"
  by (auto simp: require_scope_def)

lemma common_status [simp]:
  "rs_status method_not_allowed = 405" "rs_status bad_body = 400" "rs_status http_not_found = 404"
  by (simp_all add: method_not_allowed_def bad_body_def http_not_found_def)

end
