(* ===== verification/Artifacts.thy ===== *)
theory Artifacts
  imports Api_Common Filepath
begin

text \<open>
  \<open>internal/api/artifacts.go\<close>. The file system and the environment variable are a record of
  functions; paths are those of Unix, so \<open>FromSlash\<close> and \<open>ToSlash\<close> are the identity. The path
  arguments are what \<open>r.URL.Path\<close> holds, that is, percent-decoded once by \<open>net/http\<close>.
\<close>

datatype open_error = Not_Exist | Open_Failed

record artifact_env =
  ae_output_dir :: string
  ae_eval_symlinks :: "string \<Rightarrow> string option"
  ae_stat_is_dir :: "string \<Rightarrow> bool option"
  ae_open :: "string \<Rightarrow> open_error + string"
  ae_fstat_size :: "string \<Rightarrow> nat option"

section \<open>Paths\<close>

definition resolve_output_dir :: "artifact_env \<Rightarrow> string \<Rightarrow> string" where
  "resolve_output_dir env working_dir =
     (let raw = (if trim_space (ae_output_dir env) = [] then ''.zoea/output'' else ae_output_dir env) in
        if is_abs raw then clean_path raw
        else if working_dir = [] then []
        else clean_path (join_path [working_dir, raw]))"

definition artifacts_root :: "string \<Rightarrow> string \<Rightarrow> string" where
  "artifacts_root output_dir run_id = join_path [output_dir, run_id, ''artifacts'']"

definition resolve_artifact_path :: "artifact_env \<Rightarrow> string \<Rightarrow> string \<Rightarrow> string \<Rightarrow> string option" where
  "resolve_artifact_path env output_dir run_id name =
     (if output_dir = [] \<or> run_id = [] \<or> name = [] then None
      else if CHR ''/'' \<in> set run_id \<or> CHR 0x5C \<in> set run_id \<or> run_id = ''..'' then None
      else
        (case ae_eval_symlinks env (artifacts_root output_dir run_id) of
           None \<Rightarrow> None
         | Some resolved_root \<Rightarrow>
             (case ae_eval_symlinks env (join_path [artifacts_root output_dir run_id, name]) of
                None \<Rightarrow> None
              | Some resolved \<Rightarrow>
                  if resolved \<noteq> resolved_root \<and> \<not> has_prefix resolved (resolved_root @ ''/'') then None
                  else
                    (case ae_stat_is_dir env resolved of
                       None \<Rightarrow> None
                     | Some is_dir \<Rightarrow> if is_dir then None else Some resolved))))"

text \<open>\<open>url.PathUnescape\<close>.\<close>

fun path_unescape :: "string \<Rightarrow> string option" where
  "path_unescape [] = Some []"
| "path_unescape (c # cs) =
     (if c \<noteq> CHR ''%'' then map_option (\<lambda>s. c # s) (path_unescape cs)
      else
        (case cs of
           x # y # rest \<Rightarrow>
             (case (hex_digit_val x, hex_digit_val y) of
                (Some a, Some b) \<Rightarrow> map_option (\<lambda>s. char_of (16 * a + b) # s) (path_unescape rest)
              | _ \<Rightarrow> None)
         | _ \<Rightarrow> None))"

section \<open>The results file\<close>

text \<open>\<open>bufio.Scanner\<close> with \<open>ScanLines\<close>: the lines without \<open>\n\<close> and one \<open>\r\<close>; it stops for good at a
  line that does not fit its buffer of 4 MiB.\<close>

definition line_limit :: nat where "line_limit = 4 * 1024 * 1024"

definition raw_lines :: "string \<Rightarrow> string list" where
  "raw_lines content =
     (let ls = split_on (CHR 0x0A) content in if last ls = [] then butlast ls else ls)"

definition scan_lines :: "string \<Rightarrow> string list" where
  "scan_lines content =
     map (\<lambda>l. trim_suffix l [CHR 0x0D]) (takeWhile (\<lambda>l. length l < line_limit) (raw_lines content))"

record artifact_entry =
  ar_relative_path :: string
  ar_media_type :: string

definition artifact_fields :: "(string \<times> artifact_entry field_decoder) list" where
  "artifact_fields =
     [(''relative_path'', field (\<lambda>x s. s\<lparr>ar_relative_path := x\<rparr>) ar_relative_path dec_string),
      (''media_type'', field (\<lambda>x s. s\<lparr>ar_media_type := x\<rparr>) ar_media_type dec_string)]"

fun dec_artifact_list :: "json list \<Rightarrow> artifact_entry list option" where
  "dec_artifact_list [] = Some []"
| "dec_artifact_list (j # js) =
     (case decode_struct artifact_fields j \<lparr>ar_relative_path = [], ar_media_type = []\<rparr> of
        None \<Rightarrow> None
      | Some a \<Rightarrow> map_option (\<lambda>as. a # as) (dec_artifact_list js))"

fun dec_artifacts :: "json \<Rightarrow> artifact_entry list \<Rightarrow> artifact_entry list option" where
  "dec_artifacts JNull old = Some []"
| "dec_artifacts (JArr js) old = dec_artifact_list js"
| "dec_artifacts _ old = None"

definition decode_record :: "string \<Rightarrow> artifact_entry list option" where
  "decode_record line =
     Option.bind (json_parse line) (\<lambda>j. decode_struct [(''artifacts'', dec_artifacts)] j [])"

fun find_media_type :: "string \<Rightarrow> string list \<Rightarrow> string" where
  "find_media_type target [] = []"
| "find_media_type target (line # ls) =
     (case decode_record line of
        None \<Rightarrow> find_media_type target ls
      | Some as \<Rightarrow>
          (case find (\<lambda>a. ar_relative_path a = target) as of
             None \<Rightarrow> find_media_type target ls
           | Some a \<Rightarrow> ar_media_type a))"

definition lookup_artifact_media_type :: "artifact_env \<Rightarrow> string \<Rightarrow> string \<Rightarrow> string \<Rightarrow> string" where
  "lookup_artifact_media_type env output_dir run_id name =
     (case ae_open env (join_path [output_dir, run_id, ''results.jsonl'']) of
        Inl e \<Rightarrow> []
      | Inr content \<Rightarrow> find_media_type (run_id @ ''/artifacts/'' @ name) (scan_lines content))"

section \<open>Endpoints\<close>

definition artifact_not_found :: response where
  "artifact_not_found = error_response 404 ''artifact_not_found''"

text \<open>The body of the summary is encoded after the status is written; a line that is not JSON makes the
  encoding fail, which is ignored, and no body is written.\<close>

definition summary_response :: "string \<Rightarrow> string list \<Rightarrow> response" where
  "summary_response run_id results =
     (case those (map json_parse results) of
        None \<Rightarrow> \<lparr>rs_status = 200, rs_headers = [(''Content-Type'', ''application/json'')], rs_body = NoBody\<rparr>
      | Some vs \<Rightarrow> json_response 200 (json_map [(''run_id'', JStr run_id), (''results'', JArr vs)]))"

definition serve_run_summary :: "artifact_env \<Rightarrow> string \<Rightarrow> string \<Rightarrow> response" where
  "serve_run_summary env output_dir run_id =
     (case ae_open env (join_path [output_dir, run_id, ''results.jsonl'']) of
        Inl Not_Exist \<Rightarrow> artifact_not_found
      | Inl Open_Failed \<Rightarrow> error_response 500 ''results_unreadable''
      | Inr content \<Rightarrow>
          summary_response run_id (filter (\<lambda>l. trim_space l \<noteq> []) (scan_lines content)))"

definition serve_bytes :: "artifact_env \<Rightarrow> string \<Rightarrow> string \<Rightarrow> string \<Rightarrow> response" where
  "serve_bytes env output_dir run_id name =
     (case resolve_artifact_path env output_dir run_id name of
        None \<Rightarrow> artifact_not_found
      | Some path \<Rightarrow>
          (case ae_open env path of
             Inl e \<Rightarrow> artifact_not_found
           | Inr content \<Rightarrow>
               (case ae_fstat_size env path of
                  None \<Rightarrow> error_response 500 ''stat_failed''
                | Some sz \<Rightarrow>
                    (let media = lookup_artifact_media_type env output_dir run_id name in
                     \<lparr>rs_status = 200,
                      rs_headers =
                        [(''Content-Type'', if media = [] then ''application/octet-stream'' else media),
                         (''Content-Length'', fmt_nat sz),
                         (''Content-Disposition'',
                            (if media = [] then ''attachment'' else ''inline'') @ ''; filename='' @ [CHR 0x22] @
                            base_path name @ [CHR 0x22])],
                      rs_body = RawBody content\<rparr>))))"

definition handle_artifact_request :: "artifact_env \<Rightarrow> string \<Rightarrow> string \<Rightarrow> request \<Rightarrow> response" where
  "handle_artifact_request env working_dir tail0 r =
     (if r_method r \<noteq> ''GET'' then method_not_allowed
      else (case require_scope r ''sessions.read'' of
        Some resp \<Rightarrow> resp
      | None \<Rightarrow>
          (let rest = trim_cut tail0 ''/''; parts = split_n (CHR ''/'') 2 rest in
             if rest = [] then artifact_not_found
             else
               (case path_unescape (hd parts) of
                  None \<Rightarrow> artifact_not_found
                | Some run_id \<Rightarrow>
                    if run_id = [] \<or> CHR ''/'' \<in> set run_id \<or> run_id = ''..'' then artifact_not_found
                    else
                      (let output_dir = resolve_output_dir env working_dir in
                         if output_dir = [] then artifact_not_found
                         else if length parts = 1 then serve_run_summary env output_dir run_id
                         else
                           (case path_unescape (parts ! 1) of
                              None \<Rightarrow> artifact_not_found
                            | Some name \<Rightarrow>
                                if name = [] then artifact_not_found
                                else serve_bytes env output_dir run_id name))))))"

section \<open>Containment\<close>

lemma resolve_artifact_path_Some:
  assumes "resolve_artifact_path env out run name = Some p"
  obtains root where "ae_eval_symlinks env (artifacts_root out run) = Some root" "inside root p"
    "ae_stat_is_dir env p = Some False" "CHR ''/'' \<notin> set run" "run \<noteq> ''..''" "run \<noteq> []"
  using assms by (auto simp: resolve_artifact_path_def inside_def split: if_splits option.splits)

lemma clean_path_abs:
  assumes "is_abs (clean_path p)"
  shows "is_abs p"
proof (rule ccontr)
  assume "\<not> is_abs p"
  then obtain cs where cs: "clean_path p = (if cs = [] then ''.'' else join ''/'' cs)" "rel_stack cs"
    using clean_path_rel [of p "[]"] by blast
  show False
  proof (cases cs)
    case Nil
    then show ?thesis using assms cs by (simp add: is_abs_iff)
  next
    case (Cons c rest)
    then have "\<not> is_abs c" "c \<noteq> []" using cs(2) by (auto simp: rel_stack_def is_abs_iff normal_comp_def)
    then show ?thesis using assms cs(1) Cons not_abs_join by simp
  qed
qed

lemma resolve_output_dir_clean:
  assumes "is_abs (resolve_output_dir env wd)"
  shows "clean_path (resolve_output_dir env wd) = resolve_output_dir env wd"
proof -
  have "resolve_output_dir env wd \<noteq> []" using assms by (auto simp: is_abs_iff)
  then obtain x where "resolve_output_dir env wd = clean_path x"
    by (auto simp: resolve_output_dir_def Let_def split: if_splits)
  then show ?thesis using assms clean_path_abs clean_path_abs_idem by metis
qed

lemma artifacts_root_inside:
  assumes "is_abs out" "clean_path out = out" "out \<noteq> ''/''" "CHR ''/'' \<notin> set run" "run \<noteq> ''..''"
  shows "inside out (artifacts_root out run)"
proof -
  obtain ds where ds: "out = root_path ds" "list_all normal_comp ds"
    using clean_abs_normal [OF assms(1)] assms(2) by metis
  have "ds \<noteq> []" using assms(3) ds(1) by (auto simp: root_path_def)
  have "normal_comp ''artifacts''" by (simp add: normal_comp_def)
  moreover have "split_on (CHR ''/'') run = [run]" "split_on (CHR ''/'') ''artifacts'' = [''artifacts'']"
    using assms(4) by (simp_all add: split_on_id)
  moreover have "run = [] \<or> run = ''.'' \<or> normal_comp run"
    using assms(4,5) by (auto simp: normal_comp_def)
  ultimately have "artifacts_root out run = root_path (ds @ (if run = [] \<or> run = ''.'' then [] else [run]) @ [''artifacts''])"
    unfolding artifacts_root_def ds(1) join_path_root [OF ds(2)]
    by (auto simp: clean_push_def normal_comp_def)
  then show ?thesis
    using inside_root_path [OF \<open>ds \<noteq> []\<close>] ds(1) by simp
qed

lemma artifact_bytes_cases:
  assumes "rs_status (handle_artifact_request env wd rest r) = 200"
    "rs_body (handle_artifact_request env wd rest r) = RawBody content"
  obtains run name where "has_scope (from_context r) ''sessions.read''"
    "rs_status (serve_bytes env (resolve_output_dir env wd) run name) = 200"
    "rs_body (serve_bytes env (resolve_output_dir env wd) run name) = RawBody content"
  using assms
  by (auto simp: handle_artifact_request_def Let_def artifact_not_found_def error_response_def
      json_response_def require_scope_Some serve_run_summary_def summary_response_def method_not_allowed_def
      split: if_splits option.splits sum.splits open_error.splits)

text \<open>C12: No file is served from outside its run's artifacts: the bytes of a file (a raw body; the summary
  is built as JSON) are only sent for a reader of sessions, they are the content of something that is not
  a directory, and that, with all symbolic links resolved, lies in the symlink-free artifacts directory of
  one run below the output directory. The file system is one and the same throughout the request.\<close>

theorem artifact_contained:
  assumes "is_abs (resolve_output_dir env wd)" "resolve_output_dir env wd \<noteq> ''/''"
    "rs_status (handle_artifact_request env wd rest r) = 200"
    "rs_body (handle_artifact_request env wd rest r) = RawBody content"
  shows "\<exists>run root path. inside (resolve_output_dir env wd) (artifacts_root (resolve_output_dir env wd) run) \<and>
    ae_eval_symlinks env (artifacts_root (resolve_output_dir env wd) run) = Some root \<and> inside root path \<and>
    ae_stat_is_dir env path = Some False \<and> ae_open env path = Inr content \<and>
    has_scope (from_context r) ''sessions.read''"
proof -
  obtain run name where b: "has_scope (from_context r) ''sessions.read''"
    "rs_status (serve_bytes env (resolve_output_dir env wd) run name) = 200"
    "rs_body (serve_bytes env (resolve_output_dir env wd) run name) = RawBody content"
    using artifact_bytes_cases [OF assms(3,4)] .
  obtain path where p: "resolve_artifact_path env (resolve_output_dir env wd) run name = Some path"
    "ae_open env path = Inr content"
    using b(2,3) by (auto simp: serve_bytes_def artifact_not_found_def Let_def split: option.splits sum.splits)
  show ?thesis
    by (rule resolve_artifact_path_Some [OF p(1)])
      (use p(2) b(1) artifacts_root_inside [OF assms(1) resolve_output_dir_clean [OF assms(1)] assms(2)] in blast)
qed

text \<open>A sample file system without symbolic links.\<close>

definition sample_artifacts :: artifact_env where
  "sample_artifacts =
     \<lparr>ae_output_dir = [], ae_eval_symlinks = Some,
      ae_stat_is_dir = (\<lambda>p. if p = ''/w/.zoea/output/run-1/artifacts/a.md'' then Some False else None),
      ae_open = (\<lambda>p. if p = ''/w/.zoea/output/run-1/artifacts/a.md'' then Inr ''# hello'' else Inl Not_Exist),
      ae_fstat_size = (\<lambda>p. Some 7)\<rparr>"

definition reader_request :: request where
  "reader_request =
     \<lparr>r_method = ''GET'', r_path = [], r_headers = [], r_query = [], r_remote_addr = [], r_body = [],
      r_ctx = Some \<lparr>id_method = ''api-key'', id_subject = ''u'', id_scopes = [''sessions.read'']\<rparr>\<rparr>"

theorem artifact_contained_witness:
  "\<exists>run root path. inside (resolve_output_dir sample_artifacts ''/w'') (artifacts_root (resolve_output_dir sample_artifacts ''/w'') run) \<and>
    ae_eval_symlinks sample_artifacts (artifacts_root (resolve_output_dir sample_artifacts ''/w'') run) = Some root \<and>
    inside root path \<and> ae_stat_is_dir sample_artifacts path = Some False \<and>
    ae_open sample_artifacts path = Inr ''# hello'' \<and> has_scope (from_context reader_request) ''sessions.read''"
proof (rule artifact_contained [where rest = "''run-1/a.md''"])
  show "is_abs (resolve_output_dir sample_artifacts ''/w'')" by code_simp
  show "resolve_output_dir sample_artifacts ''/w'' \<noteq> ''/''" by code_simp
  show "rs_status (handle_artifact_request sample_artifacts ''/w'' ''run-1/a.md'' reader_request) = 200" by code_simp
  show "rs_body (handle_artifact_request sample_artifacts ''/w'' ''run-1/a.md'' reader_request) = RawBody ''# hello''"
    by code_simp
qed

section \<open>Divergences\<close>

text \<open>The path is decoded a second time, so an artifact whose name has a percent sign that does not
  start an escape is never served, however the client encodes the request.\<close>

theorem percent_name_not_served:
  assumes "path_unescape name = None" "trim_cut (run @ ''/'' @ name) ''/'' = run @ ''/'' @ name"
    "CHR ''/'' \<notin> set run"
  shows "rs_status (handle_artifact_request env wd (run @ ''/'' @ name) r) \<noteq> 200"
proof -
  have "split_n (CHR ''/'') 2 (run @ ''/'' @ name) = [run, name]"
    using assms(3) by (simp add: numeral_2_eq_2 takeWhile_append dropWhile_append)
  then show ?thesis
    using assms(1,2)
    by (simp add: handle_artifact_request_def artifact_not_found_def Let_def require_scope_def
        split: option.split)
qed

theorem percent_name_not_served_witness:
  "rs_status (handle_artifact_request sample_artifacts ''/w'' (''run-1'' @ ''/'' @ ''100%.png'') reader_request) \<noteq> 200"
proof (rule percent_name_not_served)
  show "path_unescape ''100%.png'' = None" by code_simp
  show "trim_cut (''run-1'' @ ''/'' @ ''100%.png'') ''/'' = ''run-1'' @ ''/'' @ ''100%.png''" by code_simp
  show "CHR ''/'' \<notin> set ''run-1''" by simp
qed

text \<open>C40: The run summary is the list of all its results or nothing at all: if every non-blank line is JSON
  it holds them in order, and a single line that is not (a record still being written) leaves a
  \<open>200\<close> response without a body.\<close>

theorem summary_all_or_nothing:
  assumes "ae_open env (join_path [out, run, ''results.jsonl'']) = Inr content"
    "js = map json_parse (filter (\<lambda>l. trim_space l \<noteq> []) (scan_lines content))"
  shows "rs_status (serve_run_summary env out run) = 200 \<and>
    rs_body (serve_run_summary env out run) =
      (if None \<in> set js then NoBody
       else JsonBody (json_map [(''run_id'', JStr run), (''results'', JArr (map the js))]))"
proof -
  have those: "those xs = (if None \<in> set xs then None else Some (map the xs))" for xs :: "'x option list"
    by (induction xs) (auto split: option.splits)
  show ?thesis
    using assms(1) unfolding assms(2)
    by (simp add: serve_run_summary_def summary_response_def those json_response_def)
qed

definition half_written :: artifact_env where
  "half_written = sample_artifacts\<lparr>ae_open := (\<lambda>p. Inr (''{}'' @ [CHR 0x0A] @ ''{''))\<rparr>"

theorem summary_all_or_nothing_witness:
  "rs_status (serve_run_summary half_written ''/w'' ''r'') = 200 \<and>
   rs_body (serve_run_summary half_written ''/w'' ''r'') = NoBody"
proof -
  let ?js = "map json_parse (filter (\<lambda>l. trim_space l \<noteq> []) (scan_lines (''{}'' @ [CHR 0x0A] @ ''{'')))"
  have "None \<in> set ?js" by code_simp
  then show ?thesis
    using summary_all_or_nothing [of half_written "''/w''" "''r''" "''{}'' @ [CHR 0x0A] @ ''{''" ?js]
    by (simp add: half_written_def del: set_map)
qed

end
