(* ===== verification/Api_Handler.thy ===== *)
theory Api_Handler
  imports Artifacts Introspect Session_Manager
begin

text \<open>
  \<open>internal/api/handler.go\<close>: the routes and their handlers, as transformers of the session manager's
  state. The record \<open>api\<close> holds what a \<open>Handler\<close> reaches: the store and process manager behind its
  session manager, the boot-time configuration, the file system, and the WebSocket upgrade of the
  third-party package, which fails with a response or succeeds, with what then happens on the
  connection. Request paths are canonical:
  \<open>ServeMux\<close> redirects others before a handler runs.
\<close>

text \<open>What happens on an upgraded connection, in order: a JSON frame from the client (only an object or
  \<open>null\<close> decodes into the map), the end of its frames, an event or the end of the subscription
  (with the outcome of the write), a tick of the ping timer, the end of the request.\<close>

datatype stream_input =
    Client_Json json
  | Client_Gone
  | Agent_Event event bool
  | Agent_Closed
  | Ping_Tick
  | Request_Done

record ('h, 'w, 'p) api =
  api_store :: "'w store_ops"
  api_procs :: "('h, 'p) process_manager"
  api_working_dir :: string
  api_config :: "introspect_config option"
  api_files :: artifact_env
  api_upgrade :: "request \<Rightarrow> response option"
  api_stream :: "request \<Rightarrow> stream_input list"

section \<open>Server endpoints\<close>

definition handle_config :: "('h, 'w, 'p) api \<Rightarrow> request \<Rightarrow> response" where
  "handle_config api r =
     (if r_method r \<noteq> ''GET'' then method_not_allowed
      else (case api_config api of
        None \<Rightarrow>
          json_response 200 (json_map [(''available'', JBool False), (''commands'', JArr []), (''tools'', JArr [])])
      | Some c \<Rightarrow>
          json_response 200 (json_map
            [(''available'', JBool True), (''captured_at'', JStr (fmt_rfc3339_nano (ic_captured_at c))),
             (''commands'', JArr (ic_commands c)), (''tools'', JArr (ic_tools c))])))"

definition handle_server_info :: "('h, 'w, 'p) api \<Rightarrow> request \<Rightarrow> response" where
  "handle_server_info api r =
     (if r_method r \<noteq> ''GET'' then method_not_allowed
      else json_response 200 (json_map [(''ZOEA_WORKING_DIR'', JStr (api_working_dir api))]))"

definition handle_health :: response where
  "handle_health = json_response 200 (json_map [(''ok'', JBool True)])"

section \<open>Errors\<close>

fun store_error_text :: "store_error \<Rightarrow> string" where
  "store_error_text Store_Not_Found = ''store: not found''"
| "store_error_text Store_Conflict = ''store: conflict''"
| "store_error_text (Store_Failed msg) = msg"

fun mgr_error_text :: "mgr_error \<Rightarrow> string" where
  "mgr_error_text Mgr_Not_Found = ''session not found''"
| "mgr_error_text (Mgr_Store e) = store_error_text e"
| "mgr_error_text (Mgr_Process msg) = msg"

definition internal_error :: "mgr_error \<Rightarrow> response" where
  "internal_error e = error_response 500 (mgr_error_text e)"

definition write_session_err :: "mgr_error \<Rightarrow> response" where
  "write_session_err e =
     (if e = Mgr_Not_Found then error_response 404 ''session not found'' else internal_error e)"

section \<open>The collection of sessions\<close>

record create_body =
  cb_user_id :: string
  cb_project_id :: string
  cb_external_id :: string
  cb_working_dir :: string

definition create_fields :: "(string \<times> create_body field_decoder) list" where
  "create_fields =
     [(''user_id'', field (\<lambda>x s. s\<lparr>cb_user_id := x\<rparr>) cb_user_id dec_string),
      (''project_id'', field (\<lambda>x s. s\<lparr>cb_project_id := x\<rparr>) cb_project_id dec_string),
      (''external_id'', field (\<lambda>x s. s\<lparr>cb_external_id := x\<rparr>) cb_external_id dec_string),
      (''working_dir'', field (\<lambda>x s. s\<lparr>cb_working_dir := x\<rparr>) cb_working_dir dec_string)]"

definition handle_create_session ::
  "('h, 'w, 'p) api \<Rightarrow> go_time \<Rightarrow> ('h, 'w, 'p) manager handler" where
  "handle_create_session api now r m0 =
     (case require_scope r ''sessions.write'' of
        Some resp \<Rightarrow> (resp, m0)
      | None \<Rightarrow>
          (case decode_body create_fields
             \<lparr>cb_user_id = [], cb_project_id = [], cb_external_id = [], cb_working_dir = []\<rparr> r of
             None \<Rightarrow> (bad_body, m0)
           | Some req \<Rightarrow>
               if trim_space (cb_user_id req) = [] then (error_response 400 ''user_id is required'', m0)
               else
                 (case manager_create (api_store api) (api_procs api) now (cb_user_id req)
                    (cb_project_id req) (cb_external_id req) (cb_working_dir req) m0 of
                    (Inl e, m) \<Rightarrow>
                      (if e = Mgr_Store Store_Conflict then error_response 409 ''external_id already exists''
                       else internal_error e, m)
                  | (Inr s, m) \<Rightarrow>
                      (json_response 201 (json_map [(''session_id'', JStr (se_id s)), (''status'', JStr ''ready'')]),
                       m))))"

text \<open>\<open>sessionEntry\<close>.\<close>

definition session_entry :: "session_record \<Rightarrow> json" where
  "session_entry s =
     JObj ([jstr ''session_id'' (s_id s), jstr ''user_id'' (s_user_id s)] @
       omit_if (s_project_id s = []) ''project_id'' (JStr (s_project_id s)) @
       omit_if (s_external_id s = []) ''external_id'' (JStr (s_external_id s)) @
       omit_if (s_working_dir s = []) ''working_dir'' (JStr (s_working_dir s)) @
       [jstr ''status'' (s_status s), jstr ''created_at'' (fmt_rfc3339 (s_created_at s)),
        jstr ''last_active_at'' (fmt_rfc3339 (s_last_active_at s))])"

text \<open>An optional integer parameter: absent is 0.\<close>

definition int_param :: "request \<Rightarrow> string \<Rightarrow> int option" where
  "int_param r k = (let v = query_get r k in if v \<noteq> [] then atoi v else Some 0)"

definition handle_list_sessions :: "('h, 'w, 'p) api \<Rightarrow> ('h, 'w, 'p) manager handler" where
  "handle_list_sessions api r m0 =
     (case require_scope r ''sessions.read'' of
        Some resp \<Rightarrow> (resp, m0)
      | None \<Rightarrow>
          (case int_param r ''limit'' of
             None \<Rightarrow> (error_response 400 ''invalid limit'', m0)
           | Some l \<Rightarrow>
               (case int_param r ''offset'' of
                  None \<Rightarrow> (error_response 400 ''invalid offset'', m0)
                | Some off \<Rightarrow>
                    (case manager_list (api_store api)
                       \<lparr>q_user_id = query_get r ''user_id'', q_external_id = query_get r ''external_id'',
                        q_working_dir = query_get r ''working_dir'', q_limit = l, q_offset = off\<rparr> m0 of
                       (Inl e, m) \<Rightarrow> (internal_error e, m)
                     | (Inr rs, m) \<Rightarrow>
                         (json_response 200 (json_map [(''sessions'', JArr (map session_entry rs))]), m)))))"

definition handle_sessions :: "('h, 'w, 'p) api \<Rightarrow> go_time \<Rightarrow> ('h, 'w, 'p) manager handler" where
  "handle_sessions api now r m =
     (if r_method r = ''POST'' then handle_create_session api now r m
      else if r_method r = ''GET'' then handle_list_sessions api r m
      else (method_not_allowed, m))"

section \<open>One session\<close>

definition handle_delete :: "('h, 'w, 'p) api \<Rightarrow> string \<Rightarrow> ('h, 'w, 'p) manager handler" where
  "handle_delete api sid r m0 =
     (case require_scope r ''sessions.write'' of
        Some resp \<Rightarrow> (resp, m0)
      | None \<Rightarrow>
          (case manager_delete (api_store api) (api_procs api) sid m0 of
             (Inl e, m) \<Rightarrow> (write_session_err e, m)
           | (Inr u, m) \<Rightarrow> (json_response 200 (json_map [(''status'', JStr ''deleted'')]), m)))"

definition handle_resume :: "('h, 'w, 'p) api \<Rightarrow> go_time \<Rightarrow> string \<Rightarrow> ('h, 'w, 'p) manager handler" where
  "handle_resume api now sid r m0 =
     (case require_scope r ''sessions.write'' of
        Some resp \<Rightarrow> (resp, m0)
      | None \<Rightarrow>
          (case manager_resume (api_store api) (api_procs api) now sid m0 of
             (Inl e, m) \<Rightarrow> (write_session_err e, m)
           | (Inr s, m) \<Rightarrow>
               (json_response 200 (json_map [(''session_id'', JStr (se_id s)), (''status'', JStr ''ready'')]), m)))"

definition handle_state :: "('h, 'w, 'p) api \<Rightarrow> 'h session \<Rightarrow> ('h, 'w, 'p) manager handler" where
  "handle_state api s r m0 =
     (case require_scope r ''sessions.read'' of
        Some resp \<Rightarrow> (resp, m0)
      | None \<Rightarrow>
          (case session_state (api_procs api) s m0 of
             (Inl e, m) \<Rightarrow> (internal_error e, m)
           | (Inr st, m) \<Rightarrow> (json_response 200 (json_map [(''state'', agent_state_json st)]), m)))"

definition messages_json :: "string \<Rightarrow> json list \<Rightarrow> json" where
  "messages_json format ms = json_map [(''format'', JStr format), (''messages'', JArr ms)]"

definition handle_get_messages :: "('h, 'w, 'p) api \<Rightarrow> 'h session \<Rightarrow> ('h, 'w, 'p) manager handler" where
  "handle_get_messages api s r m0 =
     (case require_scope r ''sessions.read'' of
        Some resp \<Rightarrow> (resp, m0)
      | None \<Rightarrow>
          (let format = (if query_get r ''format'' = [] then ''text'' else query_get r ''format'') in
           if format = ''text'' then
             (case session_messages (api_procs api) s m0 of
                (Inl e, m) \<Rightarrow> (internal_error e, m)
              | (Inr ms, m) \<Rightarrow> (json_response 200 (messages_json ''text'' (map chat_message_json ms)), m))
           else if format = ''raw'' then
             (case session_messages_raw (api_procs api) s m0 of
                (Inl e, m) \<Rightarrow> (internal_error e, m)
              | (Inr ms, m) \<Rightarrow>
                  (json_response 200 (messages_json ''raw'' (case ms of None \<Rightarrow> [] | Some js \<Rightarrow> js)), m))
           else (error_response 400 ''invalid format'', m0)))"

record prompt_body =
  pb_message :: string
  pb_streaming_behavior :: string

definition prompt_fields :: "(string \<times> prompt_body field_decoder) list" where
  "prompt_fields =
     [(''message'', field (\<lambda>x s. s\<lparr>pb_message := x\<rparr>) pb_message dec_string),
      (''streaming_behavior'', field (\<lambda>x s. s\<lparr>pb_streaming_behavior := x\<rparr>) pb_streaming_behavior dec_string)]"

definition handle_prompt :: "('h, 'w, 'p) api \<Rightarrow> 'h session \<Rightarrow> ('h, 'w, 'p) manager handler" where
  "handle_prompt api s r m0 =
     (case require_scope r ''sessions.write'' of
        Some resp \<Rightarrow> (resp, m0)
      | None \<Rightarrow>
          (case decode_body prompt_fields \<lparr>pb_message = [], pb_streaming_behavior = []\<rparr> r of
             None \<Rightarrow> (bad_body, m0)
           | Some req \<Rightarrow>
               if trim_space (pb_message req) = [] then (error_response 400 ''message is required'', m0)
               else
                 (case session_prompt (api_procs api) s
                    \<lparr>pr_message = pb_message req, pr_streaming_behavior = pb_streaming_behavior req\<rparr> m0 of
                    (Inl e, m) \<Rightarrow> (internal_error e, m)
                  | (Inr u, m) \<Rightarrow> (json_response 202 (json_map [(''accepted'', JBool True)]), m))))"

definition handle_abort :: "('h, 'w, 'p) api \<Rightarrow> 'h session \<Rightarrow> ('h, 'w, 'p) manager handler" where
  "handle_abort api s r m0 =
     (case require_scope r ''sessions.write'' of
        Some resp \<Rightarrow> (resp, m0)
      | None \<Rightarrow>
          (case session_abort (api_procs api) s m0 of
             (Inl e, m) \<Rightarrow> (internal_error e, m)
           | (Inr u, m) \<Rightarrow> (json_response 200 (json_map [(''status'', JStr ''aborted'')]), m)))"

section \<open>The stream\<close>

text \<open>\<open>handleWSUIResponse\<close>: what a client message asks for.\<close>

definition ws_ui_response :: "json \<Rightarrow> ui_response option" where
  "ws_ui_response msg =
     (let i = (case Option.bind (obj_get msg ''id'') json_str of None \<Rightarrow> [] | Some s \<Rightarrow> s);
          resp = \<lparr>ui_id = i, ui_value = JNull, ui_confirmed = None, ui_cancelled = False\<rparr> in
      if i = [] then None
      else if Option.bind (obj_get msg ''cancelled'') json_bool = Some True then Some (resp\<lparr>ui_cancelled := True\<rparr>)
      else
        (case Option.bind (obj_get msg ''confirmed'') json_bool of
           Some b \<Rightarrow> Some (resp\<lparr>ui_confirmed := Some b\<rparr>)
         | None \<Rightarrow>
             (case obj_get msg ''value'' of
                Some v \<Rightarrow> Some (resp\<lparr>ui_value := v\<rparr>)
              | None \<Rightarrow> Some resp)))"

definition client_message ::
  "('h, 'w, 'p) api \<Rightarrow> 'h session \<Rightarrow> json \<Rightarrow> ('h, 'w, 'p) manager \<Rightarrow> ('h, 'w, 'p) manager" where
  "client_message api s msg m =
     (case Option.bind (obj_get msg ''type'') json_str of
        None \<Rightarrow> m
      | Some t \<Rightarrow>
          if t = ''abort'' then snd (session_abort (api_procs api) s m)
          else if t = ''ui_response'' then
            (case ws_ui_response msg of
               None \<Rightarrow> m
             | Some resp \<Rightarrow> snd (session_send_ui_response (api_procs api) s resp m))
          else m)"

fun map_like :: "json \<Rightarrow> bool" where
  "map_like (JObj ms) = True"
| "map_like JNull = True"
| "map_like _ = False"

definition end_stream ::
  "('h, 'w, 'p) api \<Rightarrow> 'h session \<Rightarrow> 64 word \<Rightarrow> ('h, 'w, 'p) manager \<Rightarrow> ('h, 'w, 'p) manager" where
  "end_stream api s sub m = m\<lparr>m_procs := ah_unsubscribe (api_procs api) (se_handle s) sub (m_procs m)\<rparr>"

text \<open>The frames sent, the state, and whether the connection is still open.\<close>

fun stream_loop ::
  "('h, 'w, 'p) api \<Rightarrow> string \<Rightarrow> 'h session \<Rightarrow> 64 word \<Rightarrow> stream_input list \<Rightarrow> ('h, 'w, 'p) manager \<Rightarrow>
   event list \<times> ('h, 'w, 'p) manager \<times> bool" where
  "stream_loop api sid s sub [] m = ([], m, True)"
| "stream_loop api sid s sub (Client_Json j # es) m =
     (if map_like j then stream_loop api sid s sub es (client_message api s j m)
      else ([], end_stream api s sub m, False))"
| "stream_loop api sid s sub (Client_Gone # es) m = ([], end_stream api s sub m, False)"
| "stream_loop api sid s sub (Agent_Event e written # es) m =
     (if \<not> written then ([], end_stream api s sub m, False)
      else (case stream_loop api sid s sub es m of
              (frames, m', alive) \<Rightarrow> (e\<lparr>ev_session_id := sid\<rparr> # frames, m', alive)))"
| "stream_loop api sid s sub (Agent_Closed # es) m = ([], end_stream api s sub m, False)"
| "stream_loop api sid s sub (Ping_Tick # es) m = stream_loop api sid s sub es m"
| "stream_loop api sid s sub (Request_Done # es) m = ([], end_stream api s sub m, False)"

definition switching_protocols :: "event list \<Rightarrow> response" where
  "switching_protocols frames = \<lparr>rs_status = 101, rs_headers = [], rs_body = Frames (map event_json frames)\<rparr>"

text \<open>The whole of \<open>handleSessionStream\<close>: when the inputs do not end the stream, it is still open.\<close>

definition handle_stream :: "('h, 'w, 'p) api \<Rightarrow> string \<Rightarrow> 'h session \<Rightarrow> ('h, 'w, 'p) manager handler" where
  "handle_stream api sid s r m =
     (case require_scope r ''sessions.read'' of
        Some resp \<Rightarrow> (resp, m)
      | None \<Rightarrow>
          (case api_upgrade api r of
             Some resp \<Rightarrow> (resp, m)
           | None \<Rightarrow>
               (case session_subscribe (api_procs api) s m of (sub, m1) \<Rightarrow>
                  (case stream_loop api sid s (fst sub) (api_stream api r) m1 of (frames, m2, alive) \<Rightarrow>
                     (switching_protocols frames, m2)))))"

text \<open>The \<open>switch\<close> on the action, for a live session.\<close>

definition session_action ::
  "('h, 'w, 'p) api \<Rightarrow> string \<Rightarrow> 'h session \<Rightarrow> string \<Rightarrow> string \<Rightarrow> ('h, 'w, 'p) manager handler" where
  "session_action api sid s action action_tail r m =
     (if action = ''state'' \<and> r_method r = ''GET'' then handle_state api s r m
      else if action = ''messages'' \<and> r_method r = ''GET'' then handle_get_messages api s r m
      else if action = ''messages'' \<and> r_method r = ''POST'' then handle_prompt api s r m
      else if action = ''abort'' \<and> r_method r = ''POST'' then handle_abort api s r m
      else if action = ''stream'' \<and> r_method r = ''GET'' then handle_stream api sid s r m
      else if action = ''artifacts'' then
        (handle_artifact_request (api_files api) (se_working_dir s) action_tail r, m)
      else (method_not_allowed, m))"

definition path_parts :: "string \<Rightarrow> string list" where
  "path_parts path = split_on (CHR ''/'') (trim_cut (trim_prefix path ''/v1/sessions/'') ''/'')"

definition handle_session_by_id :: "('h, 'w, 'p) api \<Rightarrow> go_time \<Rightarrow> ('h, 'w, 'p) manager handler" where
  "handle_session_by_id api now r m0 =
     (let parts = path_parts (r_path r);
          sid = hd parts;
          action = (if 1 < length parts then parts ! 1 else []);
          action_tail = (if 2 < length parts then join ''/'' (drop 2 parts) else [])
      in if sid = [] then (http_not_found, m0)
         else if action = [] \<and> r_method r = ''DELETE'' then handle_delete api sid r m0
         else if action = ''resume'' \<and> r_method r = ''POST'' then handle_resume api now sid r m0
         else
           (case manager_get (api_store api) sid m0 of
              (Inl e, m) \<Rightarrow> (write_session_err e, m)
            | (Inr s, m) \<Rightarrow> session_action api sid s action action_tail r m))"

section \<open>Routes\<close>

definition routes :: "('h, 'w, 'p) api \<Rightarrow> go_time \<Rightarrow> ('h, 'w, 'p) manager handler" where
  "routes api now r m =
     (let path = r_path r in
      if path = ''/healthz'' \<or> path = ''/readyz'' then (handle_health, m)
      else if path = ''/v1/server-info'' then (handle_server_info api r, m)
      else if path = ''/v1/config'' then (handle_config api r, m)
      else if path = ''/v1/sessions'' then handle_sessions api now r m
      else if has_prefix path ''/v1/sessions/'' then handle_session_by_id api now r m
      else (http_not_found, m))"

section \<open>What a reader can reach\<close>

text \<open>The states a request without \<open>sessions.write\<close> may lead to: the counter and the handles are
  unchanged, the store is at most read, and at most one live handle is asked for its state or its
  messages. A stream is different: after the subscription its client can abort the run and answer
  the agent's questions.\<close>

definition store_reads :: "'w store_ops \<Rightarrow> 'w \<Rightarrow> 'w set" where
  "store_reads st w = insert w (range (\<lambda>sid. snd (st_get st sid w)) \<union> range (\<lambda>q. snd (st_list st q w)))"

definition proc_reads :: "('h, 'p) process_manager \<Rightarrow> 'h set \<Rightarrow> 'p \<Rightarrow> 'p set" where
  "proc_reads pm hs p = insert p (\<Union>h\<in>hs. {snd (ah_get_state pm h p), snd (ah_get_messages pm h p),
     snd (ah_get_messages_raw pm h p)})"

datatype stream_call = Stream_Abort | Stream_Ui ui_response | Stream_Unsubscribe "64 word"

fun on_stream :: "('h, 'p) process_manager \<Rightarrow> 'h \<Rightarrow> stream_call \<Rightarrow> 'p \<Rightarrow> 'p" where
  "on_stream pm h Stream_Abort p = snd (ah_abort pm h p)"
| "on_stream pm h (Stream_Ui resp) p = snd (ah_send_ui_response pm h resp p)"
| "on_stream pm h (Stream_Unsubscribe sub) p = ah_unsubscribe pm h sub p"

definition streams :: "('h, 'p) process_manager \<Rightarrow> 'h set \<Rightarrow> 'p \<Rightarrow> 'p set" where
  "streams pm hs p = (\<Union>h\<in>hs. range (\<lambda>calls. fold (on_stream pm h) calls (snd (ah_subscribe pm h p))))"

definition is_stream :: "request \<Rightarrow> bool" where
  "is_stream r \<longleftrightarrow> r_method r = ''GET'' \<and> has_prefix (r_path r) ''/v1/sessions/'' \<and>
     1 < length (path_parts (r_path r)) \<and> path_parts (r_path r) ! 1 = ''stream''"

text \<open>Nothing but the processes can change, and these only as \<open>ps\<close> allows.\<close>

definition confined :: "('h, 'w, 'p) api \<Rightarrow> 'p set \<Rightarrow> ('h, 'w, 'p) manager \<Rightarrow> ('h, 'w, 'p) manager \<Rightarrow> bool" where
  "confined api ps m m' \<longleftrightarrow> m_counter m' = m_counter m \<and> m_handles m' = m_handles m \<and>
     m_store m' \<in> store_reads (api_store api) (m_store m) \<and> m_procs m' \<in> ps"

text \<open>What a request can do to the processes \<open>p\<close> over the handles \<open>hs\<close>.\<close>

definition reader_procs :: "('h, 'w, 'p) api \<Rightarrow> request \<Rightarrow> 'h set \<Rightarrow> 'p \<Rightarrow> 'p set" where
  "reader_procs api r hs p = proc_reads (api_procs api) hs p \<union>
     (if is_stream r \<and> has_scope (from_context r) ''sessions.read'' then streams (api_procs api) hs p else {})"

lemma reader_procs_refl [simp]: "p \<in> reader_procs api r hs p"
  by (simp add: reader_procs_def proc_reads_def)

lemma reader_procs_mono: "hs \<subseteq> hs2 \<Longrightarrow> reader_procs api r hs p \<subseteq> reader_procs api r hs2 p"
  by (auto simp: reader_procs_def proc_reads_def streams_def)

lemma store_reads_refl [simp]: "w \<in> store_reads st w"
  by (simp add: store_reads_def)

lemma on_procs_state:
  "snd (on_procs f m) = m\<lparr>m_procs := snd (f (m_procs m))\<rparr>"
  by (simp add: on_procs_def split: prod.splits sum.splits)

text \<open>Every input of a stream is a few calls of its one handle.\<close>

lemma client_message_calls:
  "\<exists>calls. client_message api s j m = m\<lparr>m_procs := fold (on_stream (api_procs api) (se_handle s)) calls (m_procs m)\<rparr>"
proof -
  have "client_message api s j m = m \<or>
      client_message api s j m = m\<lparr>m_procs := on_stream (api_procs api) (se_handle s) Stream_Abort (m_procs m)\<rparr> \<or>
      (\<exists>resp. client_message api s j m = m\<lparr>m_procs := on_stream (api_procs api) (se_handle s) (Stream_Ui resp) (m_procs m)\<rparr>)"
    by (auto simp: client_message_def session_abort_def session_send_ui_response_def on_procs_state split: option.split)
  then show ?thesis
  proof (elim disjE exE)
    assume "client_message api s j m = m"
    then show ?thesis by (intro exI [of _ "[]"]) simp
  next
    assume "client_message api s j m = m\<lparr>m_procs := on_stream (api_procs api) (se_handle s) Stream_Abort (m_procs m)\<rparr>"
    then show ?thesis by (intro exI [of _ "[Stream_Abort]"]) simp
  next
    fix resp
    assume "client_message api s j m = m\<lparr>m_procs := on_stream (api_procs api) (se_handle s) (Stream_Ui resp) (m_procs m)\<rparr>"
    then show ?thesis by (intro exI [of _ "[Stream_Ui resp]"]) simp
  qed
qed

lemma stream_loop_calls:
  "\<exists>calls. fst (snd (stream_loop api sid s sub inputs m)) =
     m\<lparr>m_procs := fold (on_stream (api_procs api) (se_handle s)) calls (m_procs m)\<rparr>"
proof (induction inputs arbitrary: m)
  case Nil
  show ?case by (rule exI [of _ "[]"]) simp
next
  case (Cons i inputs)
  have finish: "\<exists>calls. end_stream api s sub m =
      m\<lparr>m_procs := fold (on_stream (api_procs api) (se_handle s)) calls (m_procs m)\<rparr>"
    by (rule exI [of _ "[Stream_Unsubscribe sub]"]) (simp add: end_stream_def)
  show ?case
  proof (cases i)
    case (Client_Json j)
    obtain a where a: "client_message api s j m =
        m\<lparr>m_procs := fold (on_stream (api_procs api) (se_handle s)) a (m_procs m)\<rparr>"
      using client_message_calls [of api s j m] by blast
    obtain b where "fst (snd (stream_loop api sid s sub inputs (client_message api s j m))) =
        (client_message api s j m)\<lparr>m_procs := fold (on_stream (api_procs api) (se_handle s)) b
          (m_procs (client_message api s j m))\<rparr>"
      using Cons.IH [of "client_message api s j m"] by blast
    then have "fst (snd (stream_loop api sid s sub inputs (client_message api s j m))) =
        m\<lparr>m_procs := fold (on_stream (api_procs api) (se_handle s)) (a @ b) (m_procs m)\<rparr>"
      unfolding a by simp
    then have "\<exists>calls. fst (snd (stream_loop api sid s sub inputs (client_message api s j m))) =
        m\<lparr>m_procs := fold (on_stream (api_procs api) (se_handle s)) calls (m_procs m)\<rparr>"
      by (rule exI)
    then show ?thesis using finish Client_Json by simp
  next
    case (Agent_Event e written)
    then show ?thesis using finish Cons.IH [of m] by (auto split: prod.split)
  qed (use finish Cons.IH [of m] in auto)
qed

lemma handle_stream_calls:
  "snd (handle_stream api sid s r m) = m \<or>
   has_scope (from_context r) ''sessions.read'' \<and>
   (\<exists>calls. snd (handle_stream api sid s r m) = m\<lparr>m_procs := fold (on_stream (api_procs api) (se_handle s)) calls
     (snd (ah_subscribe (api_procs api) (se_handle s) (m_procs m)))\<rparr>)"
proof (cases "require_scope r ''sessions.read'' = None \<and> api_upgrade api r = None")
  case False
  then show ?thesis by (auto simp: handle_stream_def split: option.split)
next
  case True
  obtain sub p where sub: "ah_subscribe (api_procs api) (se_handle s) (m_procs m) = (sub, p)" by fastforce
  let ?m1 = "m\<lparr>m_procs := p\<rparr>"
  obtain calls where "fst (snd (stream_loop api sid s (fst sub) (api_stream api r) ?m1)) =
      ?m1\<lparr>m_procs := fold (on_stream (api_procs api) (se_handle s)) calls (m_procs ?m1)\<rparr>"
    using stream_loop_calls [of api sid s "fst sub" "api_stream api r" ?m1] by blast
  then have "snd (handle_stream api sid s r m) = m\<lparr>m_procs := fold (on_stream (api_procs api) (se_handle s)) calls p\<rparr>"
    using True sub by (simp add: handle_stream_def session_subscribe_def require_scope_def case_prod_beta)
  moreover have "has_scope (from_context r) ''sessions.read''"
    using True by (simp add: require_scope_def split: if_splits)
  ultimately show ?thesis using sub by auto
qed

lemma handle_stream_procs: "\<exists>p. snd (handle_stream api sid s r m) = m\<lparr>m_procs := p\<rparr>"
  using handle_stream_calls [of api sid s r m] by (elim disjE conjE exE) (auto intro: exI [of _ "m_procs m"])

lemma handle_stream_state:
  assumes "is_stream r"
  shows "\<exists>p\<in>reader_procs api r {se_handle s} (m_procs m). snd (handle_stream api sid s r m) = m\<lparr>m_procs := p\<rparr>"
proof (cases "snd (handle_stream api sid s r m) = m")
  case True
  then have "snd (handle_stream api sid s r m) = m\<lparr>m_procs := m_procs m\<rparr>" by simp
  then show ?thesis by (rule bexI) simp
next
  case False
  then obtain calls where "has_scope (from_context r) ''sessions.read''"
    "snd (handle_stream api sid s r m) = m\<lparr>m_procs := fold (on_stream (api_procs api) (se_handle s)) calls
       (snd (ah_subscribe (api_procs api) (se_handle s) (m_procs m)))\<rparr>"
    using handle_stream_calls [of api sid s r m] by blast
  then show ?thesis using assms by (auto simp: reader_procs_def streams_def)
qed

lemma manager_get_reads:
  assumes "manager_get st sid m = (res, m')"
  shows "m_counter m' = m_counter m" "m_handles m' = m_handles m" "m_procs m' = m_procs m"
    "m_store m' = m_store m \<or> m_store m' = snd (st_get st sid (m_store m))"
    "res = Inr s \<Longrightarrow> m_handles m sid = Some (se_handle s)"
  using assms
  by (auto simp: manager_get_def lookup_record_def session_of_def
      split: option.splits prod.splits sum.splits store_error.splits)

lemma session_reads_state:
  "snd (session_state pm s m) = m\<lparr>m_procs := snd (ah_get_state pm (se_handle s) (m_procs m))\<rparr>"
  "snd (session_messages pm s m) = m\<lparr>m_procs := snd (ah_get_messages pm (se_handle s) (m_procs m))\<rparr>"
  "snd (session_messages_raw pm s m) = m\<lparr>m_procs := snd (ah_get_messages_raw pm (se_handle s) (m_procs m))\<rparr>"
  by (simp_all add: session_state_def session_messages_def session_messages_raw_def on_procs_state)

lemma on_procs_same [simp]: "m\<lparr>m_procs := m_procs m\<rparr> = m"
  by simp

lemma fst_snd:
  "snd (case x of (Inl e, m') \<Rightarrow> (f e, m') | (Inr a, m') \<Rightarrow> (g a, m')) = snd x"
  by (cases x) (simp split: sum.split)

lemma action_reads:
  assumes "\<not> has_scope (from_context r) ''sessions.write''"
    and "action = ''stream'' \<Longrightarrow> r_method r = ''GET'' \<Longrightarrow> is_stream r"
  shows "\<exists>p\<in>reader_procs api r {se_handle s} (m_procs m).
    snd (session_action api sid s action rest r m) = m\<lparr>m_procs := p\<rparr>"
proof -
  let ?ps = "reader_procs api r {se_handle s} (m_procs m)"
  have w: "require_scope r ''sessions.write'' = Some (error_response 403 ''insufficient scope'')"
    using assms(1) by (simp add: require_scope_def)
  have same: "\<exists>p\<in>?ps. m = m\<lparr>m_procs := p\<rparr>"
    by (rule bexI [of _ "m_procs m"]) simp_all
  have st: "\<exists>p\<in>?ps. snd (handle_state api s r m) = m\<lparr>m_procs := p\<rparr>"
    using same by (simp add: handle_state_def fst_snd session_reads_state reader_procs_def proc_reads_def split: option.split)
  have ms: "\<exists>p\<in>?ps. snd (handle_get_messages api s r m) = m\<lparr>m_procs := p\<rparr>"
    using same by (simp add: handle_get_messages_def fst_snd session_reads_state reader_procs_def proc_reads_def Let_def
        split: option.split)
  have sm: "\<exists>p\<in>?ps. snd (handle_stream api sid s r m) = m\<lparr>m_procs := p\<rparr>" if "action = ''stream''" "r_method r = ''GET''"
    by (rule handle_stream_state [OF assms(2) [OF that]])
  show ?thesis
    using st ms sm same by (simp add: session_action_def handle_prompt_def handle_abort_def w)
qed

lemma routes_observe:
  assumes "\<not> has_scope (from_context r) ''sessions.write''"
  shows "confined api (reader_procs api r (ran (m_handles m)) (m_procs m)) m (snd (routes api now r m))"
proof -
  let ?ok = "confined api (reader_procs api r (ran (m_handles m)) (m_procs m)) m"
  have w: "require_scope r ''sessions.write'' = Some (error_response 403 ''insufficient scope'')"
    using assms by (simp add: require_scope_def)
  have lst: "?ok (snd (handle_list_sessions api r m))"
    by (auto simp: handle_list_sessions_def manager_list_def confined_def store_reads_def image_iff
        split: option.split prod.split sum.split) (metis snd_conv)+
  have "?ok (snd (handle_session_by_id api now r m))" if pre: "has_prefix (r_path r) ''/v1/sessions/''"
  proof -
    let ?sid = "hd (path_parts (r_path r))"
    obtain res m1 where get: "manager_get (api_store api) ?sid m = (res, m1)" by (cases "manager_get (api_store api) ?sid m")
    note g = manager_get_reads [OF get]
    have m1: "m_store m1 \<in> store_reads (api_store api) (m_store m)"
      using g(4) by (auto simp: store_reads_def)
    show ?thesis
    proof (cases res)
      case (Inl e)
      then have "?ok m1" using g m1 by (simp add: confined_def)
      moreover have "?ok m" by (simp add: confined_def)
      ultimately show ?thesis
        using get Inl by (simp add: handle_session_by_id_def handle_delete_def handle_resume_def w Let_def)
    next
      case (Inr s)
      let ?action = "if 1 < length (path_parts (r_path r)) then path_parts (r_path r) ! 1 else []"
      have "?ok (snd (session_action api ?sid s ?action rest r m1))" for rest
      proof -
        have "is_stream r" if "?action = ''stream''" "r_method r = ''GET''"
          using that pre by (auto simp: is_stream_def split: if_splits)
        from action_reads [where r = r and api = api and s = s and m = m1 and sid = ?sid and rest = rest, OF assms this]
        obtain p where p: "p \<in> reader_procs api r {se_handle s} (m_procs m1)"
          "snd (session_action api ?sid s ?action rest r m1) = m1\<lparr>m_procs := p\<rparr>"
          by blast
        have "se_handle s \<in> ran (m_handles m)" using g(5) [OF Inr] by (rule ranI)
        then have "p \<in> reader_procs api r (ran (m_handles m)) (m_procs m)"
          using p(1) g(3) reader_procs_mono [of "{se_handle s}" "ran (m_handles m)" api r "m_procs m"] by auto
        then show ?thesis using p(2) g m1 by (simp add: confined_def)
      qed
      moreover have "?ok m" by (simp add: confined_def)
      ultimately show ?thesis
        using get Inr
        by (cases "1 < length (path_parts (r_path r))")
          (simp_all add: handle_session_by_id_def handle_delete_def handle_resume_def w Let_def)
    qed
  qed
  moreover have "?ok m" by (simp add: confined_def)
  ultimately show ?thesis
    using lst by (simp add: routes_def handle_sessions_def handle_create_session_def w Let_def)
qed

section \<open>Properties\<close>

text \<open>Without the scope \<open>sessions.write\<close> (or \<open>admin\<close>) no request to any route changes the counter, the
  live handles or the store, and at most one live agent is asked for its state or its messages; a
  stream, for which \<open>sessions.read\<close> is enough, can also abort that agent's run and answer its questions.\<close>

theorem read_only_without_write_scope:
  assumes "\<not> has_scope (from_context r) ''sessions.write''"
  shows "confined api (reader_procs api r (ran (m_handles m)) (m_procs m)) m (snd (routes api now r m))"
  by (rule routes_observe [OF assms])

definition sample_api :: "(nat, db, noop_world) api" where
  "sample_api = \<lparr>api_store = sqlite_store, api_procs = noop_manager [], api_working_dir = ''/w'',
     api_config = None, api_files = sample_artifacts, api_upgrade = (\<lambda>r. None),
     api_stream = (\<lambda>r. [Client_Json (JObj [(''type'', JStr ''abort'')]), Client_Gone])\<rparr>"

theorem read_only_without_write_scope_witness:
  "m_handles (snd (routes sample_api (noon 3 0)
     (reader_request\<lparr>r_method := ''DELETE'', r_path := ''/v1/sessions/s_000001''\<rparr>) live_manager)) = m_handles live_manager"
proof -
  have "\<not> has_scope (from_context (reader_request\<lparr>r_method := ''DELETE'', r_path := ''/v1/sessions/s_000001''\<rparr>))
      ''sessions.write''" by code_simp
  from read_only_without_write_scope [OF this, of sample_api live_manager "noon 3 0"] show ?thesis
    by (simp add: confined_def)
qed

text \<open>The path of an action on a session.\<close>

definition action_path :: "string \<Rightarrow> string \<Rightarrow> string" where
  "action_path sid action = ''/v1/sessions/'' @ sid @ ''/'' @ action"

definition path_segment :: "string \<Rightarrow> bool" where
  "path_segment s \<longleftrightarrow> s \<noteq> [] \<and> CHR ''/'' \<notin> set s"

lemma path_parts_action:
  assumes "path_segment sid" "path_segment action"
  shows "path_parts (action_path sid action) = [sid, action]"
proof -
  have "trim_prefix (''/v1/sessions/'' @ sid @ ''/'' @ action) ''/v1/sessions/'' = sid @ ''/'' @ action"
    by (simp only: trim_prefix_append)
  moreover have "trim_cut (sid @ ''/'' @ action) ''/'' = sid @ ''/'' @ action"
    using assms by (cases sid; cases action rule: rev_cases)
      (auto simp: trim_cut_def trim_left_def path_segment_def)
  ultimately show ?thesis
    using assms by (simp add: path_parts_def action_path_def path_segment_def split_on_append split_on_id)
qed

lemma routes_action:
  assumes "path_segment sid" "path_segment action" "r_path r = action_path sid action"
    "\<not> (action = ''resume'' \<and> r_method r = ''POST'')"
  shows "routes api now r m =
    (case manager_get (api_store api) sid m of
       (Inl e, m) \<Rightarrow> (write_session_err e, m)
     | (Inr s, m) \<Rightarrow> session_action api sid s action [] r m)"
proof -
  have "has_prefix (r_path r) ''/v1/sessions/''"
    using assms(3) by (simp add: action_path_def has_prefix_iff)
  moreover have "r_path r \<notin> {''/healthz'', ''/readyz'', ''/v1/server-info'', ''/v1/config'', ''/v1/sessions''}"
    using assms(3) by (simp add: action_path_def)
  ultimately show ?thesis
    using assms path_parts_action [OF assms(1,2)]
    by (auto simp: routes_def handle_session_by_id_def path_segment_def Let_def split: prod.split sum.split)
qed

definition abort_message :: json where
  "abort_message = JObj [(''type'', JStr ''abort'')]"

text \<open>C37: The stream gives a reader more than its scope says: a client with \<open>sessions.read\<close> only, whose
  \<open>POST .../abort\<close> is refused, is let into the stream, and its \<open>abort\<close> message there aborts the run
  before the stream goes on.\<close>

theorem reader_aborts_over_stream:
  assumes "path_segment sid" "manager_get (api_store api) sid m = (Inr s, m1)"
    and "r_method r = ''GET''" "r_path r = action_path sid ''stream''" "api_upgrade api r = None"
    and "api_stream api r = Client_Json abort_message # rest"
    and "has_scope (from_context r) ''sessions.read''" "\<not> has_scope (from_context r) ''sessions.write''"
  shows "(case session_subscribe (api_procs api) s m1 of (sub, m2) \<Rightarrow>
      case stream_loop api sid s (fst sub) rest (snd (session_abort (api_procs api) s m2)) of (frames, m3, alive) \<Rightarrow>
        routes api now r m = (switching_protocols frames, m3)) \<and>
    fst (routes api now (r\<lparr>r_method := ''POST'', r_path := action_path sid ''abort''\<rparr>) m) =
      error_response 403 ''insufficient scope''"
proof -
  have seg: "path_segment ''stream''" "path_segment ''abort''" by (simp_all add: path_segment_def)
  let ?r = "r\<lparr>r_method := ''POST'', r_path := action_path sid ''abort''\<rparr>"
  have ctx: "from_context ?r = from_context r" by (simp add: from_context_def)
  have "fst (routes api now ?r m) = error_response 403 ''insufficient scope''"
    using routes_action [OF assms(1) seg(2), of ?r api now m] assms(2,8) ctx
    by (simp add: session_action_def handle_abort_def require_scope_def)
  moreover have "routes api now r m = handle_stream api sid s r m1"
    using routes_action [OF assms(1) seg(1) assms(4), of api now m] assms(2,3) by (simp add: session_action_def)
  moreover have "client_message api s abort_message m2 = snd (session_abort (api_procs api) s m2)" for m2
    by (simp add: abort_message_def client_message_def)
  moreover have "map_like abort_message" by (simp add: abort_message_def)
  ultimately show ?thesis
    using assms(5-7) by (simp add: handle_stream_def require_scope_def case_prod_beta)
qed

theorem reader_aborts_over_stream_witness:
  "let r = reader_request\<lparr>r_path := action_path ''s_000001'' ''stream''\<rparr>;
       got = manager_get sqlite_store ''s_000001'' live_manager;
       sub = session_subscribe (noop_manager []) (projr (fst got)) (snd got) in
     routes sample_api (noon 3 0) r live_manager =
       (switching_protocols [], end_stream sample_api (projr (fst got)) (fst (fst sub))
          (snd (session_abort (noop_manager []) (projr (fst got)) (snd sub)))) \<and>
     fst (routes sample_api (noon 3 0)
       (r\<lparr>r_method := ''POST'', r_path := action_path ''s_000001'' ''abort''\<rparr>) live_manager) =
       error_response 403 ''insufficient scope''"
proof -
  define got where "got = manager_get sqlite_store ''s_000001'' live_manager"
  let ?r = "reader_request\<lparr>r_path := action_path ''s_000001'' ''stream''\<rparr>"
  have "\<not> isl (fst got)" unfolding got_def by code_simp
  then have "manager_get (api_store sample_api) ''s_000001'' live_manager = (Inr (projr (fst got)), snd got)"
    by (simp add: got_def sample_api_def prod_eq_iff)
  moreover have "has_scope (from_context ?r) ''sessions.read''" "\<not> has_scope (from_context ?r) ''sessions.write''"
    by code_simp+
  moreover have "api_stream sample_api ?r = Client_Json abort_message # [Client_Gone]" "api_procs sample_api = noop_manager []"
    by (simp_all add: sample_api_def abort_message_def)
  ultimately show ?thesis
    using reader_aborts_over_stream [of "''s_000001''" sample_api live_manager "projr (fst got)" "snd got" ?r "[Client_Gone]" "noon 3 0"]
    unfolding Let_def got_def [symmetric]
    by (simp add: path_segment_def sample_api_def reader_request_def case_prod_beta)
qed

section \<open>Requests in sequence\<close>

lemma mgr_step_state:
  "snd (mgr_step st pm (Op_Create now u p x wd) m) = snd (manager_create st pm now u p x wd m)"
  "snd (mgr_step st pm (Op_Get sid) m) = snd (manager_get st sid m)"
  "snd (mgr_step st pm (Op_Resume now sid) m) = snd (manager_resume st pm now sid m)"
  "snd (mgr_step st pm (Op_List q) m) = snd (manager_list st q m)"
  "snd (mgr_step st pm (Op_Delete sid) m) = snd (manager_delete st pm sid m)"
  by (simp_all add: fst_snd split: prod.split sum.split)

lemma action_keeps:
  "\<exists>p. snd (session_action api sid s action rest r m) = m\<lparr>m_procs := p\<rparr>"
proof -
  have same: "\<exists>p. m = m\<lparr>m_procs := p\<rparr>" by (rule exI [of _ "m_procs m"]) simp
  have on: "snd (session_prompt pm s req m) = m\<lparr>m_procs := snd (ah_prompt pm (se_handle s) req (m_procs m))\<rparr>"
    "snd (session_abort pm s m) = m\<lparr>m_procs := snd (ah_abort pm (se_handle s) (m_procs m))\<rparr>" for pm req
    by (simp_all add: session_prompt_def session_abort_def on_procs_state)
  have h: "\<exists>p. snd (handle_state api s r m) = m\<lparr>m_procs := p\<rparr>"
    "\<exists>p. snd (handle_get_messages api s r m) = m\<lparr>m_procs := p\<rparr>"
    "\<exists>p. snd (handle_stream api sid s r m) = m\<lparr>m_procs := p\<rparr>"
    "\<exists>p. snd (handle_abort api s r m) = m\<lparr>m_procs := p\<rparr>"
    "\<exists>p. snd (handle_prompt api s r m) = m\<lparr>m_procs := p\<rparr>"
    using same handle_stream_procs [of api sid s r m]
    by (auto simp: handle_state_def handle_get_messages_def handle_abort_def handle_prompt_def
        fst_snd session_reads_state on Let_def split: option.split)
  then show ?thesis using same by (simp add: session_action_def)
qed

text \<open>A predicate that every manager operation establishes from this state, and that does not look at
  the processes, holds after any request.\<close>

lemma routes_preserve:
  fixes m :: "('h, 'w, 'p) manager"
  assumes here: "good m"
    and ops: "\<And>op. op_times_valid op \<Longrightarrow> good (snd (mgr_step (api_store api) (api_procs api) op m))"
    and procs: "\<And>m' p. good m' \<Longrightarrow> good (m'\<lparr>m_procs := p\<rparr>)"
    and now: "valid_time now" "now \<noteq> zero_time"
  shows "good (snd (routes api now r m))"
proof -
  have create: "good (snd (manager_create (api_store api) (api_procs api) now u p x wd m))" for u p x wd
    using ops [of "Op_Create now u p x wd"] now by (simp only: mgr_step_state op_times_valid.simps simp_thms)
  have get: "good (snd (manager_get (api_store api) sid m))" for sid
    using ops [of "Op_Get sid"] by (simp only: mgr_step_state op_times_valid.simps simp_thms)
  have resume: "good (snd (manager_resume (api_store api) (api_procs api) now sid m))" for sid
    using ops [of "Op_Resume now sid"] now by (simp only: mgr_step_state op_times_valid.simps simp_thms)
  have lst: "good (snd (manager_list (api_store api) q m))" for q
    using ops [of "Op_List q"] by (simp only: mgr_step_state op_times_valid.simps simp_thms)
  have del: "good (snd (manager_delete (api_store api) (api_procs api) sid m))" for sid
    using ops [of "Op_Delete sid"] by (simp only: mgr_step_state op_times_valid.simps simp_thms)
  have act: "good (snd (session_action api sid s action rest r m1))" if "good m1" for sid s action rest m1
    using action_keeps [of api sid s action rest r m1] procs that by auto
  have live: "good (snd (case manager_get (api_store api) sid m of
        (Inl e, m) \<Rightarrow> (write_session_err e, m) | (Inr s, m) \<Rightarrow> session_action api sid s action rest r m))" for sid action rest
    using get [of sid] act by (auto split: prod.split sum.split)
  have "good (snd (handle_session_by_id api now r m))"
    using here live del resume
    by (simp add: handle_session_by_id_def handle_delete_def handle_resume_def fst_snd Let_def split: option.split)
  moreover have "good (snd (handle_sessions api now r m))"
    using here create lst
    by (simp add: handle_sessions_def handle_create_session_def handle_list_sessions_def fst_snd split: option.split)
  ultimately show ?thesis using here by (simp add: routes_def Let_def)
qed

text \<open>The server answers a sequence of requests, each with the clock reading at its time.\<close>

definition serve :: "('h, 'w, 'p) api \<Rightarrow> go_time \<times> request \<Rightarrow> ('h, 'w, 'p) manager \<Rightarrow> response \<times> ('h, 'w, 'p) manager" where
  "serve api e m = routes api (fst e) (snd e) m"

definition serve_pre :: "go_time \<times> request \<Rightarrow> ('h, 'w, 'p) manager \<Rightarrow> bool" where
  "serve_pre e m \<longleftrightarrow> valid_time (fst e) \<and> fst e \<noteq> zero_time \<and> unat (m_counter m) + 1 < 2 ^ 64"

lemma serve_ok:
  assumes "mgr_ok sqlite_view db_ok m" "serve_pre e m" "api_store api = sqlite_store"
  shows "mgr_ok sqlite_view db_ok (snd (serve api e m))"
  unfolding serve_def
proof (rule routes_preserve [where good = "mgr_ok sqlite_view db_ok", OF assms(1)])
  fix op assume "op_times_valid op"
  then show "mgr_ok sqlite_view db_ok (snd (mgr_step (api_store api) (api_procs api) op m))"
    using sqlite_mgr.mgr_step_ok [OF assms(1)] assms(2,3) by (simp add: mgr_pre_def serve_pre_def)
qed (use assms(2) in \<open>simp_all add: serve_pre_def\<close>)

interpretation api_inv: step_invariant "serve (api\<lparr>api_store := sqlite_store\<rparr>)" "mgr_ok sqlite_view db_ok" serve_pre for api
  by unfold_locales (simp add: serve_ok)

text \<open>C10: Whatever requests arrive, one after another in any order, after the server has started on its database: every
  live handle belongs to a stored session, and every stored session has an id the counter issued, so
  the next \<open>Create\<close> cannot collide.\<close>

theorem requests_keep_invariant:
  assumes "db_ok d" "six_digit_ids (dom (sqlite_view d))"
    "manager_init sqlite_store (new_manager d p) = (Inr (), m)"
    "enabled serve_pre (serve (api\<lparr>api_store := sqlite_store\<rparr>)) reqs m"
    "run (serve (api\<lparr>api_store := sqlite_store\<rparr>)) reqs m = (resps, m')"
  shows "db_ok (m_store m') \<and> dom (m_handles m') \<subseteq> dom (sqlite_view (m_store m')) \<and>
    dom (sqlite_view (m_store m')) \<subseteq> issued (unat (m_counter m'))"
proof -
  have "mgr_ok sqlite_view db_ok m" using sqlite_mgr.init_outcome [OF assms(1-3)] by blast
  from api_inv.run_inv [OF this assms(4)] assms(5) show ?thesis by (simp add: mgr_ok_def)
qed

definition writer_request :: "string \<Rightarrow> string \<Rightarrow> string \<Rightarrow> request" where
  "writer_request meth path body =
     \<lparr>r_method = meth, r_path = path, r_headers = [], r_query = [], r_remote_addr = [], r_body = body,
      r_ctx = Some \<lparr>id_method = ''api-key'', id_subject = ''w'', id_scopes = [''sessions.write'']\<rparr>\<rparr>"

definition create_alice :: request where
  "create_alice = writer_request ''POST'' ''/v1/sessions'' (json_print (JObj [(''user_id'', JStr ''alice'')]))"

definition demo_requests :: "(go_time \<times> request) list" where
  "demo_requests =
     [(noon 2 0, create_alice), (noon 3 0, writer_request ''POST'' ''/v1/sessions/s_000001/resume'' []),
      (noon 4 0, writer_request ''DELETE'' ''/v1/sessions/s_000001'' [])]"

theorem requests_keep_invariant_witness:
  "dom (m_handles (snd (run (serve sample_api) demo_requests demo_manager))) \<subseteq>
   dom (sqlite_view (m_store (snd (run (serve sample_api) demo_requests demo_manager))))"
proof -
  have same: "sample_api\<lparr>api_store := sqlite_store\<rparr> = sample_api" by (simp add: sample_api_def)
  have "enabled serve_pre (serve sample_api) demo_requests demo_manager" by code_simp
  then show ?thesis
    using requests_keep_invariant [OF demo_init(1) six_digit_one_session demo_init(2), of sample_api demo_requests
      "fst (run (serve sample_api) demo_requests demo_manager)" "snd (run (serve sample_api) demo_requests demo_manager)"]
    unfolding same by simp
qed

section \<open>From creation to use\<close>

lemma routes_create:
  assumes "r_path r = ''/v1/sessions''" "r_method r = ''POST''"
  shows "routes api now r m = handle_create_session api now r m"
  using assms by (simp add: routes_def handle_sessions_def)

lemma created_201:
  assumes "handle_create_session api now r m = (resp, m1)" "rs_status resp = 201"
  obtains req :: create_body and s where "manager_create (api_store api) (api_procs api) now (cb_user_id req)
      (cb_project_id req) (cb_external_id req) (cb_working_dir req) m = (Inr s, m1)"
    "resp = json_response 201 (json_map [(''session_id'', JStr (se_id s)), (''status'', JStr ''ready'')])"
proof -
  let ?zero = "\<lparr>cb_user_id = [], cb_project_id = [], cb_external_id = [], cb_working_dir = []\<rparr>"
  have scope: "require_scope r ''sessions.write'' = None"
    using assms by (auto simp: handle_create_session_def require_scope_def split: if_splits)
  obtain req where req: "decode_body create_fields ?zero r = Some req"
    using assms scope by (cases "decode_body create_fields ?zero r") (auto simp: handle_create_session_def)
  have user: "trim_space (cb_user_id req) \<noteq> []"
    using assms scope req by (auto simp: handle_create_session_def)
  obtain res m' where create: "manager_create (api_store api) (api_procs api) now (cb_user_id req)
      (cb_project_id req) (cb_external_id req) (cb_working_dir req) m = (res, m')"
    by fastforce
  show thesis
  proof (cases res)
    case (Inl e)
    have "rs_status resp \<noteq> 201"
      using assms(1) scope req user create Inl
      by (auto simp: handle_create_session_def internal_error_def split: if_splits)
    then show ?thesis using assms(2) by simp
  next
    case (Inr s)
    then show ?thesis
      using that [of req s] assms(1) scope req user create by (simp add: handle_create_session_def)
  qed
qed

lemma create_then_get:
  assumes "mgr_ok sqlite_view db_ok m" "healthy (m_store m)" "valid_time now" "now \<noteq> zero_time"
    "unat (m_counter m) + 1 < 2 ^ 64"
    "manager_create sqlite_store pm now u p x wd m = (Inr s, m1)"
  shows "se_id s = session_id (unat (m_counter m) + 1) \<and> m_handles m1 (se_id s) = Some (se_handle s) \<and>
    manager_get sqlite_store (se_id s) m1 =
      (Inr (session_of (stored now (create_record (se_id s) u p x (se_working_dir s) now)) (se_handle s)), m1)"
proof (cases rule: create_cases [of sqlite_store pm now u p x wd m])
  case (created wd' h p' w')
  let ?r = "create_record (session_id (unat (m_counter m + 1))) u p x wd' now"
  have "db_ok (m_store m)" using assms(1) by (simp add: mgr_ok_def)
  moreover have "storable now ?r" using assms(3) by (simp add: storable_def create_record_def)
  moreover have "sqlite_create now ?r (m_store m) = (Inr (), w')" using created(1) by (simp add: sqlite_store_def)
  ultimately have "sqlite_get (s_id ?r) w' = (Inr (stored now ?r), w')"
    using create_get_healthy [of "m_store m" now ?r] assms(2) by (auto split: if_splits)
  moreover have s: "se_id s = session_id (unat (m_counter m + 1))" "se_working_dir s = wd'" "se_handle s = h"
    "m_handles m1 = (m_handles m)(se_id s \<mapsto> h)" "m_store m1 = w'"
    using created(2) assms(6) by auto
  ultimately show ?thesis
    using unat_next [OF assms(5)]
    by (simp add: manager_get_def lookup_record_def sqlite_store_def create_record_def)
qed (use assms(6) in simp_all)

text \<open>C16: A session a client has created is served: after a \<open>201\<close> on a working database, its id is the next
  one, and a reader's \<open>GET .../state\<close> is answered by the handle registered under it, which \<open>manager_create\<close>
  takes from the process manager's \<open>Start\<close>.\<close>

theorem created_session_is_served:
  assumes "mgr_ok sqlite_view db_ok m" "healthy (m_store m)" "valid_time now" "now \<noteq> zero_time"
    "unat (m_counter m) + 1 < 2 ^ 64" "api_store api = sqlite_store"
    "r_path r = ''/v1/sessions''" "r_method r = ''POST''" "routes api now r m = (resp, m1)" "rs_status resp = 201"
    "r_path r2 = action_path (session_id (unat (m_counter m) + 1)) ''state''" "r_method r2 = ''GET''"
    "has_scope (from_context r2) ''sessions.read''"
  shows "\<exists>h. m_handles m1 (session_id (unat (m_counter m) + 1)) = Some h \<and>
    rs_body resp = JsonBody (json_map [(''session_id'', JStr (session_id (unat (m_counter m) + 1))), (''status'', JStr ''ready'')]) \<and>
    fst (routes api now2 r2 m1) =
      (case fst (ah_get_state (api_procs api) h (m_procs m1)) of
         Inl e \<Rightarrow> error_response 500 e
       | Inr st \<Rightarrow> json_response 200 (json_map [(''state'', agent_state_json st)]))"
proof -
  have "handle_create_session api now r m = (resp, m1)"
    using routes_create [OF assms(7,8), of api now m] assms(9) by simp
  from this assms(10) obtain req :: create_body and s where
    s': "manager_create (api_store api) (api_procs api) now (cb_user_id req)
      (cb_project_id req) (cb_external_id req) (cb_working_dir req) m = (Inr s, m1)"
    "resp = json_response 201 (json_map [(''session_id'', JStr (se_id s)), (''status'', JStr ''ready'')])"
    by (rule created_201)
  note s = s' [unfolded assms(6)]
  note c = create_then_get [OF assms(1-5) s(1)]
  let ?sid = "session_id (unat (m_counter m) + 1)"
  have seg: "path_segment ?sid" "path_segment ''state''"
    by (auto simp: path_segment_def session_id_def fmt_06d_def pad_zeros_def is_digit_char_def dest!: bspec [OF fmt_nat_digits])
  have "manager_get (api_store api) ?sid m1 =
      (Inr (session_of (stored now (create_record ?sid (cb_user_id req) (cb_project_id req) (cb_external_id req)
        (se_working_dir s) now)) (se_handle s)), m1)"
    using c assms(6) by metis
  then have "fst (routes api now2 r2 m1) =
      (case fst (ah_get_state (api_procs api) (se_handle s) (m_procs m1)) of
         Inl e \<Rightarrow> error_response 500 e
       | Inr st \<Rightarrow> json_response 200 (json_map [(''state'', agent_state_json st)]))"
    using routes_action [OF seg assms(11), of api now2 m1] assms(12,13)
    by (simp add: session_action_def handle_state_def require_scope_def session_state_def on_procs_def
        session_of_def internal_error_def split: prod.split sum.split)
  then show ?thesis using c s(2) by (intro exI [of _ "se_handle s"]) (auto simp: json_response_def)
qed

theorem created_session_is_served_witness:
  "let m1 = snd (routes sample_api (noon 2 0) create_alice demo_manager) in
     \<exists>h. m_handles m1 ''s_000002'' = Some h \<and>
       fst (routes sample_api (noon 3 0) (reader_request\<lparr>r_path := action_path ''s_000002'' ''state''\<rparr>) m1) =
         (case fst (ah_get_state (noop_manager []) h (m_procs m1)) of
            Inl e \<Rightarrow> error_response 500 e
          | Inr st \<Rightarrow> json_response 200 (json_map [(''state'', agent_state_json st)]))"
proof -
  define got where "got = routes sample_api (noon 2 0) create_alice demo_manager"
  have sid: "session_id (unat (m_counter demo_manager) + 1) = ''s_000002''" by code_simp
  have "rs_status (fst got) = 201" unfolding got_def by code_simp
  moreover have "healthy (m_store demo_manager)" "valid_time (noon 2 0)" "noon 2 0 \<noteq> zero_time"
    "unat (m_counter demo_manager) + 1 < 2 ^ 64" "r_path create_alice = ''/v1/sessions''" "r_method create_alice = ''POST''"
    by code_simp+
  moreover have "has_scope (from_context (reader_request\<lparr>r_path := action_path ''s_000002'' ''state''\<rparr>)) ''sessions.read''"
    by code_simp
  moreover have "api_store sample_api = sqlite_store" "api_procs sample_api = noop_manager []"
    by (simp_all add: sample_api_def)
  ultimately show ?thesis
    using created_session_is_served [OF demo_ok, of "noon 2 0" sample_api create_alice "fst got" "snd got"
      "reader_request\<lparr>r_path := action_path ''s_000002'' ''state''\<rparr>" "noon 3 0"]
    unfolding Let_def got_def [symmetric] sid
    by (auto simp: got_def reader_request_def)
qed

section \<open>The stream's frames\<close>

fun ongoing :: "stream_input \<Rightarrow> bool" where
  "ongoing (Client_Json j) = map_like j"
| "ongoing (Agent_Event e written) = written"
| "ongoing Ping_Tick = True"
| "ongoing _ = False"

fun frame_of :: "string \<Rightarrow> stream_input \<Rightarrow> event list" where
  "frame_of sid (Agent_Event e written) = [e\<lparr>ev_session_id := sid\<rparr>]"
| "frame_of sid _ = []"

text \<open>A stream sends the agent's events in order and none besides, each stamped with the session's id,
  up to the first input that ends it; when it ends it unsubscribes, once.\<close>

theorem stream_frames:
  "fst (stream_loop api sid s sub inputs m) = concat (map (frame_of sid) (takeWhile ongoing inputs)) \<and>
   (snd (snd (stream_loop api sid s sub inputs m)) = list_all ongoing inputs) \<and>
   fst (snd (stream_loop api sid s sub inputs m)) =
     (let m' = fst (snd (stream_loop api sid s sub (takeWhile ongoing inputs) m)) in
      if list_all ongoing inputs then m' else end_stream api s sub m')"
proof (induction inputs arbitrary: m)
  case (Cons i rest)
  then show ?case by (cases i) (auto simp: Let_def split_beta)
qed simp

end
