(* ===== verification/Agent_Stack.thy ===== *)
theory Agent_Stack
  imports Api_Handler Rpc_World
begin

text \<open>
  The parts put together: a request to the HTTP API, the session manager over a store, and the agent
  processes of \<open>rpc_manager.go\<close> behind the interface. What a client's prompt writes to the agent,
  and what it is told.
\<close>

definition prompt_of :: "prompt_body \<Rightarrow> prompt_request" where
  "prompt_of b = \<lparr>pr_message = pb_message b, pr_streaming_behavior = pb_streaming_behavior b\<rparr>"

definition prompt_accepted :: response where
  "prompt_accepted = json_response 202 (json_map [(''accepted'', JBool True)])"

lemma prompt_route:
  assumes "path_segment sid" "r_method r = ''POST''" "r_path r = action_path sid ''messages''"
    and "has_scope (from_context r) ''sessions.write''"
    and "decode_body prompt_fields \<lparr>pb_message = [], pb_streaming_behavior = []\<rparr> r = Some body"
    and "trim_space (pb_message body) \<noteq> []"
    and "manager_get (api_store api) sid m = (Inr s, m1)" "api_procs api = rpc_process_manager os rm env"
  shows "routes api now r m =
    (case on_process (se_handle s) (rpc_prompt env (prompt_of body)) (m_procs m1) of
       (Inl e, w) \<Rightarrow> (internal_error (Mgr_Process e), m1\<lparr>m_procs := w\<rparr>)
     | (Inr u, w) \<Rightarrow> (prompt_accepted, m1\<lparr>m_procs := w\<rparr>))"
proof -
  have "path_segment ''messages''" by (simp add: path_segment_def)
  from routes_action [OF assms(1) this assms(3), of api now m] show ?thesis
    using assms(2,4-8)
    by (simp add: session_action_def handle_prompt_def require_scope_def session_prompt_def on_procs_def
        rpc_process_manager_def prompt_of_def prompt_accepted_def split: prod.split sum.split)
qed

text \<open>A sample: one stored session, live with one process, and a prompt by a client that may write.\<close>

definition stack_manager :: "(nat, db, rpc_world) manager" where
  "stack_manager = \<lparr>m_counter = 1, m_handles = [''s_000001'' \<mapsto> 0], m_store = one_session,
     m_procs = [\<lparr>pr_launch = \<lparr>la_bin = ''pi'', la_args = [], la_dir = ''/w'', la_session_dir = ''/s''\<rparr>,
                 pr_handle = new_rpc_handle\<rparr>]\<rparr>"

definition stack_api :: "handle_op list \<Rightarrow> (nat, db, rpc_world) api" where
  "stack_api ops = \<lparr>api_store = sqlite_store, api_procs = rpc_process_manager plain_os default_rpc_manager (answering ops),
     api_working_dir = [], api_config = None, api_files = sample_artifacts, api_upgrade = (\<lambda>r. None), api_stream = (\<lambda>r. [])\<rparr>"

definition prompt_hi :: request where
  "prompt_hi = writer_request ''POST'' (action_path ''s_000001'' ''messages'')
     (json_print (JObj [(''message'', JStr ''hi'')]))"

lemma stack_facts:
  "path_segment ''s_000001''" "r_method prompt_hi = ''POST''" "r_path prompt_hi = action_path ''s_000001'' ''messages''"
  "has_scope (from_context prompt_hi) ''sessions.write''"
  "decode_body prompt_fields \<lparr>pb_message = [], pb_streaming_behavior = []\<rparr> prompt_hi =
     Some \<lparr>pb_message = ''hi'', pb_streaming_behavior = []\<rparr>"
  "trim_space (pb_message \<lparr>pb_message = ''hi'', pb_streaming_behavior = []\<rparr>) \<noteq> []"
  "counters_fresh new_rpc_handle" "\<not> rh_closed new_rpc_handle" "rh_reader new_rpc_handle = Idle"
  "next_request new_rpc_handle = ''req-1''"
  by code_simp+

lemma stack_env:
  "ce_write_error (answering ops) k = None" "ce_meanwhile (answering ops) k = ops"
  "ce_wake (answering ops) k = Wake_Answer"
  by (simp_all add: answering_def)

lemma stack_get:
  obtains s m1 where "manager_get (api_store (stack_api ops)) ''s_000001'' stack_manager = (Inr s, m1)"
    "se_handle s = 0" "m_procs m1 = m_procs stack_manager"
proof -
  let ?got = "manager_get sqlite_store ''s_000001'' stack_manager"
  have "\<not> isl (fst ?got)" "se_handle (projr (fst ?got)) = 0" "length (m_procs (snd ?got)) = 1"
    by code_simp+
  moreover have "m_procs (snd ?got) = m_procs stack_manager"
    by (simp add: manager_get_def split: option.split prod.split sum.split)
  ultimately show ?thesis
    using that [of "projr (fst ?got)" "snd ?got"] by (simp add: stack_api_def prod_eq_iff)
qed

text \<open>C5: A prompt reaches the agent, end to end: for a live session whose handle is open and whose reader
  is idle, \<open>POST .../messages\<close> by a client with \<open>sessions.write\<close> appends to the standard input of
  that session's process exactly the one line \<open>Prompt\<close> builds, under a new id; when the agent
  answers that id the client gets 202, or the agent's error if the answer says it failed.\<close>

theorem http_prompt_reaches_agent:
  assumes "path_segment sid" "r_method r = ''POST''" "r_path r = action_path sid ''messages''"
    and "has_scope (from_context r) ''sessions.write''"
    and "decode_body prompt_fields \<lparr>pb_message = [], pb_streaming_behavior = []\<rparr> r = Some body"
    and "trim_space (pb_message body) \<noteq> []"
    and "manager_get (api_store api) sid m = (Inr s, m1)" "api_procs api = rpc_process_manager os rm env"
    and "se_handle s < length (m_procs m1)" "h = pr_handle (m_procs m1 ! se_handle s)"
    and "handle_reachable h" "\<not> rh_closed h" "counters_fresh h" "rh_reader h = Idle"
    and "\<And>k. ce_write_error env k = None" "\<And>k. ce_meanwhile env k = [Read_Line [] line, Deliver]"
    and "\<And>k. ce_wake env k = Wake_Answer"
    and "line_envelope (strip_line line) = Some e" "re_env_type e = ''response''" "re_env_id e = next_request h"
  shows "rh_stdin (pr_handle (m_procs (snd (routes api now r m)) ! se_handle s)) =
      rh_stdin h @ [command_line (prompt_payload (prompt_of body)) (next_request h)] \<and>
    fst (routes api now r m) =
      (case command_result e of Inl err \<Rightarrow> internal_error (Mgr_Process err) | Inr env \<Rightarrow> prompt_accepted)"
proof -
  note route = prompt_route [OF assms(1-8)]
  obtain x h' where sent: "send_command env (prompt_payload (prompt_of body)) h = (x, h')" by fastforce
  note ack = acknowledged_command [OF assms(11-20), of "prompt_payload (prompt_of body)", unfolded sent fst_conv snd_conv]
  show ?thesis
    using ack sent assms(9,10)
    by (cases "command_result e") (simp_all add: route on_process_def rpc_prompt_def)
qed

theorem http_prompt_reaches_agent_witness:
  "let res = routes (stack_api [Read_Line [] answer_line, Deliver]) (noon 3 0) prompt_hi stack_manager in
   rs_status (fst res) = 202 \<and>
   rh_stdin (pr_handle (m_procs (snd res) ! 0)) =
     [json_print (JObj [(''id'', JStr ''req-1''), (''message'', JStr ''hi''), (''type'', JStr ''prompt'')]) @ [CHR 0x0A]]"
proof -
  let ?ops = "[Read_Line [] answer_line, Deliver]"
  let ?e = "zero_envelope\<lparr>re_env_type := ''response'', re_env_id := ''req-1''\<rparr>"
  obtain s m1 where got: "manager_get (api_store (stack_api ?ops)) ''s_000001'' stack_manager = (Inr s, m1)"
    "se_handle s = 0" "m_procs m1 = m_procs stack_manager"
    by (rule stack_get)
  have procs: "api_procs (stack_api ?ops) = rpc_process_manager plain_os default_rpc_manager (answering ?ops)"
    by (simp add: stack_api_def)
  have proc: "se_handle s < length (m_procs m1)" "new_rpc_handle = pr_handle (m_procs m1 ! se_handle s)"
    using got(2,3) by (simp_all add: stack_manager_def)
  have ans: "line_envelope (strip_line answer_line) = Some ?e" "re_env_type ?e = ''response''"
    "re_env_id ?e = next_request new_rpc_handle"
    by code_simp+
  have res: "command_result ?e = Inr ?e" "rs_status prompt_accepted = 202" "rh_stdin new_rpc_handle = []"
    "command_line (prompt_payload (prompt_of \<lparr>pb_message = ''hi'', pb_streaming_behavior = []\<rparr>)) ''req-1'' =
      json_print (JObj [(''id'', JStr ''req-1''), (''message'', JStr ''hi''), (''type'', JStr ''prompt'')]) @ [CHR 0x0A]"
    by code_simp+
  show ?thesis
    using http_prompt_reaches_agent [OF stack_facts(1-6) got(1) procs proc handle_reachable.start stack_facts(8,7,9)
        stack_env ans, of "noon 3 0"]
    unfolding Let_def got(2) stack_facts(10) res(1,3,4) by (simp add: res(2))
qed

text \<open>The agent's answer to \<open>get_state\<close>.\<close>

definition state_line :: "string \<Rightarrow> agent_state \<Rightarrow> json" where
  "state_line rid st =
     JObj [(''type'', JStr ''response''), (''id'', JStr rid), (''success'', JBool True),
           (''data'', JObj [(''isStreaming'', JBool (as_streaming st)),
              (''model'', JObj [(''id'', JStr (as_model st))]), (''thinkingLevel'', JStr (as_thinking_level st))])]"

lemma utf8_ok_ascii: "(\<And>c. c \<in> set s \<Longrightarrow> (of_char c :: nat) < 128) \<Longrightarrow> utf8_ok s"
  by (induction s) (simp_all add: utf8_ok.simps)

lemma utf8_ok_request_id: "utf8_ok (request_id n)"
proof (rule utf8_ok_ascii)
  fix c assume "c \<in> set (request_id n)"
  then have "c \<in> set ''req-'' \<or> is_digit_char c" using fmt_nat_digits [of n] by (auto simp: request_id_def)
  then show "(of_char c :: nat) < 128" by (auto simp: is_digit_char_def)
qed

lemma json_ok_state_line:
  assumes "utf8_ok (as_model st)" "utf8_ok (as_thinking_level st)"
  shows "json_ok (state_line (request_id n) st)"
proof -
  have "utf8_ok ''type''" "utf8_ok ''response''" "utf8_ok ''id''" "utf8_ok ''success''" "utf8_ok ''data''"
    "utf8_ok ''isStreaming''" "utf8_ok ''model''" "utf8_ok ''thinkingLevel''"
    by code_simp+
  then show ?thesis using assms by (simp add: state_line_def utf8_ok_request_id)
qed

lemma trim_braces: "trim_space (CHR 0x7B # u @ [CHR 0x7D]) = CHR 0x7B # u @ [CHR 0x7D]"
proof (rule trim_space_id)
  fix p assume p: "p \<in> set space_runes"
  have "list_all (\<lambda>p. p \<noteq> [] \<and> CHR 0x7B \<notin> set p \<and> CHR 0x7D \<notin> set p) space_runes" by code_simp
  with p have p: "p \<noteq> []" "CHR 0x7B \<notin> set p" "CHR 0x7D \<notin> set p" by (auto simp: list_all_iff)
  then have "hd p \<noteq> CHR 0x7B" "last p \<noteq> CHR 0x7D" using hd_in_set last_in_set by metis+
  moreover have "hd p = CHR 0x7B" if "CHR 0x7B # u @ [CHR 0x7D] = p @ t" for t
    using that p(1) by (cases p) auto
  moreover have "last p = CHR 0x7D" if "CHR 0x7B # u @ [CHR 0x7D] = t @ p" for t
    using that p(1) by (metis append_Cons last_appendR last_snoc)
  ultimately show "\<not> has_prefix (CHR 0x7B # u @ [CHR 0x7D]) p \<and> \<not> has_suffix (CHR 0x7B # u @ [CHR 0x7D]) p"
    unfolding has_prefix_iff has_suffix_iff by blast
qed

lemma trim_object: "trim_space (json_print (JObj ms)) = json_print (JObj ms)"
  using trim_braces by simp

lemma strip_object: "strip_line (json_print (JObj ms) @ [CHR 0x0A]) = json_print (JObj ms)"
  unfolding strip_line_def trim_suffix_append by (simp add: trim_suffix_def has_suffix_iff)

lemma state_lookups:
  "lookup_field state_fields ''isStreaming'' = Some (field (\<lambda>x s. s\<lparr>sd_streaming := x\<rparr>) sd_streaming dec_bool)"
  "lookup_field state_fields ''thinkingLevel'' =
     Some (field (\<lambda>x s. s\<lparr>sd_thinking_level := x\<rparr>) sd_thinking_level dec_string)"
  "lookup_field state_fields ''model'' = Some (field (\<lambda>x s. s\<lparr>sd_model := x\<rparr>) sd_model dec_model)"
  "lookup_field [(''id'', d)] ''id'' = Some d" for d :: "string field_decoder"
  by (simp_all add: lookup_field_def state_fields_def)

lemma state_line_answers:
  assumes "utf8_ok (as_model st)" "utf8_ok (as_thinking_level st)"
  obtains e where "line_envelope (strip_line (json_print (state_line (request_id n) st) @ [CHR 0x0A])) = Some e"
    "re_env_type e = ''response''" "re_env_id e = request_id n" "read_state (command_result e) = Inr st"
proof -
  let ?d = "JObj [(''isStreaming'', JBool (as_streaming st)),
              (''model'', JObj [(''id'', JStr (as_model st))]), (''thinkingLevel'', JStr (as_thinking_level st))]"
  let ?e = "zero_envelope\<lparr>re_env_type := ''response'', re_env_id := request_id n, re_env_success := Some True,
    re_env_data := Some ?d\<rparr>"
  have "json_depth (state_line (request_id n) st) \<le> max_depth"
    by (simp add: state_line_def max_depth_def)
  note parse = json_parse_print [OF json_ok_state_line [OF assms] this]
  have "decode_envelope (state_line (request_id n) st) = Some ?e"
    by (simp add: decode_envelope_def state_line_def field_def dec_raw_def zero_envelope_def)
  moreover have "strip_line (json_print (state_line (request_id n) st) @ [CHR 0x0A]) = json_print (state_line (request_id n) st)"
    and "trim_space (json_print (state_line (request_id n) st)) \<noteq> []"
    unfolding state_line_def strip_object trim_object by simp_all
  ultimately have "line_envelope (strip_line (json_print (state_line (request_id n) st) @ [CHR 0x0A])) = Some ?e"
    using parse by (simp add: line_envelope_def)
  moreover have "read_state (command_result ?e) = Inr st"
    by (simp add: command_result_def read_state_def state_lookups field_def dec_model_def)
  ultimately show thesis using that by simp
qed

lemma state_route:
  assumes "path_segment sid" "r_method r = ''GET''" "r_path r = action_path sid ''state''"
    and "has_scope (from_context r) ''sessions.read''"
    and "manager_get (api_store api) sid m = (Inr s, m1)" "api_procs api = rpc_process_manager os rm env"
  shows "routes api now r m =
    (case on_process (se_handle s) (rpc_get_state env) (m_procs m1) of
       (Inl e, w) \<Rightarrow> (internal_error (Mgr_Process e), m1\<lparr>m_procs := w\<rparr>)
     | (Inr st, w) \<Rightarrow> (json_response 200 (json_map [(''state'', agent_state_json st)]), m1\<lparr>m_procs := w\<rparr>))"
proof -
  have "path_segment ''state''" by (simp add: path_segment_def)
  from routes_action [OF assms(1) this assms(3), of api now m] show ?thesis
    using assms(2,4-6)
    by (simp add: session_action_def handle_state_def require_scope_def session_state_def on_procs_def
        rpc_process_manager_def split: prod.split sum.split)
qed

text \<open>C6: What the agent reports about itself reaches the client unchanged, end to end: \<open>GET .../state\<close> by a
  client with \<open>sessions.read\<close>, on a live session whose handle is open and whose reader is idle,
  appends the one line of the \<open>get_state\<close> command to the agent's standard input; when the agent answers
  that id with any streaming flag, model and thinking level (UTF-8), the client gets 200 with exactly
  these, through the line's escaping, the reader's match of the id, the caller's channel and the decoding.\<close>

theorem http_state_from_agent:
  assumes "path_segment sid" "r_method r = ''GET''" "r_path r = action_path sid ''state''"
    and "has_scope (from_context r) ''sessions.read''"
    and "manager_get (api_store api) sid m = (Inr s, m1)" "api_procs api = rpc_process_manager os rm env"
    and "se_handle s < length (m_procs m1)" "h = pr_handle (m_procs m1 ! se_handle s)"
    and "handle_reachable h" "\<not> rh_closed h" "counters_fresh h" "rh_reader h = Idle"
    and "\<And>k. ce_write_error env k = None" "\<And>k. ce_wake env k = Wake_Answer"
    and "\<And>k. ce_meanwhile env k =
      [Read_Line [] (json_print (state_line (next_request h) st) @ [CHR 0x0A]), Deliver]"
    and "utf8_ok (as_model st)" "utf8_ok (as_thinking_level st)"
  shows "fst (routes api now r m) = json_response 200 (json_map [(''state'', agent_state_json st)]) \<and>
    rh_stdin (pr_handle (m_procs (snd (routes api now r m)) ! se_handle s)) =
      rh_stdin h @ [command_line get_state_payload (next_request h)]"
proof -
  note route = state_route [OF assms(1-6)]
  obtain e where e: "line_envelope (strip_line (json_print (state_line (next_request h) st) @ [CHR 0x0A])) = Some e"
    "re_env_type e = ''response''" "re_env_id e = next_request h" "read_state (command_result e) = Inr st"
    unfolding next_request_def by (rule state_line_answers [OF assms(16,17)])
  obtain x h' where sent: "send_command env get_state_payload h = (x, h')" by fastforce
  note ack = acknowledged_command [OF assms(9-13,15,14) e(1-3), of get_state_payload, unfolded sent fst_conv snd_conv]
  show ?thesis
    using ack sent assms(7,8) e(4) by (simp add: route on_process_def rpc_get_state_def)
qed

definition ask_state :: request where
  "ask_state = reader_request\<lparr>r_path := action_path ''s_000001'' ''state''\<rparr>"

definition busy_agent :: agent_state where
  "busy_agent = \<lparr>as_streaming = True, as_model = ''opus'', as_thinking_level = [CHR 0x22, CHR 0x3C]\<rparr>"

theorem http_state_from_agent_witness:
  "fst (routes (stack_api [Read_Line [] (json_print (state_line ''req-1'' busy_agent) @ [CHR 0x0A]), Deliver])
     (noon 3 0) ask_state stack_manager) = json_response 200 (json_map [(''state'', agent_state_json busy_agent)])"
proof -
  let ?ops = "[Read_Line [] (json_print (state_line (next_request new_rpc_handle) busy_agent) @ [CHR 0x0A]), Deliver]"
  obtain s m1 where got: "manager_get (api_store (stack_api ?ops)) ''s_000001'' stack_manager = (Inr s, m1)"
    "se_handle s = 0" "m_procs m1 = m_procs stack_manager"
    by (rule stack_get)
  have procs: "api_procs (stack_api ?ops) = rpc_process_manager plain_os default_rpc_manager (answering ?ops)"
    by (simp add: stack_api_def)
  have proc: "se_handle s < length (m_procs m1)" "new_rpc_handle = pr_handle (m_procs m1 ! se_handle s)"
    using got(2,3) by (simp_all add: stack_manager_def)
  have req: "r_method ask_state = ''GET''" "r_path ask_state = action_path ''s_000001'' ''state''"
    "has_scope (from_context ask_state) ''sessions.read''" "utf8_ok (as_model busy_agent)"
    "utf8_ok (as_thinking_level busy_agent)"
    by code_simp+
  show ?thesis
    using http_state_from_agent [OF stack_facts(1) req(1-3) got(1) procs proc handle_reachable.start stack_facts(8,7,9)
        stack_env(1,3,2) req(4,5), of "noon 3 0"]
    unfolding stack_facts(10) by (rule conjunct1)
qed

text \<open>C35: The handle's race reaches the client: when the agent dies after the prompt was written and the
  reaper runs before the waiting request wakes, the client is told 202, accepted, although nothing
  will ever answer, and the handle is closed from then on.\<close>

theorem dead_agent_accepts_prompt:
  assumes "path_segment sid" "r_method r = ''POST''" "r_path r = action_path sid ''messages''"
    and "has_scope (from_context r) ''sessions.write''"
    and "decode_body prompt_fields \<lparr>pb_message = [], pb_streaming_behavior = []\<rparr> r = Some body"
    and "trim_space (pb_message body) \<noteq> []"
    and "manager_get (api_store api) sid m = (Inr s, m1)" "api_procs api = rpc_process_manager os rm env"
    and "se_handle s < length (m_procs m1)" "h = pr_handle (m_procs m1 ! se_handle s)"
    and "handle_reachable h" "\<not> rh_closed h" "counters_fresh h"
    and "\<And>k. ce_write_error env k = None" "\<And>k. ce_meanwhile env k = [Reap]" "\<And>k. ce_wake env k = Wake_Answer"
  shows "fst (routes api now r m) = prompt_accepted \<and>
    rh_closed (pr_handle (m_procs (snd (routes api now r m)) ! se_handle s)) \<and>
    rh_exit (pr_handle (m_procs (snd (routes api now r m)) ! se_handle s)) = Reaped"
proof -
  note route = prompt_route [OF assms(1-8)]
  obtain x h' where sent: "send_command env (prompt_payload (prompt_of body)) h = (x, h')" by fastforce
  have "x = Inr zero_envelope" "rh_closed h'" "rh_exit h' = Reaped"
    using orphaned_command [OF assms(11-16), of "prompt_payload (prompt_of body)"] sent by simp_all
  then show ?thesis
    using sent assms(9,10) by (simp add: route on_process_def rpc_prompt_def)
qed

theorem dead_agent_accepts_prompt_witness:
  "rs_status (fst (routes (stack_api [Reap]) (noon 3 0) prompt_hi stack_manager)) = 202"
proof -
  obtain s m1 where got: "manager_get (api_store (stack_api [Reap])) ''s_000001'' stack_manager = (Inr s, m1)"
    "se_handle s = 0" "m_procs m1 = m_procs stack_manager"
    by (rule stack_get)
  have procs: "api_procs (stack_api [Reap]) = rpc_process_manager plain_os default_rpc_manager (answering [Reap])"
    by (simp add: stack_api_def)
  have proc: "se_handle s < length (m_procs m1)" "new_rpc_handle = pr_handle (m_procs m1 ! se_handle s)"
    using got(2,3) by (simp_all add: stack_manager_def)
  have "rs_status prompt_accepted = 202" by code_simp
  then show ?thesis
    using dead_agent_accepts_prompt [OF stack_facts(1-6) got(1) procs proc handle_reachable.start stack_facts(8,7)
        stack_env, of "noon 3 0"]
    by simp
qed

end
