(* ===== verification/Server.thy ===== *)
theory Server
  imports Config Rate_Limit Api_Handler
begin

text \<open>
  \<open>cmd/server/main.go\<close>: how the parts are put together. \<open>boot\<close> is the start of \<open>main\<close> up to the
  handler, over any store and process manager that have been opened; \<open>server_handler\<close> is the chain
  rate limit, authentication, routes. The command line and the server's life after \<open>ListenAndServe\<close> are
  in \<open>Server_Life\<close>.
\<close>

section \<open>Start\<close>

record ('h, 'w, 'p) booted =
  bt_api :: "('h, 'w, 'p) api"
  bt_manager :: "('h, 'w, 'p) manager"

definition boot ::
  "server_config \<Rightarrow> 'w store_ops \<Rightarrow> ('h, 'p) process_manager \<Rightarrow> artifact_env \<Rightarrow>
   (request \<Rightarrow> response option) \<Rightarrow> (request \<Rightarrow> stream_input list) \<Rightarrow> event list \<Rightarrow> string \<Rightarrow> go_time \<Rightarrow> 'w \<Rightarrow> 'p \<Rightarrow> string + ('h, 'w, 'p) booted" where
  "boot cfg st pm files upgrade conn evs ctx_err now w0 p0 =
     (case st_init st w0 of
        (Inl e, w) \<Rightarrow> Inl (''init store: '' @ store_error_text e)
      | (Inr u, w) \<Rightarrow>
          (case manager_init st (new_manager w p0) of
             (Inl e, m) \<Rightarrow> Inl (''init session manager: '' @ mgr_error_text e)
           | (Inr u, m) \<Rightarrow>
               (case introspect_run pm (cfg_default_working_dir cfg) evs ctx_err now (m_procs m) of
                  (res, p) \<Rightarrow>
                    Inr \<lparr>bt_api =
                           \<lparr>api_store = st, api_procs = pm, api_working_dir = cfg_default_working_dir cfg,
                            api_config = (case res of Inl e \<Rightarrow> None | Inr c \<Rightarrow> Some c),
                            api_files = files, api_upgrade = upgrade, api_stream = conn\<rparr>,
                         bt_manager = m\<lparr>m_procs := p\<rparr>\<rparr>)))"

definition server_handler ::
  "server_config \<Rightarrow> ('h, 'w, 'p) api \<Rightarrow> int \<Rightarrow> go_time \<Rightarrow> (entries \<times> ('h, 'w, 'p) manager) handler" where
  "server_handler cfg api now_ns now =
     rate_limit_middleware (Some (cfg_auth cfg)) now_ns (middleware (cfg_auth cfg) (routes api now))"

section \<open>The start-up message\<close>

fun join_rest :: "string \<Rightarrow> string \<Rightarrow> string list \<Rightarrow> string" where
  "join_rest sep acc [] = acc"
| "join_rest sep acc (p # ps) = join_rest sep (acc @ sep @ p) ps"

definition join_strings :: "string list \<Rightarrow> string \<Rightarrow> string" where
  "join_strings parts sep =
     (case parts of [] \<Rightarrow> ''enabled'' | p # ps \<Rightarrow> join_rest sep p ps)"

definition auth_mode_string :: "auth_config \<Rightarrow> string" where
  "auth_mode_string cfg =
     (if \<not> is_enabled cfg then ''auth: disabled, local-only access''
      else
        (let parts = (if 0 < length (api_keys cfg)
                      then [''api-key, '' @ fmt_nat (length (api_keys cfg)) @ '' keys configured''] else []) @
                     (if jwks_url cfg \<noteq> [] then [''jwt''] else [])
         in ''auth: '' @ join_strings parts '' + ''))"

lemma join_rest_join: "join_rest sep acc ps = join sep (acc # ps)"
  by (induction sep acc ps rule: join_rest.induct) (auto, case_tac ps, auto)

lemma join_strings_join: "parts \<noteq> [] \<Longrightarrow> join_strings parts sep = join sep parts"
  by (cases parts) (simp_all add: join_strings_def join_rest_join)

lemma auth_mode_parts:
  "is_enabled cfg \<Longrightarrow> auth_mode_string cfg \<noteq> ''auth: enabled''"
  by (auto simp: auth_mode_string_def is_enabled_def join_strings_def Let_def)

section \<open>Properties\<close>

definition presents_key :: "auth_config \<Rightarrow> request \<Rightarrow> string \<Rightarrow> bool" where
  "presents_key cfg r sc \<longleftrightarrow>
     list_ex (\<lambda>k. key_secret k = extract_bearer r \<and> (''admin'' \<in> set (key_scopes k) \<or> sc \<in> set (key_scopes k)))
       (api_keys cfg)"

lemma server_handler_cases:
  obtains (limited) resp rl' where "server_handler cfg api ns now r (rl, m) = (resp, (rl', m))" "rs_status resp = 429"
  | (refused) rl' where "server_handler cfg api ns now r (rl, m) = (error_response 401 ''unauthorized'', (rl', m))"
  | (admitted) i rl' where "check_auth (cfg_auth cfg) r = Inr i"
      "server_handler cfg api ns now r (rl, m) =
         (fst (routes api now (with_identity r i) m), (rl', snd (routes api now (with_identity r i) m)))"
proof -
  have inner: "middleware (cfg_auth cfg) (routes api now) r m =
      (case check_auth (cfg_auth cfg) r of
         Inl e \<Rightarrow> (error_response 401 ''unauthorized'', m) | Inr i \<Rightarrow> routes api now (with_identity r i) m)"
    by (simp add: middleware_def)
  show thesis
  proof (cases "is_enabled (cfg_auth cfg) \<and> \<not> fst (fst (allow ns (client_ip r (behind_proxy (cfg_auth cfg))) rl))")
    case True
    obtain b d rl' where al: "allow ns (client_ip r (behind_proxy (cfg_auth cfg))) rl = ((b, d), rl')"
      by (metis prod.collapse)
    have "server_handler cfg api ns now r (rl, m) = (too_many d, (rl', m))"
      using True al by (simp add: server_handler_def rate_limit_middleware_def)
    moreover have "rs_status (too_many d) = 429" by (simp add: too_many_def)
    ultimately show ?thesis using limited by blast
  next
    case False
    obtain b d rl1 where al: "allow ns (client_ip r (behind_proxy (cfg_auth cfg))) rl = ((b, d), rl1)"
      by (metis prod.collapse)
    define rl' where "rl' = (if is_enabled (cfg_auth cfg) then rl1 else rl)"
    have out: "server_handler cfg api ns now r (rl, m) =
        (fst (middleware (cfg_auth cfg) (routes api now) r m), (rl', snd (middleware (cfg_auth cfg) (routes api now) r m)))"
      using False al by (simp add: server_handler_def rate_limit_middleware_def rl'_def split: prod.split)
    show ?thesis
    proof (cases "check_auth (cfg_auth cfg) r")
      case (Inl err)
      then show ?thesis using refused [of rl'] out inner by simp
    next
      case (Inr i)
      then show ?thesis using admitted [of i rl'] out inner by simp
    qed
  qed
qed

text \<open>C3: End to end: with credentials configured, a request that presents no key with the scope
  \<open>sessions.write\<close> or \<open>admin\<close>, whatever its path, changes neither the session counter nor the live
  handles nor the store, which is at most read; of the agents it asks at most one, for its state or
  its messages. The one exception is the stream, for a key with \<open>sessions.read\<close>: there its client can
  also abort that agent's run and answer its questions. A request with none of the keys changes
  nothing at all.\<close>

theorem server_mutation_needs_key:
  assumes "is_enabled (cfg_auth cfg)" "\<not> presents_key (cfg_auth cfg) r ''sessions.write''"
    and "m' = snd (snd (server_handler cfg api ns now r (rl, m)))"
  shows "m_counter m' = m_counter m \<and> m_handles m' = m_handles m \<and>
    m_store m' \<in> store_reads (api_store api) (m_store m) \<and>
    (m_procs m' \<in> proc_reads (api_procs api) (ran (m_handles m)) (m_procs m) \<or>
     is_stream r \<and> presents_key (cfg_auth cfg) r ''sessions.read'' \<and>
       m_procs m' \<in> streams (api_procs api) (ran (m_handles m)) (m_procs m)) \<and>
    (list_all (\<lambda>k. key_secret k \<noteq> extract_bearer r) (api_keys (cfg_auth cfg)) \<longrightarrow> m' = m)"
proof (cases rule: server_handler_cases [of cfg api ns now r rl m])
  case (admitted i rl')
  let ?r = "with_identity r i"
  have ctx: "from_context ?r = i" by simp
  have same: "is_stream ?r = is_stream r" "r_path ?r = r_path r" by (simp_all add: is_stream_def with_identity_def)
  have scope: "presents_key (cfg_auth cfg) r sc" if "has_scope i sc" for sc
    using scope_from_key [OF admitted(1) assms(1) that] by (auto simp: presents_key_def list_ex_iff)
  then have "\<not> has_scope i ''sessions.write''" using assms(2) by blast
  then have "confined api (reader_procs api ?r (ran (m_handles m)) (m_procs m)) m (snd (routes api now ?r m))"
    by (intro routes_observe) simp
  moreover have m': "m' = snd (routes api now ?r m)" using assms(3) admitted(2) by simp
  moreover have "m' = m" if "list_all (\<lambda>k. key_secret k \<noteq> extract_bearer r) (api_keys (cfg_auth cfg))"
  proof -
    have "r_path r \<in> set public_paths" using admitted(1) assms(1) that by (auto simp: check_auth_Inr_iff list_all_iff)
    then show ?thesis by (auto simp: m' routes_def public_paths_def same)
  qed
  ultimately show ?thesis
    using scope [of "''sessions.read''"] by (auto simp: confined_def reader_procs_def same ctx split: if_splits)
qed (simp_all add: assms(3) proc_reads_def)

definition keyed_config :: server_config where
  "keyed_config = load_from_env (\<lambda>k. if k = ''AUTH_API_KEYS'' then ''bot:sk_1:sessions.read'' else [])"

definition keyed_request :: "string \<Rightarrow> string \<Rightarrow> request" where
  "keyed_request meth path =
     \<lparr>r_method = meth, r_path = path, r_headers = [(''Authorization'', ''Bearer sk_1'')], r_query = [],
      r_remote_addr = ''10.0.0.7:4000'', r_body = [], r_ctx = None\<rparr>"

theorem server_mutation_needs_key_witness:
  "let m' = snd (snd (server_handler keyed_config sample_api 0 (noon 3 0)
     (keyed_request ''DELETE'' ''/v1/sessions/s_000001'') (Map.empty, live_manager))) in
   m_handles m' = m_handles live_manager \<and>
   m_procs m' \<in> proc_reads (noop_manager []) (ran (m_handles live_manager)) (m_procs live_manager)"
proof -
  let ?r = "keyed_request ''DELETE'' ''/v1/sessions/s_000001''"
  have "is_enabled (cfg_auth keyed_config)" "\<not> presents_key (cfg_auth keyed_config) ?r ''sessions.write''"
    "\<not> is_stream ?r"
    by code_simp+
  moreover have "api_procs sample_api = noop_manager []" by (simp add: sample_api_def)
  ultimately show ?thesis
    using server_mutation_needs_key [of keyed_config ?r _ sample_api 0 "noon 3 0" Map.empty live_manager]
    unfolding Let_def by metis
qed

text \<open>The server information is not public, although it is documented as such: with credentials
  configured, a request for it without one of the keys is answered 401 or 429.\<close>

theorem server_info_not_public:
  assumes "is_enabled (cfg_auth cfg)" "list_all (\<lambda>k. key_secret k \<noteq> extract_bearer r) (api_keys (cfg_auth cfg))"
    "r_path r = ''/v1/server-info''"
  shows "rs_status (fst (server_handler cfg api ns now r (rl, m))) \<in> {401, 429}"
proof (cases rule: server_handler_cases [of cfg api ns now r rl m])
  case (admitted i rl')
  have "r_path r \<notin> set public_paths" using assms(3) by (simp add: public_paths_def)
  then show ?thesis using admitted(1) assms(1,2) by (auto simp: check_auth_Inr_iff)
qed simp_all

theorem server_info_not_public_witness:
  "rs_status (fst (server_handler keyed_config sample_api 0 (noon 3 0)
     (keyed_request ''GET'' ''/v1/server-info''\<lparr>r_headers := []\<rparr>) (Map.empty, live_manager))) \<in> {401, 429}"
proof (rule server_info_not_public)
  show "is_enabled (cfg_auth keyed_config)" by code_simp
  show "list_all (\<lambda>k. key_secret k \<noteq> extract_bearer (keyed_request ''GET'' ''/v1/server-info''\<lparr>r_headers := []\<rparr>))
      (api_keys (cfg_auth keyed_config))" by code_simp
qed (simp add: keyed_request_def)

text \<open>A failed introspection does not keep the server from starting: \<open>boot\<close> succeeds as soon as the
  store and the manager initialise, whatever the agent does; then no session is live and
  \<open>/v1/config\<close> says whether the introspection was captured.\<close>

theorem boot_survives_introspection:
  assumes "st_init st w0 = (Inr (), w)" "manager_init st (new_manager w p0) = (Inr (), m)"
  shows "\<exists>b. boot cfg st pm files upgrade conn evs ctx_err now w0 p0 = Inr b \<and> m_handles (bt_manager b) = m_handles m \<and>
    m_store (bt_manager b) = m_store m \<and>
    (api_config (bt_api b) = None \<longleftrightarrow>
       isl (fst (introspect_run pm (cfg_default_working_dir cfg) evs ctx_err now (m_procs m))))"
proof -
  obtain res p where "introspect_run pm (cfg_default_working_dir cfg) evs ctx_err now (m_procs m) = (res, p)"
    by fastforce
  then show ?thesis using assms by (cases res) (simp_all add: boot_def)
qed

theorem boot_survives_introspection_witness:
  "\<exists>b. boot keyed_config sqlite_store (noop_manager []) sample_artifacts (\<lambda>r. None) (\<lambda>r. []) [] ''deadline'' (noon 1 0) one_session [] = Inr b \<and>
     api_config (bt_api b) = None"
proof -
  define i where "i = st_init sqlite_store one_session"
  define m where "m = (manager_init sqlite_store (new_manager (snd i) []) :: (mgr_error + unit) \<times> (nat, db, noop_world) manager)"
  have "\<not> isl (fst i)" "\<not> isl (fst m)" unfolding m_def i_def by code_simp+
  then have "st_init sqlite_store one_session = (Inr (), snd i)"
    "manager_init sqlite_store (new_manager (snd i) []) = (Inr (), snd m)"
    by (simp_all add: i_def [symmetric] m_def [symmetric] prod_eq_iff isl_def) (metis isl_def old.unit.exhaust sum.exhaust)+
  moreover have "isl (fst (introspect_run (noop_manager []) (cfg_default_working_dir keyed_config) [] ''deadline'' (noon 1 0)
      (m_procs (snd m))))"
    unfolding m_def i_def by code_simp
  ultimately show ?thesis
    using boot_survives_introspection [of sqlite_store one_session "snd i" "[]" "snd m" keyed_config "noop_manager []"
      sample_artifacts "\<lambda>r. None" "\<lambda>r. []" "[]" "''deadline''" "noon 1 0"] by blast
qed

end
