(* ===== verification/Status.thy ===== *)
theory Status
  imports Config Sqlite
begin

text \<open>
  \<open>cmd/server/status.go\<close>: the report of the \<open>status\<close> command as a function of what it observes
  (the health request, the file system, the database, the search path), and \<open>formatBytes\<close> with its
  floating-point arithmetic.
\<close>

section \<open>Sizes\<close>

fun bit_len :: "nat \<Rightarrow> nat" where
  "bit_len n = (if n = 0 then 0 else Suc (bit_len (n div 2)))"

declare bit_len.simps [simp del]

text \<open>Division with rounding to the nearest integer, halves to the even one.\<close>

definition div_half_even :: "nat \<Rightarrow> nat \<Rightarrow> nat" where
  "div_half_even n d =
     (let q = n div d; r = n mod d in
      if d < 2 * r \<or> (2 * r = d \<and> odd q) then q + 1 else q)"

text \<open>\<open>float64(b)\<close> of a natural number: 53 significant bits.\<close>

definition float64_of :: "nat \<Rightarrow> nat" where
  "float64_of b =
     (if b < 2 ^ 53 then b
      else (let unit = 2 ^ (bit_len b - 53) in div_half_even b unit * unit))"

text \<open>The loop of \<open>formatBytes\<close>: \<open>(div, exp)\<close>.\<close>

function unit_loop :: "nat \<Rightarrow> nat \<Rightarrow> nat \<Rightarrow> nat \<times> nat" where
  "unit_loop n dv ex = (if 1024 \<le> n then unit_loop (n div 1024) (dv * 1024) (ex + 1) else (dv, ex))"
  by auto
termination by (relation "measure (\<lambda>(n, dv, ex). n)") auto

declare unit_loop.simps [simp del]

definition unit_letters :: string where "unit_letters = ''KMGTPE''"

definition format_bytes :: "int \<Rightarrow> string" where
  "format_bytes b =
     (if b < 1024 then
        (if b < 0 then CHR ''-'' # fmt_nat (nat (- b)) else fmt_nat (nat b)) @ '' B''
      else
        (case unit_loop (nat b div 1024) 1024 0 of
           (dv, ex) \<Rightarrow>
             (let tenths = div_half_even (10 * float64_of (nat b)) dv in
              fmt_nat (tenths div 10) @ ''.'' @ fmt_nat (tenths mod 10) @ '' '' @ [unit_letters ! ex] @ ''B'')))"

lemma unit_loop_spec:
  assumes "unit_loop n dv ex = (dv', ex')"
  shows "dv' = dv * 1024 ^ (ex' - ex) \<and> ex \<le> ex' \<and> n div 1024 ^ (ex' - ex) < 1024 \<and>
    (ex < ex' \<longrightarrow> 1 \<le> n div 1024 ^ (ex' - ex))"
  using assms
proof (induction n dv ex arbitrary: dv' ex' rule: unit_loop.induct)
  case (1 n dv ex)
  show ?case
  proof (cases "1024 \<le> n")
    case True
    then have "unit_loop (n div 1024) (dv * 1024) (ex + 1) = (dv', ex')"
      using "1.prems" by (simp add: unit_loop.simps [of n])
    from "1.IH" [OF True this] have IH: "dv' = dv * 1024 * 1024 ^ (ex' - (ex + 1))" "ex + 1 \<le> ex'"
      "n div 1024 div 1024 ^ (ex' - (ex + 1)) < 1024"
      "ex + 1 < ex' \<longrightarrow> 1 \<le> n div 1024 div 1024 ^ (ex' - (ex + 1))"
      by simp_all
    define k where "k = ex' - Suc ex"
    have k: "ex' - ex = Suc k" using IH(2) by (simp add: k_def)
    have "1 \<le> n div 1024 div 1024 ^ k"
    proof (cases "ex + 1 < ex'")
      case True
      then show ?thesis using IH(4) by (simp add: k_def)
    next
      case False
      then have "k = 0" using IH(2) by (simp add: k_def)
      then show ?thesis using True by simp
    qed
    then show ?thesis using IH k by (simp add: k_def [symmetric] div_mult2_eq [symmetric] mult.assoc)
  next
    case False
    then show ?thesis using "1.prems" by (auto simp: unit_loop.simps [of n])
  qed
qed

text \<open>For every file size (a non-negative \<open>int64\<close>), the index into the unit letters is in range, so
  \<open>formatBytes\<close> cannot panic, the divisor stays an \<open>int64\<close>, and the unit is the largest that fits.\<close>

theorem format_bytes_unit:
  assumes "1024 \<le> b" "b < 2 ^ 63"
  shows "snd (unit_loop (nat b div 1024) 1024 0) < length unit_letters \<and>
    fst (unit_loop (nat b div 1024) 1024 0) = 1024 ^ (snd (unit_loop (nat b div 1024) 1024 0) + 1) \<and>
    fst (unit_loop (nat b div 1024) 1024 0) < 2 ^ 63 \<and>
    fst (unit_loop (nat b div 1024) 1024 0) \<le> nat b \<and> nat b < 1024 * fst (unit_loop (nat b div 1024) 1024 0)"
proof -
  obtain dv ex where l: "unit_loop (nat b div 1024) 1024 0 = (dv, ex)" by fastforce
  from unit_loop_spec [OF this] have s: "dv = 1024 ^ (ex + 1)" "nat b div 1024 div 1024 ^ ex < 1024"
    "0 < ex \<longrightarrow> 1 \<le> nat b div 1024 div 1024 ^ ex"
    by simp_all
  have d: "nat b div 1024 div 1024 ^ ex = nat b div dv" by (simp add: s(1) div_mult2_eq [symmetric])
  have "1024 \<le> nat b" using assms(1) by simp
  then have "1 \<le> nat b div 1024" by (simp add: less_eq_div_iff_mult_less_eq)
  then have "1 \<le> nat b div dv" using s(3) d by (cases ex) (simp_all add: s(1))
  moreover have pos: "0 < dv" by (simp add: s(1))
  ultimately have low: "dv \<le> nat b" by (simp add: less_eq_div_iff_mult_less_eq)
  have "nat b < 1024 * dv" using s(2) pos unfolding d by (simp add: div_less_iff_less_mult mult.commute)
  have nb: "nat b < 2 ^ 63" using assms(2) by simp
  then have "(1024 :: nat) ^ (ex + 1) < 2 ^ 63" using low s(1) by simp
  then have "(2 :: nat) ^ (10 * (ex + 1)) < 2 ^ 63" by (simp only: power_mult) simp
  then have "10 * (ex + 1) < 63" by (rule power_less_imp_less_exp [rotated]) simp
  then have "ex < 6" by simp
  then show ?thesis using l s(1) low \<open>nat b < 1024 * dv\<close> nb by (simp add: unit_letters_def)
qed

theorem format_bytes_unit_witness:
  "snd (unit_loop (nat 9223372036854775807 div 1024) 1024 0) < length unit_letters"
  using format_bytes_unit [of 9223372036854775807] by simp

text \<open>Just under a unit the rounded value reads as 1024 of the smaller one.\<close>

lemma format_bytes_examples:
  "format_bytes 0 = ''0 B''" "format_bytes 1023 = ''1023 B''" "format_bytes 1536 = ''1.5 KB''"
  "format_bytes 1048575 = ''1024.0 KB''"
  by code_simp+

section \<open>The report\<close>

record status_env =
  sv_health :: "string \<Rightarrow> (nat \<times> json option) option"
  sv_abs :: "string \<Rightarrow> string option"
  sv_stat :: "string \<Rightarrow> bool + int"
  sv_open_error :: "string option"
  sv_init_error :: "string option"
  sv_count :: int
  sv_look_path :: "string \<Rightarrow> string option"

definition check_mark :: string where "check_mark = [CHR 0xE2, CHR 0x9C, CHR 0x93]"
definition cross_mark :: string where "cross_mark = [CHR 0xE2, CHR 0x9C, CHR 0x97]"

definition join_host_port :: "string \<Rightarrow> string \<Rightarrow> string" where
  "join_host_port host port =
     (if CHR '':'' \<in> set host then ''['' @ host @ '']:'' @ port else host @ '':'' @ port)"

definition health_url :: "string \<Rightarrow> string" where
  "health_url addr =
     (case (case split_host_port addr of None \<Rightarrow> ([], []) | Some hp \<Rightarrow> hp) of
        (host, port) \<Rightarrow>
          ''http://'' @ join_host_port (if host = [] then ''localhost'' else host) port @ ''/healthz'')"

definition health_ok :: "(nat \<times> json option) option \<Rightarrow> bool" where
  "health_ok h =
     (case h of
        Some (code, Some j) \<Rightarrow> code = 200 \<and> obj_get j ''ok'' = Some (JBool True)
      | _ \<Rightarrow> False)"

definition health_lines :: "server_config \<Rightarrow> status_env \<Rightarrow> string list" where
  "health_lines cfg env =
     [''Server'', ''  Listen address : '' @ cfg_listen_addr cfg,
      (case sv_health env (health_url (cfg_listen_addr cfg)) of
         None \<Rightarrow> ''  Health         : '' @ cross_mark @ '' unreachable ('' @ health_url (cfg_listen_addr cfg) @ '')''
       | Some (code, body) \<Rightarrow>
           if health_ok (Some (code, body)) then ''  Health         : '' @ check_mark @ '' ok''
           else ''  Health         : '' @ cross_mark @ '' unhealthy (status '' @ fmt_nat code @ '')'')]"

definition auth_lines :: "server_config \<Rightarrow> string list" where
  "auth_lines cfg =
     [[], ''Auth''] @
     (if \<not> is_enabled (cfg_auth cfg) then [''  Mode           : disabled (local-only access)'']
      else
        (if 0 < length (api_keys (cfg_auth cfg))
         then [''  API keys       : '' @ fmt_nat (length (api_keys (cfg_auth cfg))) @ '' configured''] else []) @
        (if jwks_url (cfg_auth cfg) \<noteq> [] then [''  JWKS           : '' @ jwks_url (cfg_auth cfg)] else [])) @
     (if behind_proxy (cfg_auth cfg) then [''  Behind proxy   : yes''] else [])"

definition dsn_location :: "server_config \<Rightarrow> status_env \<Rightarrow> string" where
  "dsn_location cfg env =
     (case sv_abs env (cfg_store_dsn cfg) of
        Some p \<Rightarrow> if cfg_store_dsn cfg \<noteq> '':memory:'' then p else cfg_store_dsn cfg
      | None \<Rightarrow> cfg_store_dsn cfg)"

text \<open>The database is opened and initialised; \<open>store_open\<close> refuses an unknown driver.\<close>

definition database_error :: "server_config \<Rightarrow> status_env \<Rightarrow> string option" where
  "database_error cfg env =
     (case (store_open (cfg_store_driver cfg) (cfg_store_dsn cfg), sv_open_error env, sv_init_error env) of
        (Inl e, _, _) \<Rightarrow> Some (''cannot open ('' @ e @ '')'')
      | (Inr _, Some e, _) \<Rightarrow> Some (''cannot open ('' @ e @ '')'')
      | (Inr _, None, Some e) \<Rightarrow> Some (''schema error ('' @ e @ '')'')
      | _ \<Rightarrow> None)"

definition database_lines :: "server_config \<Rightarrow> status_env \<Rightarrow> string list" where
  "database_lines cfg env =
     [[], ''Database'', ''  Driver         : '' @ cfg_store_driver cfg,
      ''  Location       : '' @ dsn_location cfg env] @
     (if dsn_location cfg env \<noteq> '':memory:'' then
        (case sv_stat env (dsn_location cfg env) of
           Inr sz \<Rightarrow> [''  File size      : '' @ format_bytes sz]
         | Inl True \<Rightarrow> [''  File           : not yet created (will be created on first run)'']
         | Inl False \<Rightarrow> [])
      else []) @
     [(case database_error cfg env of
         Some e \<Rightarrow> ''  Status         : '' @ cross_mark @ '' '' @ e
       | None \<Rightarrow>
           if 0 < sv_count env then ''  Status         : '' @ check_mark @ '' ok ('' @ fmt_nat (nat (sv_count env)) @ '' sessions)''
           else ''  Status         : '' @ check_mark @ '' ok (empty)'')]"

definition pi_lines :: "server_config \<Rightarrow> status_env \<Rightarrow> string list" where
  "pi_lines cfg env =
     [[], ''Pi'', ''  Binary         : '' @ cfg_pi_bin_path cfg] @
     (case sv_look_path env (cfg_pi_bin_path cfg) of
        None \<Rightarrow> [''  Status         : '' @ cross_mark @ '' not found in PATH'']
      | Some p \<Rightarrow> [''  Path           : '' @ p, ''  Status         : '' @ check_mark @ '' found'']) @
     [''  Default args   : ['' @ join '' '' (cfg_pi_args cfg) @ '']'',
      ''  Sessions dir   : '' @ cfg_sessions_base_dir cfg] @
     (if cfg_default_working_dir cfg \<noteq> [] then [''  Working dir    : '' @ cfg_default_working_dir cfg] else [])"

definition status_ok :: "server_config \<Rightarrow> status_env \<Rightarrow> bool" where
  "status_ok cfg env \<longleftrightarrow>
     health_ok (sv_health env (health_url (cfg_listen_addr cfg))) \<and> database_error cfg env = None \<and>
     sv_look_path env (cfg_pi_bin_path cfg) \<noteq> None"

text \<open>\<open>runStatus\<close>: the lines and the exit code.\<close>

definition run_status :: "server_config \<Rightarrow> status_env \<Rightarrow> string list \<times> nat" where
  "run_status cfg env =
     ([''Zoea Agent Server Status'', ''========================'', []] @ health_lines cfg env @ auth_lines cfg @
      database_lines cfg env @ pi_lines cfg env @
      [[], if status_ok cfg env then ''All checks passed '' @ check_mark else ''Some checks failed '' @ cross_mark],
      if status_ok cfg env then 0 else 1)"

lemma unknown_driver_fails:
  "cfg_store_driver cfg \<noteq> [] \<Longrightarrow> cfg_store_driver cfg \<noteq> ''sqlite'' \<Longrightarrow> snd (run_status cfg env) = 1"
  by (simp add: run_status_def status_ok_def database_error_def store_open_def)

end
