(* ===== verification/Server_Life.thy ===== *)
theory Server_Life
  imports Server Status
begin

text \<open>
  \<open>main\<close> of \<open>cmd/server/main.go\<close>: the choice between the status report and the server, and the
  server's life from \<open>ListenAndServe\<close> to the end of the program. Three kinds of goroutines run:
  \<open>main\<close>, the one that waits for the signal and calls \<open>Shutdown\<close>, and one per request. Of
  \<open>net/http\<close> it uses what its documentation says: \<open>Shutdown\<close> closes the listeners, then waits until no
  request is in flight; \<open>ListenAndServe\<close> returns \<open>ErrServerClosed\<close> at once when \<open>Shutdown\<close> is
  called, and another error when the listener fails.
\<close>

section \<open>Start\<close>

text \<open>The outcome of \<open>main\<close> up to \<open>ListenAndServe\<close>: the report and its exit code, the message of
  \<open>log.Fatalf\<close>, or the server with its handler. \<open>open_fault\<close> is the error, if any, with which
  the directory or the database of the DSN cannot be opened.\<close>

datatype ('h, 'w, 'p) started =
    Reported "string list" nat
  | Fatal string
  | Serving_With "('h, 'w, 'p) booted" string

definition run_main ::
  "string list \<Rightarrow> environment \<Rightarrow> status_env \<Rightarrow> (string option \<times> string \<Rightarrow> string option) \<Rightarrow>
   'w store_ops \<Rightarrow> ('h, 'p) process_manager \<Rightarrow> artifact_env \<Rightarrow> (request \<Rightarrow> response option) \<Rightarrow>
   (request \<Rightarrow> stream_input list) \<Rightarrow> event list \<Rightarrow> string \<Rightarrow> go_time \<Rightarrow> 'w \<Rightarrow> 'p \<Rightarrow> ('h, 'w, 'p) started" where
  "run_main args env senv open_fault st pm files upgrade conn evs ctx_err now w p =
     (if 1 < length args \<and> args ! 1 = ''status''
      then (case run_status (load_from_env env) senv of (lines, code) \<Rightarrow> Reported lines code)
      else
        (let cfg = load_from_env env in
         case store_open (cfg_store_driver cfg) (cfg_store_dsn cfg) of
           Inl e \<Rightarrow> Fatal (''open store: '' @ e)
         | Inr target \<Rightarrow>
             (case open_fault target of
                Some e \<Rightarrow> Fatal (''open store: '' @ e)
              | None \<Rightarrow>
                  (case boot cfg st pm files upgrade conn evs ctx_err now w p of
                     Inl e \<Rightarrow> Fatal e
                   | Inr b \<Rightarrow>
                       Serving_With b (''zoea-server listening on '' @ cfg_listen_addr cfg @ '' ('' @
                         auth_mode_string (cfg_auth cfg) @ '')'')))))"

section \<open>The server's life\<close>

datatype drain = Not_Called | Draining | Drained

text \<open>Where \<open>main\<close> is: in \<open>ListenAndServe\<close>, in its deferred calls, or the program has ended with a
  code.\<close>

datatype main_at = In_Serve | In_Defers | Ended nat

record life =
  lf_main :: main_at
  lf_signalled :: bool
  lf_shutdown :: drain
  lf_requests :: "nat list"
  lf_store_open :: bool

definition life_start :: life where
  "life_start = \<lparr>lf_main = In_Serve, lf_signalled = False, lf_shutdown = Not_Called, lf_requests = [],
     lf_store_open = True\<rparr>"

datatype life_op =
    Got_Signal
  | Call_Shutdown
  | Shutdown_Returns
  | New_Request nat
  | End_Request nat
  | Serve_Returns
  | Serve_Fails
  | Close_Store
  | Main_Returns

text \<open>\<open>log.Fatalf\<close> ends the program without its deferred calls.\<close>

fun life_enabled :: "life_op \<Rightarrow> life \<Rightarrow> bool" where
  "life_enabled Got_Signal l = True"
| "life_enabled Call_Shutdown l = (lf_signalled l \<and> lf_shutdown l = Not_Called)"
| "life_enabled Shutdown_Returns l = (lf_shutdown l = Draining \<and> lf_requests l = [])"
| "life_enabled (New_Request i) l = (lf_main l = In_Serve \<and> lf_shutdown l = Not_Called \<and> i \<notin> set (lf_requests l))"
| "life_enabled (End_Request i) l = (i \<in> set (lf_requests l))"
| "life_enabled Serve_Returns l = (lf_main l = In_Serve \<and> lf_shutdown l \<noteq> Not_Called)"
| "life_enabled Serve_Fails l = (lf_main l = In_Serve \<and> lf_shutdown l = Not_Called)"
| "life_enabled Close_Store l = (lf_main l = In_Defers \<and> lf_store_open l)"
| "life_enabled Main_Returns l = (lf_main l = In_Defers \<and> \<not> lf_store_open l)"

fun life_apply :: "life_op \<Rightarrow> life \<Rightarrow> life" where
  "life_apply Got_Signal l = l\<lparr>lf_signalled := True\<rparr>"
| "life_apply Call_Shutdown l = l\<lparr>lf_shutdown := Draining\<rparr>"
| "life_apply Shutdown_Returns l = l\<lparr>lf_shutdown := Drained\<rparr>"
| "life_apply (New_Request i) l = l\<lparr>lf_requests := lf_requests l @ [i]\<rparr>"
| "life_apply (End_Request i) l = l\<lparr>lf_requests := remove1 i (lf_requests l)\<rparr>"
| "life_apply Serve_Returns l = l\<lparr>lf_main := In_Defers\<rparr>"
| "life_apply Serve_Fails l = l\<lparr>lf_main := Ended 1\<rparr>"
| "life_apply Close_Store l = l\<lparr>lf_store_open := False\<rparr>"
| "life_apply Main_Returns l = l\<lparr>lf_main := Ended 0\<rparr>"

definition life_step :: "life_op \<Rightarrow> life \<Rightarrow> life option" where
  "life_step e l =
     (case lf_main l of
        Ended code \<Rightarrow> None
      | _ \<Rightarrow> if life_enabled e l then Some (life_apply e l) else None)"

definition life_ok :: "life \<Rightarrow> bool" where
  "life_ok l \<longleftrightarrow> distinct (lf_requests l) \<and> (lf_shutdown l \<noteq> Not_Called \<longrightarrow> lf_signalled l) \<and>
     (lf_shutdown l = Drained \<longrightarrow> lf_requests l = []) \<and>
     (case lf_main l of
        In_Serve \<Rightarrow> lf_store_open l
      | In_Defers \<Rightarrow> lf_shutdown l \<noteq> Not_Called
      | Ended code \<Rightarrow> code = 0 \<and> lf_shutdown l \<noteq> Not_Called \<and> \<not> lf_store_open l \<or>
          code = 1 \<and> lf_shutdown l = Not_Called \<and> lf_store_open l)"

interpretation server_life: partial_invariant life_step life_ok
proof
  fix l e l'
  assume "life_ok l" "life_step e l = Some l'"
  then show "life_ok l'"
    by (cases e) (auto simp: life_step_def life_ok_def split: main_at.splits if_splits)
qed

section \<open>Properties\<close>

text \<open>The server's end: in every run, the program ends with code 0 only after a signal and with its store
  closed, and with code 1 only without a shutdown, the store left open; requests are distinct, and
  once \<open>Shutdown\<close> has returned none is in flight.\<close>

theorem server_end:
  assumes "attempt life_step es life_start = Some l"
  shows "(lf_main l = Ended code \<longrightarrow>
      code = 0 \<and> lf_signalled l \<and> \<not> lf_store_open l \<or> code = 1 \<and> lf_shutdown l = Not_Called \<and> lf_store_open l) \<and>
    (lf_shutdown l = Drained \<longrightarrow> lf_requests l = [])"
proof -
  have "life_ok life_start" by (simp add: life_ok_def life_start_def)
  from server_life.attempt_inv [OF this assms] show ?thesis
    by (auto simp: life_ok_def)
qed

theorem server_end_witness:
  "let l = the (attempt life_step [New_Request 7, End_Request 7, Got_Signal, Call_Shutdown, Shutdown_Returns,
     Serve_Returns, Close_Store, Main_Returns] life_start) in
   lf_main l = Ended 0 \<and> lf_signalled l \<and> \<not> lf_store_open l \<and> lf_requests l = []"
proof -
  let ?es = "[New_Request 7, End_Request 7, Got_Signal, Call_Shutdown, Shutdown_Returns, Serve_Returns, Close_Store,
    Main_Returns]"
  obtain l where l: "attempt life_step ?es life_start = Some l" "lf_main l = Ended 0" "lf_shutdown l = Drained"
    by (rule that [of "the (attempt life_step ?es life_start)"]) code_simp+
  from server_end [OF l(1), of 0] l show ?thesis by (simp del: attempt.simps)
qed

text \<open>C36: The shutdown is not graceful: \<open>main\<close> does not wait for \<open>Shutdown\<close>, so from any state in which
  the server serves, a signal can end the program with code 0 while every request that was in
  flight still is, the store closed under them.\<close>

theorem shutdown_cuts_requests:
  assumes "attempt life_step es life_start = Some l" "lf_main l = In_Serve" "lf_shutdown l = Not_Called"
  shows "\<exists>l'. attempt life_step (es @ [Got_Signal, Call_Shutdown, Serve_Returns, Close_Store, Main_Returns]) life_start =
      Some l' \<and> lf_main l' = Ended 0 \<and> \<not> lf_store_open l' \<and> lf_requests l' = lf_requests l \<and>
    lf_shutdown l' = Draining"
proof -
  have "life_ok life_start" by (simp add: life_ok_def life_start_def)
  from server_life.attempt_inv [OF this assms(1)] have "lf_store_open l" using assms(2) by (simp add: life_ok_def)
  then show ?thesis
    using assms by (simp add: attempt_append life_step_def)
qed

theorem shutdown_cuts_requests_witness:
  "\<exists>l'. attempt life_step [New_Request 7, Got_Signal, Call_Shutdown, Serve_Returns, Close_Store, Main_Returns]
     life_start = Some l' \<and> lf_main l' = Ended 0 \<and> \<not> lf_store_open l' \<and> lf_requests l' = [7]"
proof -
  obtain l where l: "attempt life_step [New_Request 7] life_start = Some l" "lf_main l = In_Serve"
    "lf_shutdown l = Not_Called" "lf_requests l = [7]"
    by (rule that [of "the (attempt life_step [New_Request 7] life_start)"]) code_simp+
  from shutdown_cuts_requests [OF l(1-3)] l(4) show ?thesis by (auto simp del: attempt.simps)
qed

end
